(* ===== verification/Prelude.thy ===== *)
theory Prelude
  imports Main "HOL-Library.Word" "HOL-Library.Monad_Syntax"
begin

text \<open>
  Shared vocabulary of the development: the machine integer types of the Rust sources, the
  arithmetic of the dev profile (an overflow panics, and a panic aborts the process because
  \<open>src/firecracker/Cargo.toml\<close> sets \<^verbatim>\<open>panic = "abort"\<close>), slices and indexing that panic out
  of range, little- and big-endian byte codecs, and the generic lemmas on them that the
  components use.

  A computation that may panic has type \<open>'a option\<close>: \<^const>\<open>None\<close> is the panic. A Rust
  \<^verbatim>\<open>Result<T, E>\<close> is the sum \<open>'e + 'a\<close>. A computation that may do both has type
  \<open>('e + 'a) option\<close>. Release builds differ from the model only where the model panics on an
  arithmetic overflow: there they wrap.
\<close>

unbundle bit_operations_syntax

section \<open>Types\<close>

type_synonym u8 = "8 word"
type_synonym u16 = "16 word"
type_synonym u32 = "32 word"
type_synonym u64 = "64 word"
type_synonym usize = "64 word"
type_synonym bytes = "8 word list"

named_theorems rust_defs \<open>unfolding rules of the Rust primitives\<close>
named_theorems le_simps \<open>little- and big-endian codec equations\<close>

section \<open>Arithmetic\<close>

text \<open>
  \<^verbatim>\<open>checked_add\<close>, \<^verbatim>\<open>checked_sub\<close>, \<^verbatim>\<open>checked_mul\<close>; the same functions give the panicking
  \<^verbatim>\<open>+\<close>, \<^verbatim>\<open>-\<close>, \<^verbatim>\<open>*\<close> of the dev profile.
\<close>

definition add_c :: "'a::len word \<Rightarrow> 'a word \<Rightarrow> 'a word option" where
  [rust_defs]: "add_c a b = (if unat a + unat b < 2 ^ LENGTH('a) then Some (a + b) else None)"

definition sub_c :: "'a::len word \<Rightarrow> 'a word \<Rightarrow> 'a word option" where
  [rust_defs]: "sub_c a b = (if b \<le> a then Some (a - b) else None)"

definition mul_c :: "'a::len word \<Rightarrow> 'a word \<Rightarrow> 'a word option" where
  [rust_defs]: "mul_c a b = (if unat a * unat b < 2 ^ LENGTH('a) then Some (a * b) else None)"

definition saturating_sub :: "'a::len word \<Rightarrow> 'a word \<Rightarrow> 'a word" where
  [rust_defs]: "saturating_sub a b = (if b \<le> a then a - b else 0)"

definition saturating_add :: "'a::len word \<Rightarrow> 'a word \<Rightarrow> 'a word" where
  [rust_defs]: "saturating_add a b = (if unat a + unat b < 2 ^ LENGTH('a) then a + b else - 1)"

text \<open>\<^verbatim>\<open>assert!\<close>: panics when the condition is false.\<close>

definition assert_that :: "bool \<Rightarrow> unit option" where
  [rust_defs]: "assert_that b = (if b then Some () else None)"

lemma assert_that_simps [simp]:
  "assert_that True = Some ()" "assert_that False = None"
  by (simp_all add: assert_that_def)

lemma add_c_Some_iff:
  "add_c a b = Some c \<longleftrightarrow> unat a + unat b < 2 ^ LENGTH('a) \<and> c = a + b"
  for a b c :: "'a::len word"
  by (auto simp: add_c_def)

lemma unat_add_c: "add_c a b = Some c \<Longrightarrow> unat c = unat a + unat b"
  by (auto simp: add_c_def unat_word_ariths split: if_splits)

lemma unat_sub_c: "sub_c a b = Some c \<Longrightarrow> unat c = unat a - unat b \<and> unat b \<le> unat a"
  by (auto simp: sub_c_def unat_sub word_le_nat_alt split: if_splits)

lemma unat_mul_c: "mul_c a b = Some c \<Longrightarrow> unat c = unat a * unat b"
  by (auto simp: mul_c_def unat_word_ariths split: if_splits)

lemma add_c_of_nat:
  assumes "m + n < 2 ^ LENGTH('a)"
  shows "add_c (of_nat m) (of_nat n :: 'a::len word) = Some (of_nat (m + n))"
  using assms by (simp add: add_c_def unat_of_nat)

lemma unat_of_nat_small [simp]:
  "n < 2 ^ LENGTH('a) \<Longrightarrow> unat (of_nat n :: 'a::len word) = n"
  by (simp add: unat_of_nat)

lemma eq_of_nat_unat: "unat w = n \<Longrightarrow> w = of_nat n" for w :: "'a::len word"
  by auto

lemma unat_saturating_sub: "unat (saturating_sub a b) = unat a - unat b"
  by (auto simp: saturating_sub_def unat_sub word_le_nat_alt)

lemma unat_push_bit_byte:
  fixes b :: u8
  assumes "n + 8 \<le> LENGTH('a)"
  shows "unat (push_bit n (ucast b) :: 'a::len word) = unat b * 2 ^ n"
proof -
  have b: "unat b < 2 ^ 8" using unsigned_less [of b] by simp
  have "unat b * 2 ^ n < 2 ^ 8 * 2 ^ n" using b by simp
  also have "\<dots> = 2 ^ (n + 8)" by (simp add: power_add)
  also have "\<dots> \<le> 2 ^ LENGTH('a)" using assms by (intro power_increasing) auto
  finally have lt: "unat b * 2 ^ n < 2 ^ LENGTH('a)" .
  have "(2::nat) ^ 8 \<le> 2 ^ LENGTH('a)" using assms by (intro power_increasing) auto
  with b have u: "unat (ucast b :: 'a word) = unat b"
    by (simp add: unsigned_ucast_eq take_bit_nat_eq_self)
  have "unat (push_bit n (ucast b) :: 'a word) =
      take_bit LENGTH('a) (push_bit n (unat (ucast b :: 'a word)))"
    by (rule unsigned_push_bit_eq)
  also have "\<dots> = take_bit LENGTH('a) (unat b * 2 ^ n)" by (simp only: u push_bit_eq_mult)
  also have "\<dots> = unat b * 2 ^ n" using lt by (rule take_bit_nat_eq_self)
  finally show ?thesis .
qed

lemma add_c_Some: "unat a + unat b < 2 ^ LENGTH('a) \<Longrightarrow> add_c a b = Some (a + b)"
  for a b :: "'a::len word"
  by (simp add: add_c_def)

lemma unat_ucast_up:
  fixes x :: "'a::len word"
  assumes "LENGTH('a) \<le> LENGTH('b::len)"
  shows "unat (ucast x :: 'b word) = unat x"
proof -
  have "unat x < 2 ^ LENGTH('a)" using unsigned_less [of x] by simp
  also have "\<dots> \<le> 2 ^ LENGTH('b)" using assms by (intro power_increasing) auto
  finally show ?thesis by (simp add: unsigned_ucast_eq take_bit_nat_eq_self)
qed

section \<open>Slices and indexing\<close>

text \<open>\<^verbatim>\<open>&xs[i..j]\<close> panics unless \<open>i \<le> j \<le> xs.len()\<close>; \<^verbatim>\<open>xs[i]\<close> panics out of range.\<close>

definition subslice :: "'a list \<Rightarrow> nat \<Rightarrow> nat \<Rightarrow> 'a list option" where
  [rust_defs]: "subslice xs i j = (if i \<le> j \<and> j \<le> length xs then Some (take (j - i) (drop i xs)) else None)"

definition idx :: "'a list \<Rightarrow> nat \<Rightarrow> 'a option" where
  [rust_defs]: "idx xs i = (if i < length xs then Some (xs ! i) else None)"

lemma subslice_Some_length: "subslice xs i j = Some ys \<Longrightarrow> length ys = j - i \<and> i \<le> j \<and> j \<le> length xs"
  by (auto simp: subslice_def split: if_splits)

lemma subslice_append_mid:
  "i = length xs \<Longrightarrow> j = length xs + length ys \<Longrightarrow> subslice (xs @ ys @ zs) i j = Some ys"
  by (simp add: subslice_def)

lemma idx_append_left [simp]: "i < length xs \<Longrightarrow> idx (xs @ ys) i = idx xs i"
  by (simp add: idx_def nth_append)

lemma idx_Cons_0 [simp]: "idx (x # xs) 0 = Some x"
  by (simp add: idx_def)

lemma idx_Cons_Suc [simp]: "idx (x # xs) (Suc i) = idx xs i"
  by (simp add: idx_def)

text \<open>\<^verbatim>\<open>xs[i..i + ys.len()].copy_from_slice(ys)\<close>: panics out of range.\<close>

definition copy_to :: "bytes \<Rightarrow> nat \<Rightarrow> bytes \<Rightarrow> bytes option" where
  "copy_to xs i ys =
     (if i + length ys \<le> length xs then Some (take i xs @ ys @ drop (i + length ys) xs) else None)"

lemma copy_to_nth:
  assumes "copy_to xs i ys = Some zs"
  shows "length zs = length xs"
    and "j < length xs \<Longrightarrow> zs ! j = (if i \<le> j \<and> j < i + length ys then ys ! (j - i) else xs ! j)"
  using assms by (auto simp: copy_to_def nth_append split: if_split_asm)

lemma copy_to_ok: "i + length ys \<le> length xs \<Longrightarrow> \<exists>zs. copy_to xs i ys = Some zs"
  by (simp add: copy_to_def)

lemma copy_to_drop: "copy_to xs i ys = Some zs \<Longrightarrow> i + length ys \<le> length xs \<and> zs = take i xs @ ys @ drop (i + length ys) xs"
  by (simp add: copy_to_def split: if_split_asm)

section \<open>Byte order\<close>

fun le_nat :: "bytes \<Rightarrow> nat" where
  "le_nat [] = 0"
| "le_nat (b # bs) = unat b + 256 * le_nat bs"

fun le_bytes :: "nat \<Rightarrow> nat \<Rightarrow> bytes" where
  "le_bytes 0 n = []"
| "le_bytes (Suc k) n = of_nat (n mod 256) # le_bytes k (n div 256)"

lemma le_bytes_numeral:
  "le_bytes (numeral k) n = of_nat (n mod 256) # le_bytes (pred_numeral k) (n div 256)"
  by (simp only: numeral_eq_Suc [of k] le_bytes.simps)

definition be_nat :: "bytes \<Rightarrow> nat" where
  "be_nat bs = le_nat (rev bs)"

definition be_bytes :: "nat \<Rightarrow> nat \<Rightarrow> bytes" where
  "be_bytes k n = rev (le_bytes k n)"

lemma length_le_bytes [simp]: "length (le_bytes k n) = k"
  by (induction k arbitrary: n) auto

lemma length_be_bytes [simp]: "length (be_bytes k n) = k"
  by (simp add: be_bytes_def)

lemma unat_u8_mod [simp]: "unat (of_nat (n mod 256) :: u8) = n mod 256"
  by (simp add: unat_of_nat)

lemma le_nat_le_bytes_mod: "le_nat (le_bytes k n) = n mod 256 ^ k"
proof (induction k arbitrary: n)
  case 0
  then show ?case by simp
next
  case (Suc k)
  have "n mod (256 * 256 ^ k) = 256 * (n div 256 mod 256 ^ k) + n mod 256"
    by (rule mod_mult2_eq)
  with Suc show ?case by simp
qed

lemma le_nat_le_bytes [le_simps]: "n < 256 ^ k \<Longrightarrow> le_nat (le_bytes k n) = n"
  by (simp add: le_nat_le_bytes_mod)

lemma le_nat_bound: "le_nat bs < 256 ^ length bs"
proof (induction bs)
  case Nil
  then show ?case by simp
next
  case (Cons b bs)
  have "unat b < 256" using unsigned_less [of b] by simp
  with Cons show ?case by simp
qed

lemma le_bytes_le_nat [le_simps]: "le_bytes (length bs) (le_nat bs) = bs"
proof (induction bs)
  case Nil
  then show ?case by simp
next
  case (Cons b bs)
  have "unat b < 256" using unsigned_less [of b] by simp
  with Cons show ?case by simp
qed

lemma be_nat_be_bytes [le_simps]: "n < 256 ^ k \<Longrightarrow> be_nat (be_bytes k n) = n"
  by (simp add: be_nat_def be_bytes_def le_nat_le_bytes)

lemma be_bytes_be_nat [le_simps]: "be_bytes (length bs) (be_nat bs) = bs"
  using le_bytes_le_nat [of "rev bs"] by (simp add: be_nat_def be_bytes_def)

lemma be_nat_bound: "be_nat bs < 256 ^ length bs"
  using le_nat_bound [of "rev bs"] by (simp add: be_nat_def)

lemma le_nat_append: "le_nat (xs @ ys) = le_nat xs + 256 ^ length xs * le_nat ys"
  by (induction xs) (simp_all add: algebra_simps)

lemma le_nat_le_bytes_word [simp]:
  "le_nat (le_bytes 2 (unat (a :: u16))) = unat a"
  "le_nat (le_bytes 4 (unat (b :: u32))) = unat b"
  "le_nat (le_bytes 8 (unat (c :: u64))) = unat c"
proof -
  have "unat a < 2 ^ 16" "unat b < 2 ^ 32" "unat c < 2 ^ 64"
    using unsigned_less [of a, where ?'a = nat] unsigned_less [of b, where ?'a = nat]
      unsigned_less [of c, where ?'a = nat] by simp_all
  then show "le_nat (le_bytes 2 (unat a)) = unat a" "le_nat (le_bytes 4 (unat b)) = unat b"
    "le_nat (le_bytes 8 (unat c)) = unat c"
    by (simp_all add: le_nat_le_bytes)
qed

text \<open>A list of a known small length, cell by cell.\<close>

lemma length_2_conv: "length xs = 2 \<longleftrightarrow> (\<exists>a b. xs = [a, b])"
  by (auto simp: length_Suc_conv numeral_2_eq_2)

lemma length_8_conv:
  "length xs = 8 \<longleftrightarrow> (\<exists>a b c d e f g h. xs = [a, b, c, d, e, f, g, h])"
  by (auto simp: length_Suc_conv numeral_eq_Suc)

section \<open>Options\<close>

lemma bindE:
  assumes "Option.bind m f = Some y"
  obtains x where "m = Some x" "f x = Some y"
  using assms by (auto simp: bind_eq_Some_conv)

lemma bind_Some_conv: "(Option.bind m f = Some y) \<longleftrightarrow> (\<exists>x. m = Some x \<and> f x = Some y)"
  by (rule bind_eq_Some_conv)

end
