(* ===== verification/Uk_Binary.thy ===== *)
theory Uk_Binary
  imports Prelude
begin

text \<open>
  The description files of an aligned unikernel: \<open>src/firecracker/src/loader/src/binary.rs\<close>
  (the reader, Rust) and \<open>src/aligner/helpers/elf_minimizer.py\<close> (the writer, Python). The file
  system is a parameter: whether a path exists, the contents a successful open sees, and how
  many bytes one \<^verbatim>\<open>read\<close> call returns.
\<close>

section \<open>Strings\<close>

text \<open>\<^verbatim>\<open>String::from_utf8\<close> accepts exactly the well-formed UTF-8 sequences.\<close>

abbreviation is_cont :: "u8 \<Rightarrow> bool" where
  "is_cont b \<equiv> 0x80 \<le> b \<and> b \<le> 0xBF"

fun utf8_valid :: "bytes \<Rightarrow> bool" where
  "utf8_valid [] = True"
| "utf8_valid [a] = (a < 0x80)"
| "utf8_valid [a, b] =
     (if a < 0x80 then utf8_valid [b] else 0xC2 \<le> a \<and> a \<le> 0xDF \<and> is_cont b)"
| "utf8_valid [a, b, c] =
     (if a < 0x80 then utf8_valid [b, c]
      else if 0xC2 \<le> a \<and> a \<le> 0xDF then is_cont b \<and> utf8_valid [c]
      else (a = 0xE0 \<and> 0xA0 \<le> b \<and> b \<le> 0xBF \<or> a = 0xED \<and> 0x80 \<le> b \<and> b \<le> 0x9F \<or>
            0xE1 \<le> a \<and> a \<le> 0xEF \<and> a \<noteq> 0xED \<and> is_cont b) \<and> is_cont c)"
| "utf8_valid (a # b # c # d # bs) =
     (if a < 0x80 then utf8_valid (b # c # d # bs)
      else if 0xC2 \<le> a \<and> a \<le> 0xDF then is_cont b \<and> utf8_valid (c # d # bs)
      else if 0xE0 \<le> a \<and> a \<le> 0xEF then
        (a = 0xE0 \<and> 0xA0 \<le> b \<and> b \<le> 0xBF \<or> a = 0xED \<and> 0x80 \<le> b \<and> b \<le> 0x9F \<or>
         0xE1 \<le> a \<and> a \<noteq> 0xED \<and> is_cont b) \<and> is_cont c \<and> utf8_valid (d # bs)
      else (a = 0xF0 \<and> 0x90 \<le> b \<and> b \<le> 0xBF \<or> a = 0xF4 \<and> 0x80 \<le> b \<and> b \<le> 0x8F \<or>
            0xF1 \<le> a \<and> a \<le> 0xF3 \<and> is_cont b) \<and> is_cont c \<and> is_cont d \<and> utf8_valid bs)"

text \<open>\<^verbatim>\<open>String::from_utf8(..).expect(..)\<close>: a panic on an ill-formed sequence.\<close>

definition from_utf8 :: "bytes \<Rightarrow> bytes option" where
  "from_utf8 bs = (if utf8_valid bs then Some bs else None)"

text \<open>\<^verbatim>\<open>str::contains\<close>.\<close>

fun contains_str :: "'a list \<Rightarrow> 'a list \<Rightarrow> bool" where
  "contains_str [] pat = (pat = [])"
| "contains_str (x # xs) pat = (take (length pat) (x # xs) = pat \<or> contains_str xs pat)"

section \<open>The file system interface\<close>

record file_io =
  file_exists :: "string \<Rightarrow> bool"
  file_open :: "string \<Rightarrow> bytes option"
  file_read :: "string \<Rightarrow> nat \<Rightarrow> nat option"

definition get_file_as_byte_vec :: "file_io \<Rightarrow> string \<Rightarrow> bytes option" where
  "get_file_as_byte_vec io filename = do {
     f \<leftarrow> file_open io filename;
     n \<leftarrow> file_read io filename (length f);
     Some (take n f @ replicate (length f - n) 0)
   }"

section \<open>Decoding helpers\<close>

definition as_u16_le :: "bytes \<Rightarrow> u16 option" where
  "as_u16_le array = do {
     a0 \<leftarrow> idx array 0;
     a1 \<leftarrow> idx array 1;
     add_c (push_bit 0 (ucast a0)) (push_bit 8 (ucast a1))
   }"

definition as_u64_le :: "bytes \<Rightarrow> u64 option" where
  "as_u64_le array = do {
     a0 \<leftarrow> idx array 0;
     a1 \<leftarrow> idx array 1;
     s \<leftarrow> add_c (push_bit 0 (ucast a0)) (push_bit 8 (ucast a1));
     a2 \<leftarrow> idx array 2;
     s \<leftarrow> add_c s (push_bit 16 (ucast a2));
     a3 \<leftarrow> idx array 3;
     s \<leftarrow> add_c s (push_bit 24 (ucast a3));
     a4 \<leftarrow> idx array 4;
     s \<leftarrow> add_c s (push_bit 32 (ucast a4));
     a5 \<leftarrow> idx array 5;
     s \<leftarrow> add_c s (push_bit 40 (ucast a5));
     a6 \<leftarrow> idx array 6;
     s \<leftarrow> add_c s (push_bit 48 (ucast a6));
     a7 \<leftarrow> idx array 7;
     add_c s (push_bit 56 (ucast a7))
   }"

section \<open>The reader\<close>

record Sections =
  sec_name :: bytes
  sec_vma :: u64
  sec_size :: u64
  sec_bytes :: "bytes option"

record BinaryLoader =
  bin_sections :: "Sections list"
  bin_buff :: bytes

definition BinaryLoader_new :: BinaryLoader where
  "BinaryLoader_new = \<lparr>bin_sections = [], bin_buff = []\<rparr>"

text \<open>One round of the loop: the section at \<open>current\<close> and the position after it.\<close>

definition read_entry :: "bytes \<Rightarrow> usize \<Rightarrow> (Sections \<times> usize) option" where
  "read_entry buff current = do {
     current_next \<leftarrow> add_c current 2;
     s \<leftarrow> subslice buff (unat current) (unat current_next);
     size \<leftarrow> as_u16_le s;
     let current = current_next;
     current_next \<leftarrow> add_c current (ucast size);
     s \<leftarrow> subslice buff (unat current) (unat current_next);
     name \<leftarrow> from_utf8 s;
     let current = current_next;
     current_next \<leftarrow> add_c current 8;
     s \<leftarrow> subslice buff (unat current) (unat current_next);
     size \<leftarrow> as_u64_le s;
     let current = current_next;
     current_next \<leftarrow> add_c current 8;
     s \<leftarrow> subslice buff (unat current) (unat current_next);
     vma \<leftarrow> as_u64_le s;
     let current = current_next;
     current_next \<leftarrow> add_c current size;
     bytes \<leftarrow> subslice buff (unat current) (unat current_next);
     Some (\<lparr>sec_name = name, sec_vma = vma, sec_size = size, sec_bytes = Some bytes\<rparr>, current_next)
   }"

fun read_entries :: "nat \<Rightarrow> bytes \<Rightarrow> usize \<Rightarrow> Sections list \<Rightarrow> Sections list option" where
  "read_entries 0 buff current secs = Some secs"
| "read_entries (Suc n) buff current secs = do {
     (s, current) \<leftarrow> read_entry buff current;
     read_entries n buff current (secs @ [s])
   }"

definition read_uk_file :: "file_io \<Rightarrow> BinaryLoader \<Rightarrow> string \<Rightarrow> BinaryLoader option" where
  "read_uk_file io self filename =
     (if contains_str filename ''update_minimal'' \<and> \<not> file_exists io filename then Some self
      else do {
        buff \<leftarrow> get_file_as_byte_vec io filename;
        nb_entry \<leftarrow> idx buff 0;
        secs \<leftarrow> read_entries (unat nb_entry) buff 1 (bin_sections self);
        Some \<lparr>bin_sections = secs, bin_buff = buff\<rparr>
      })"

section \<open>The writer\<close>

text \<open>
  An ELF section as the Python script sees it: name (a Python string, the list of its code points),
  \<^verbatim>\<open>sh_size\<close>, \<^verbatim>\<open>sh_addr\<close> and \<^verbatim>\<open>data()\<close>. An exception (\<open>None\<close>) ends the script: \<^verbatim>\<open>to_bytes\<close> raises
  \<open>OverflowError\<close> when the number does not fit, \<^verbatim>\<open>str.encode\<close> raises \<open>UnicodeEncodeError\<close> on a surrogate.
\<close>

type_synonym py_str = "nat list"

record elf_section =
  es_name :: py_str
  sh_size :: nat
  sh_addr :: nat
  es_data :: bytes

definition py_to_bytes_le :: "nat \<Rightarrow> nat \<Rightarrow> bytes option" where
  "py_to_bytes_le n k = (if n < 256 ^ k then Some (le_bytes k n) else None)"

definition utf8_char :: "nat \<Rightarrow> bytes option" where
  "utf8_char c =
     (if c < 0x80 then Some [of_nat c]
      else if c < 0x800 then Some [of_nat (0xC0 + c div 64), of_nat (0x80 + c mod 64)]
      else if 0xD800 \<le> c \<and> c < 0xE000 then None
      else if c < 0x10000 then
        Some [of_nat (0xE0 + c div 4096), of_nat (0x80 + c div 64 mod 64), of_nat (0x80 + c mod 64)]
      else if c < 0x110000 then
        Some [of_nat (0xF0 + c div 262144), of_nat (0x80 + c div 4096 mod 64),
              of_nat (0x80 + c div 64 mod 64), of_nat (0x80 + c mod 64)]
      else None)"

fun py_str_encode :: "py_str \<Rightarrow> bytes option" where
  "py_str_encode [] = Some []"
| "py_str_encode (c # cs) = do { x \<leftarrow> utf8_char c; xs \<leftarrow> py_str_encode cs; Some (x @ xs) }"

text \<open>
  \<^verbatim>\<open>extract\<close> appends to the byte array and returns whether it wrote the section. The length field is
  \<^verbatim>\<open>len(section.name)\<close>, the number of code points of the name.
\<close>

definition extract_section :: "elf_section \<Rightarrow> bytes \<Rightarrow> (bool \<times> bytes) option" where
  "extract_section sec b =
     (if list_all (\<lambda>v. v = 0) (es_data sec) then Some (False, b)
      else do {
        l \<leftarrow> py_to_bytes_le (length (es_name sec)) 2;
        n \<leftarrow> py_str_encode (es_name sec);
        sz \<leftarrow> py_to_bytes_le (sh_size sec) 8;
        ad \<leftarrow> py_to_bytes_le (sh_addr sec) 8;
        Some (True, b @ l @ n @ sz @ ad @ es_data sec)
      })"

text \<open>The name filter and the loop of \<^verbatim>\<open>process_file_aslr\<close>.\<close>

definition py_lit :: "string \<Rightarrow> py_str" where
  "py_lit cs = map of_char cs"

definition aslr_selected :: "py_str list \<Rightarrow> py_str list \<Rightarrow> elf_section \<Rightarrow> bool" where
  "aslr_selected included not_common sec \<longleftrightarrow>
     contains_str (es_name sec) (py_lit ''.data'') \<or> es_name sec \<in> set included \<or>
     contains_str (es_name sec) (py_lit ''.ind'') \<or> es_name sec \<in> set not_common"

fun extract_all :: "(elf_section \<Rightarrow> bool) \<Rightarrow> elf_section list \<Rightarrow> bytes \<Rightarrow> nat \<Rightarrow> (nat \<times> bytes) option" where
  "extract_all P [] b nb_sections = Some (nb_sections, b)"
| "extract_all P (s # ss) b nb_sections =
     (if P s then do {
        (written, b) \<leftarrow> extract_section s b;
        extract_all P ss b (if written then nb_sections + 1 else nb_sections) }
      else extract_all P ss b nb_sections)"

text \<open>
  The file \<^verbatim>\<open>process_file_aslr\<close> writes for the sections of an ELF file, given the names on the command line
  and the list \<^verbatim>\<open>not_common\<close> of the JSON file; \<open>Some None\<close>: no section to write, the script skips the file.
\<close>

definition process_file_aslr :: "py_str list \<Rightarrow> py_str list \<Rightarrow> elf_section list \<Rightarrow> bytes option option" where
  "process_file_aslr included not_common sections = do {
     (nb_sections, b) \<leftarrow> extract_all (aslr_selected included not_common) sections [] 0;
     if nb_sections = 0 then Some None
     else do {
       hd \<leftarrow> py_to_bytes_le nb_sections 1;
       Some (Some (hd @ b))
     }
   }"

section \<open>Lemmas\<close>

lemma unat_u8_less: "unat (b :: u8) < 256"
  using unsigned_less [of b] by simp

lemma add_c_push_byte:
  fixes s :: "'a::len word" and b :: u8
  assumes "unat s < 2 ^ n" "n + 8 \<le> LENGTH('a)"
  shows "\<exists>t. add_c s (push_bit n (ucast b)) = Some t \<and> unat t = unat s + unat b * 2 ^ n \<and>
           unat t < 2 ^ (n + 8)"
proof -
  have b: "unat b + 1 \<le> 256" using unat_u8_less [of b] by simp
  have "unat s + unat b * 2 ^ n < (unat b + 1) * 2 ^ n" using assms(1) by simp
  also have "\<dots> \<le> 256 * 2 ^ n" using b by (rule mult_le_mono1)
  also have "256 * 2 ^ n = (2::nat) ^ (n + 8)" by (simp add: power_add)
  finally have lt: "unat s + unat b * 2 ^ n < 2 ^ (n + 8)" .
  also have "(2::nat) ^ (n + 8) \<le> 2 ^ LENGTH('a)" using assms(2) by (rule power_increasing) simp
  finally have "add_c s (push_bit n (ucast b)) = Some (s + push_bit n (ucast b))"
    using assms(2) by (simp add: add_c_def unat_push_bit_byte)
  with lt assms(2) show ?thesis
    by (auto dest: unat_add_c simp: unat_push_bit_byte)
qed

lemma unat_ucast_byte:
  fixes b :: u8
  assumes "8 \<le> LENGTH('a)"
  shows "unat (push_bit 0 (ucast b) :: 'a::len word) = unat b"
  using unat_push_bit_byte [of 0 b, where 'a = 'a] assms by simp

lemma as_u16_le_eq: "as_u16_le [a, b] = Some (of_nat (le_nat [a, b]))"
proof -
  have 0: "unat (push_bit 0 (ucast a) :: u16) = unat a" by (rule unat_ucast_byte) simp
  then have "unat (push_bit 0 (ucast a) :: u16) < 2 ^ 8" using unat_u8_less [of a] by simp
  then obtain t where t: "add_c (push_bit 0 (ucast a)) (push_bit 8 (ucast b)) = Some (t :: u16)"
      and "unat t = unat (push_bit 0 (ucast a) :: u16) + unat b * 2 ^ 8"
    using add_c_push_byte [of "push_bit 0 (ucast a) :: u16" 8 b] by auto
  with 0 have "unat t = le_nat [a, b]" by simp
  then have "t = of_nat (le_nat [a, b])" by (rule eq_of_nat_unat)
  with t show ?thesis by (simp add: as_u16_le_def idx_def)
qed

lemma as_u64_le_eq:
  "as_u64_le [a, b, c, d, e, f, g, h] = Some (of_nat (le_nat [a, b, c, d, e, f, g, h]))"
proof -
  have u0: "unat (push_bit 0 (ucast a) :: u64) = unat a" by (rule unat_ucast_byte) simp
  then have "unat (push_bit 0 (ucast a) :: u64) < 2 ^ 8" using unat_u8_less [of a] by simp
  then obtain t1 :: u64 where 1: "add_c (push_bit 0 (ucast a)) (push_bit 8 (ucast b)) = Some t1"
      and u1: "unat t1 = unat (push_bit 0 (ucast a) :: u64) + unat b * 2 ^ 8" and "unat t1 < 2 ^ 16"
    using add_c_push_byte [of "push_bit 0 (ucast a) :: u64" 8 b] by auto
  then obtain t2 where 2: "add_c t1 (push_bit 16 (ucast c)) = Some t2"
      and u2: "unat t2 = unat t1 + unat c * 2 ^ 16" and "unat t2 < 2 ^ 24"
    using add_c_push_byte [of t1 16 c] by auto
  then obtain t3 where 3: "add_c t2 (push_bit 24 (ucast d)) = Some t3"
      and u3: "unat t3 = unat t2 + unat d * 2 ^ 24" and "unat t3 < 2 ^ 32"
    using add_c_push_byte [of t2 24 d] by auto
  then obtain t4 where 4: "add_c t3 (push_bit 32 (ucast e)) = Some t4"
      and u4: "unat t4 = unat t3 + unat e * 2 ^ 32" and "unat t4 < 2 ^ 40"
    using add_c_push_byte [of t3 32 e] by auto
  then obtain t5 where 5: "add_c t4 (push_bit 40 (ucast f)) = Some t5"
      and u5: "unat t5 = unat t4 + unat f * 2 ^ 40" and "unat t5 < 2 ^ 48"
    using add_c_push_byte [of t4 40 f] by auto
  then obtain t6 where 6: "add_c t5 (push_bit 48 (ucast g)) = Some t6"
      and u6: "unat t6 = unat t5 + unat g * 2 ^ 48" and "unat t6 < 2 ^ 56"
    using add_c_push_byte [of t5 48 g] by auto
  then obtain t7 where 7: "add_c t6 (push_bit 56 (ucast h)) = Some t7"
      and u7: "unat t7 = unat t6 + unat h * 2 ^ 56"
    using add_c_push_byte [of t6 56 h] by auto
  have "unat t7 = le_nat [a, b, c, d, e, f, g, h]"
    unfolding u0 u1 u2 u3 u4 u5 u6 u7 by simp
  then have "t7 = of_nat (le_nat [a, b, c, d, e, f, g, h])" by (rule eq_of_nat_unat)
  with 1 2 3 4 5 6 7 show ?thesis by (simp add: as_u64_le_def idx_def)
qed

lemma as_u16_le_bytes: "length bs = 2 \<Longrightarrow> as_u16_le bs = Some (of_nat (le_nat bs))"
  unfolding length_2_conv by (elim exE) (simp only: as_u16_le_eq)

lemma as_u64_le_bytes: "length bs = 8 \<Longrightarrow> as_u64_le bs = Some (of_nat (le_nat bs))"
  unfolding length_8_conv by (elim exE) (simp only: as_u64_le_eq)

text \<open>What one entry looks like in the file, and the section the reader makes of it.\<close>

definition name_bytes :: "elf_section \<Rightarrow> bytes" where
  "name_bytes s = map of_nat (es_name s)"

definition encode_entry :: "elf_section \<Rightarrow> bytes" where
  "encode_entry s = le_bytes 2 (length (es_name s)) @ name_bytes s @ le_bytes 8 (sh_size s) @
     le_bytes 8 (sh_addr s) @ es_data s"

definition section_of :: "elf_section \<Rightarrow> Sections" where
  "section_of s = \<lparr>sec_name = name_bytes s, sec_vma = of_nat (sh_addr s),
     sec_size = of_nat (sh_size s), sec_bytes = Some (es_data s)\<rparr>"

text \<open>
  What is asked of a section: its name is ASCII, and its data has \<open>sh_size\<close> bytes (which the ELF library of
  the writer guarantees). The other conditions hold of every section that is written without an exception.
\<close>

definition elf_section_ok :: "elf_section \<Rightarrow> bool" where
  "elf_section_ok s \<longleftrightarrow> (\<forall>c \<in> set (es_name s). c < 0x80) \<and> sh_size s = length (es_data s)"

definition elf_section_fits :: "elf_section \<Rightarrow> bool" where
  "elf_section_fits s \<longleftrightarrow> length (es_name s) < 2 ^ 16 \<and> sh_size s < 2 ^ 64 \<and> sh_addr s < 2 ^ 64"

lemma length_encode_entry [simp]:
  "length (encode_entry s) = 18 + length (es_name s) + length (es_data s)"
  by (simp add: encode_entry_def name_bytes_def)

lemma length_name_bytes [simp]: "length (name_bytes s) = length (es_name s)"
  by (simp add: name_bytes_def)

lemma utf8_ascii_Cons: "a < 0x80 \<Longrightarrow> utf8_valid (a # bs) = utf8_valid bs"
  by (cases "(a # bs)" rule: utf8_valid.cases) auto

lemma ascii_encode:
  "\<forall>c \<in> set cs. c < 0x80 \<Longrightarrow> py_str_encode cs = Some (map of_nat cs) \<and> utf8_valid (map of_nat cs)"
proof (induction cs)
  case (Cons c cs)
  then have "(of_nat c :: u8) < 0x80" by (simp add: word_less_nat_alt)
  then show ?case using Cons by (simp add: utf8_char_def utf8_ascii_Cons)
qed simp

text \<open>Advancing over a known chunk of the buffer, as every field of an entry is read.\<close>

lemma read_chunk:
  assumes B: "B = pre @ xs @ post" and len: "length B < 2 ^ 64"
    and k: "unat k = length xs" and n: "n = length pre"
  shows "do { nx \<leftarrow> add_c (of_nat n) k; s \<leftarrow> subslice B (unat (of_nat n :: u64)) (unat nx); f nx s } =
    f (of_nat (n + length xs) :: u64) xs"
proof -
  have lt: "length pre < 2 ^ 64" "length pre + length xs < 2 ^ 64" using len by (simp_all add: B)
  have "unat (of_nat (length pre) :: u64) = length pre"
    by (rule unat_of_nat_small) (use lt in simp)
  moreover have "unat (of_nat (length pre + length xs) :: u64) = length pre + length xs"
    by (rule unat_of_nat_small) (use lt in simp)
  moreover have "add_c (of_nat (length pre)) k = Some (of_nat (length pre + length xs) :: u64)"
  proof -
    have "k = of_nat (length xs)" using k by (rule eq_of_nat_unat)
    then show ?thesis
      using add_c_of_nat [of "length pre" "length xs", where 'a = 64] lt(2) by simp
  qed
  ultimately show ?thesis
    by (simp add: n B subslice_append_mid)
qed

lemma read_entry_encode:
  assumes ok: "elf_section_ok s" and fit: "elf_section_fits s" and len: "length (pre @ encode_entry s @ post) < 2 ^ 64"
  shows "read_entry (pre @ encode_entry s @ post) (of_nat (length pre)) =
    Some (section_of s, of_nat (length pre + length (encode_entry s)))"
proof -
  define l sz ad where "l = le_bytes 2 (length (name_bytes s))" and "sz = le_bytes 8 (sh_size s)"
    and "ad = le_bytes 8 (sh_addr s)"
  define B where "B = pre @ encode_entry s @ post"
  have [simp]: "length l = 2" "length sz = 8" "length ad = 8" by (simp_all add: l_def sz_def ad_def)
  have B1: "B = pre @ l @ (name_bytes s @ sz @ ad @ es_data s @ post)"
    and B2: "B = (pre @ l) @ name_bytes s @ (sz @ ad @ es_data s @ post)"
    and B3: "B = (pre @ l @ name_bytes s) @ sz @ (ad @ es_data s @ post)"
    and B4: "B = (pre @ l @ name_bytes s @ sz) @ ad @ (es_data s @ post)"
    and B5: "B = (pre @ l @ name_bytes s @ sz @ ad) @ es_data s @ post"
    by (simp_all add: B_def encode_entry_def l_def sz_def ad_def)
  have lenB: "length B < 2 ^ 64" using len by (simp add: B_def)
  have dec: "as_u16_le l = Some (of_nat (length (name_bytes s)))"
    "as_u64_le sz = Some (of_nat (length (es_data s)))" "as_u64_le ad = Some (of_nat (sh_addr s))"
    using ok fit by (simp_all add: as_u16_le_bytes as_u64_le_bytes l_def sz_def ad_def le_nat_le_bytes
        elf_section_ok_def elf_section_fits_def)
  have un: "unat (ucast (of_nat (length (name_bytes s)) :: u16) :: u64) = length (name_bytes s)"
    and ud: "unat (of_nat (length (es_data s)) :: u64) = length (es_data s)"
    using ok fit by (simp_all add: elf_section_ok_def elf_section_fits_def unsigned_ucast_eq take_bit_nat_eq_self)
  have c2: "unat (2::u64) = length l" "unat (8::u64) = length sz" "unat (8::u64) = length ad"
    by simp_all
  have e: "length pre + length l = length (pre @ l)"
    "length pre + length l + length (name_bytes s) = length (pre @ l @ name_bytes s)"
    "length pre + length l + length (name_bytes s) + length sz = length (pre @ l @ name_bytes s @ sz)"
    "length pre + length l + length (name_bytes s) + length sz + length ad =
       length (pre @ l @ name_bytes s @ sz @ ad)"
    by (simp_all del: append_assoc)
  note c = read_chunk [OF B1 lenB c2(1) refl] read_chunk [OF B2 lenB un e(1)]
    read_chunk [OF B3 lenB c2(2) e(2)] read_chunk [OF B4 lenB c2(3) e(3)]
    read_chunk [OF B5 lenB ud e(4)]
  have nm: "from_utf8 (name_bytes s) = Some (name_bytes s)"
    using ok ascii_encode [of "es_name s"] by (simp add: from_utf8_def elf_section_ok_def name_bytes_def)
  have "read_entry B (of_nat (length pre)) = Some (section_of s,
      of_nat (length pre + length l + length (name_bytes s) + length sz + length ad + length (es_data s)))"
    using ok unfolding read_entry_def Let_def
    by (simp only: c dec nm Option.bind_lunit section_of_def elf_section_ok_def)
  then show ?thesis by (simp add: B_def algebra_simps)
qed

definition written :: "elf_section \<Rightarrow> bool" where
  "written s \<longleftrightarrow> \<not> list_all (\<lambda>v. v = 0) (es_data s)"

lemma extract_section_ok:
  assumes "written s \<Longrightarrow> elf_section_ok s" "extract_section s b = Some (w, b')"
  shows "w = written s \<and> b' = (if written s then b @ encode_entry s else b) \<and> (written s \<longrightarrow> elf_section_fits s)"
  using assms ascii_encode [of "es_name s"]
  by (auto simp: extract_section_def written_def elf_section_ok_def elf_section_fits_def py_to_bytes_le_def
      encode_entry_def name_bytes_def elim!: bindE split: if_split_asm)

lemma extract_all_ok:
  assumes "\<forall>s \<in> set ss. P s \<and> written s \<longrightarrow> elf_section_ok s" "extract_all P ss b n = Some (n', b')"
  shows "n' = n + length (filter written (filter P ss)) \<and>
    b' = b @ concat (map encode_entry (filter written (filter P ss))) \<and>
    (\<forall>s \<in> set (filter written (filter P ss)). elf_section_ok s \<and> elf_section_fits s)"
  using assms
proof (induction ss arbitrary: b n)
  case (Cons s ss)
  show ?case
  proof (cases "P s")
    case True
    then obtain w b1 where e: "extract_section s b = Some (w, b1)"
        and r: "extract_all P ss b1 (if w then n + 1 else n) = Some (n', b')"
      using Cons.prems(2) by (auto elim!: bindE split: prod.split_asm)
    have "written s \<Longrightarrow> elf_section_ok s" using Cons.prems(1) True by simp
    note x = extract_section_ok [OF this e]
    show ?thesis using Cons.IH [OF _ r] Cons.prems(1) True x by auto
  next
    case False
    then show ?thesis using Cons by simp
  qed
qed simp

lemma read_entries_encode:
  assumes "\<forall>s \<in> set ss. elf_section_ok s \<and> elf_section_fits s"
    and "length (pre @ concat (map encode_entry ss) @ post) < 2 ^ 64"
  shows "read_entries (length ss) (pre @ concat (map encode_entry ss) @ post) (of_nat (length pre)) secs =
    Some (secs @ map section_of ss)"
  using assms
proof (induction ss arbitrary: pre secs)
  case Nil
  then show ?case by simp
next
  case (Cons s ss)
  let ?rest = "concat (map encode_entry ss) @ post"
  have "read_entry (pre @ encode_entry s @ ?rest) (of_nat (length pre)) =
      Some (section_of s, of_nat (length (pre @ encode_entry s)))"
    using read_entry_encode [of s pre ?rest] Cons.prems by simp
  moreover have "read_entries (length ss) ((pre @ encode_entry s) @ ?rest)
      (of_nat (length (pre @ encode_entry s))) (secs @ [section_of s]) =
      Some ((secs @ [section_of s]) @ map section_of ss)"
    using Cons.IH [of "pre @ encode_entry s" "secs @ [section_of s]"] Cons.prems
    by (simp del: length_append of_nat_add)
  ultimately show ?case by (simp del: length_append of_nat_add)
qed

text \<open>
  Every section that the reader produces carries exactly as many bytes as its size field says,
  so the copy loop of the loader never reads past the vector it copies from.
\<close>

definition section_wf :: "Sections \<Rightarrow> bool" where
  "section_wf s \<longleftrightarrow> utf8_valid (sec_name s) \<and>
     (case sec_bytes s of None \<Rightarrow> False | Some bs \<Rightarrow> length bs = unat (sec_size s))"

lemma read_entry_wf:
  "read_entry buff c = Some (s, c') \<Longrightarrow> section_wf s \<and> unat c + 18 \<le> unat c' \<and> unat c' \<le> length buff"
  by (auto simp: read_entry_def Let_def section_wf_def from_utf8_def bind_eq_Some_conv
      dest!: unat_add_c subslice_Some_length split: if_splits)

lemma read_entries_wf:
  "read_entries n buff c secs = Some secs' \<Longrightarrow> list_all section_wf secs \<Longrightarrow>
   list_all section_wf secs' \<and> length secs' = length secs + n"
proof (induction n arbitrary: c secs)
  case 0
  then show ?case by simp
next
  case (Suc n)
  then obtain s c' where "read_entry buff c = Some (s, c')"
      and r: "read_entries n buff c' (secs @ [s]) = Some secs'"
    by (auto simp: bind_eq_Some_conv)
  then have "section_wf s" using read_entry_wf by blast
  with Suc.IH [OF r] Suc.prems show ?case by simp
qed

section \<open>Properties\<close>

text \<open>
  C1. Reading back with \<^verbatim>\<open>BinaryLoader::read_uk_file\<close> a file that
  \<^verbatim>\<open>elf_minimizer.process_file_aslr\<close> wrote does not panic and gives exactly the sections that the name filter
  selects and that are not all zeros, in order, with the name, address, size and bytes of each, provided their
  names are ASCII. (The writer stores the number of characters of a name and the reader
  takes it for a number of bytes, so the two disagree on other names: lemma \<open>non_ascii_name_misread\<close>.) The
  file is read in one call and is shorter than \<open>2 ^ 64\<close> bytes.
\<close>

theorem uk_file_roundtrip:
  assumes ok: "\<forall>s \<in> set sections. aslr_selected included not_common s \<and> written s \<longrightarrow> elf_section_ok s"
    and wr: "process_file_aslr included not_common sections = Some (Some file)"
    and len: "length file < 2 ^ 64"
    and opn: "file_open io f = Some file"
    and rd: "file_read io f (length file) = Some (length file)"
    and ex: "file_exists io f"
  shows "read_uk_file io BinaryLoader_new f = Some \<lparr>bin_sections =
      map section_of (filter written (filter (aslr_selected included not_common) sections)), bin_buff = file\<rparr>"
proof -
  let ?ss = "filter written (filter (aslr_selected included not_common) sections)"
  let ?n = "length ?ss"
  obtain nb b where e: "extract_all (aslr_selected included not_common) sections [] 0 = Some (nb, b)"
    using wr by (auto simp: process_file_aslr_def elim!: bindE)
  note x = extract_all_ok [OF ok e]
  have fc: "file = le_bytes 1 ?n @ concat (map encode_entry ?ss)" and n: "?n < 256"
    using wr x by (auto simp: process_file_aslr_def e py_to_bytes_le_def split: if_splits)
  have "read_entries ?n file (of_nat (length (le_bytes 1 ?n))) [] = Some ([] @ map section_of ?ss)"
    using read_entries_encode [of ?ss "le_bytes 1 ?n" "[]" "[]"] x len fc by simp
  moreover have "idx file 0 = Some (of_nat ?n)" using n by (simp add: fc)
  moreover have "unat (of_nat ?n :: u8) = ?n" using n by simp
  moreover have "get_file_as_byte_vec io f = Some file"
    by (simp add: get_file_as_byte_vec_def opn rd)
  ultimately show ?thesis
    by (simp add: read_uk_file_def ex BinaryLoader_new_def)
qed

text \<open>Two selected sections, one of them all zeros, and one that the filter leaves out.\<close>

definition ex_sections :: "elf_section list" where
  "ex_sections =
     [\<lparr>es_name = py_lit ''.data'', sh_size = 2, sh_addr = 0x1000, es_data = [7, 9]\<rparr>,
      \<lparr>es_name = py_lit ''.bss'', sh_size = 1, sh_addr = 0x2000, es_data = [0]\<rparr>,
      \<lparr>es_name = py_lit ''.text'', sh_size = 1, sh_addr = 0x3000, es_data = [1]\<rparr>]"

definition ex_selected :: "elf_section list" where
  "ex_selected = [\<lparr>es_name = py_lit ''.data'', sh_size = 2, sh_addr = 0x1000, es_data = [7, 9]\<rparr>]"

definition ex_file :: bytes where
  "ex_file = [1, 5, 0, 0x2E, 0x64, 0x61, 0x74, 0x61, 2, 0, 0, 0, 0, 0, 0, 0, 0, 0x10, 0, 0, 0, 0, 0, 0, 7, 9]"

definition ex_io :: "bytes \<Rightarrow> file_io" where
  "ex_io file = \<lparr>file_exists = (\<lambda>_. True), file_open = (\<lambda>_. Some file), file_read = (\<lambda>_ n. Some n)\<rparr>"

lemma ex_filter:
  "filter written (filter (aslr_selected [py_lit ''.bss''] []) ex_sections) = ex_selected"
  by (simp add: ex_sections_def ex_selected_def aslr_selected_def py_lit_def written_def)

theorem uk_file_roundtrip_witness:
  "process_file_aslr [py_lit ''.bss''] [] ex_sections = Some (Some ex_file) \<and>
   read_uk_file (ex_io ex_file) BinaryLoader_new ''uk_update'' =
     Some \<lparr>bin_sections = map section_of ex_selected, bin_buff = ex_file\<rparr>"
proof -
  have ok: "\<forall>s \<in> set ex_sections. aslr_selected [py_lit ''.bss''] [] s \<and> written s \<longrightarrow> elf_section_ok s"
    by (simp add: ex_sections_def elf_section_ok_def py_lit_def)
  have wr: "process_file_aslr [py_lit ''.bss''] [] ex_sections = Some (Some ex_file)"
    by (simp add: ex_sections_def ex_file_def process_file_aslr_def aslr_selected_def extract_section_def py_lit_def
        py_to_bytes_le_def utf8_char_def le_bytes_numeral)
  have "length ex_file < 2 ^ 64" by (simp add: ex_file_def)
  from uk_file_roundtrip [OF ok wr this, of "ex_io ex_file" "''uk_update''"] wr
  show ?thesis unfolding ex_filter by (simp add: ex_io_def)
qed

text \<open>
  A section whose name is one letter outside ASCII: two bytes of name, of which the reader takes one, and
  panics because it is not valid UTF-8.
\<close>

lemma non_ascii_name_misread:
  "\<exists>file. process_file_aslr [[0xE9]] [] [\<lparr>es_name = [0xE9], sh_size = 1, sh_addr = 0x1000, es_data = [7]\<rparr>] =
      Some (Some file) \<and> read_uk_file (ex_io file) BinaryLoader_new ''uk_update'' = None"
  by (simp add: process_file_aslr_def aslr_selected_def extract_section_def py_to_bytes_le_def utf8_char_def
      le_bytes_numeral read_uk_file_def ex_io_def get_file_as_byte_vec_def read_entry_def as_u16_le_def from_utf8_def
      BinaryLoader_new_def rust_defs)

text \<open>
  C2. Whatever the contents of the file and however short the read: if \<^verbatim>\<open>read_uk_file\<close> returns,
  every section of the loader has a name that is valid UTF-8 and a byte vector of exactly
  \<open>size\<close> elements, provided this held of the sections the loader had before.
\<close>

theorem read_uk_file_wf:
  assumes "list_all section_wf (bin_sections self)" and "read_uk_file io self f = Some b"
  shows "list_all section_wf (bin_sections b)"
  using assms read_entries_wf
  by (auto simp: read_uk_file_def bind_eq_Some_conv split: if_splits)

theorem read_uk_file_wf_witness:
  "list_all section_wf (bin_sections \<lparr>bin_sections = map section_of ex_selected, bin_buff = ex_file\<rparr>)"
proof (rule read_uk_file_wf)
  show "list_all section_wf (bin_sections BinaryLoader_new)" by (simp add: BinaryLoader_new_def)
  show "read_uk_file (ex_io ex_file) BinaryLoader_new ''uk_update'' =
     Some \<lparr>bin_sections = map section_of ex_selected, bin_buff = ex_file\<rparr>"
    by (simp add: ex_io_def ex_file_def ex_selected_def read_uk_file_def get_file_as_byte_vec_def
        read_entry_def as_u16_le_def as_u64_le_def from_utf8_def BinaryLoader_new_def
        section_of_def name_bytes_def py_lit_def rust_defs)
qed

end
