(* ===== verification/Host_Memory.thy ===== *)
theory Host_Memory
  imports Prelude
begin

text \<open>
  The interface between the loader and the host kernel: \<^verbatim>\<open>mmap\<close>, \<^verbatim>\<open>shm_open\<close>,
  \<^verbatim>\<open>open\<close>/\<^verbatim>\<open>fstat\<close> and \<^verbatim>\<open>memcpy\<close> into mapped memory. The kernel is not part of the
  repository, so its calls are the fields of a record that every definition of the loader takes
  as an argument. The locale \<open>host_os\<close> states what the code relies on, as the manual pages
  document it; its laws speak of the address space through three observers (which mapping
  covers an address, what object a descriptor refers to, the byte stored at an address). The
  reference host at the end, a page map with a bump allocator, satisfies them.
\<close>

section \<open>Mappings\<close>

datatype mem_object = Shm bytes | RegFile string

record mapping =
  map_prot :: u32
  map_flags :: u32
  map_obj :: "mem_object option"
  map_off :: nat

definition PROT_NONE :: u32 where "PROT_NONE = 0"
definition PROT_READ :: u32 where "PROT_READ = 1"
definition PROT_WRITE :: u32 where "PROT_WRITE = 2"
definition PROT_EXEC :: u32 where "PROT_EXEC = 4"
definition MAP_PRIVATE :: u32 where "MAP_PRIVATE = 0x02"
definition MAP_FIXED :: u32 where "MAP_FIXED = 0x10"
definition MAP_ANONYMOUS :: u32 where "MAP_ANONYMOUS = 0x20"
definition MAP_NORESERVE :: u32 where "MAP_NORESERVE = 0x4000"

lemmas map_consts = PROT_NONE_def PROT_READ_def PROT_WRITE_def PROT_EXEC_def MAP_PRIVATE_def
  MAP_FIXED_def MAP_ANONYMOUS_def MAP_NORESERVE_def

text \<open>The bytes that a mapping of \<open>n\<close> bytes occupies: whole pages of 4 KiB.\<close>

definition pages :: "nat \<Rightarrow> nat" where
  "pages n = (n + 4095) div 4096 * 4096"

definition in_range :: "nat \<Rightarrow> nat \<Rightarrow> nat \<Rightarrow> bool" where
  "in_range a n x \<longleftrightarrow> a \<le> x \<and> x < a + n"

lemma pages_ge: "n \<le> pages n"
proof -
  have "n + 4095 = pages n + (n + 4095) mod 4096"
    by (simp add: pages_def)
  moreover have "(n + 4095) mod 4096 < 4096" by simp
  ultimately show ?thesis by linarith
qed

lemma pages_aligned: "n mod 4096 = 0 \<Longrightarrow> pages n = n"
  unfolding pages_def by (auto simp: mod_eq_0_iff_dvd elim!: dvdE)

lemma pages_guard: "pages (n + 8192) = pages n + 8192"
proof -
  have "(n + 8192 + 4095) div 4096 = (n + 4095 + 2 * 4096) div 4096" by simp
  also have "\<dots> = 2 + (n + 4095) div 4096" by (rule div_mult_self1) simp
  finally show ?thesis by (simp add: pages_def)
qed

lemma pages_mono: "m \<le> n \<Longrightarrow> pages m \<le> pages n"
  by (auto simp: pages_def intro!: mult_le_mono1 div_le_mono)

section \<open>The calls\<close>

record 'h host =
  page_size :: usize
  os_mmap :: "'h \<Rightarrow> usize \<Rightarrow> usize \<Rightarrow> u32 \<Rightarrow> u32 \<Rightarrow> nat option \<Rightarrow> u64 \<Rightarrow> ('h \<times> usize) option"
  os_shm_open :: "'h \<Rightarrow> bytes \<Rightarrow> ('h \<times> nat) option"
  os_open :: "'h \<Rightarrow> string \<Rightarrow> ('h \<times> nat \<times> usize) option"
  os_memcpy :: "'h \<Rightarrow> usize \<Rightarrow> bytes \<Rightarrow> 'h option"

locale host_os =
  fixes H :: "'h host"
    and view :: "'h \<Rightarrow> nat \<Rightarrow> mapping option"
    and fd_object :: "'h \<Rightarrow> nat \<Rightarrow> mem_object option"
    and byte_at :: "'h \<Rightarrow> nat \<Rightarrow> u8"
    and ok :: "'h \<Rightarrow> bool"
  assumes page_4k: "page_size H = 4096"
    and mmap_maps: "ok h \<Longrightarrow> os_mmap H h a l p f fd off = Some (h', r) \<Longrightarrow>
      ok h' \<and> fd_object h' = fd_object h \<and> unat r mod 4096 = 0 \<and>
      unat r + pages (unat l) \<le> 2 ^ 64 \<and>
      view h' = (\<lambda>x. if in_range (unat r) (pages (unat l)) x
        then Some \<lparr>map_prot = p, map_flags = f, map_obj = Option.bind fd (fd_object h),
                   map_off = unat off + (x - unat r)\<rparr>
        else view h x)"
    and mmap_fixed: "ok h \<Longrightarrow> os_mmap H h a l p f fd off = Some (h', r) \<Longrightarrow>
      f AND MAP_FIXED \<noteq> 0 \<Longrightarrow> r = a"
    and mmap_fresh: "ok h \<Longrightarrow> os_mmap H h a l p f fd off = Some (h', r) \<Longrightarrow>
      f AND MAP_FIXED = 0 \<Longrightarrow> in_range (unat r) (pages (unat l)) x \<Longrightarrow> view h x = None"
    and shm_open_opens: "ok h \<Longrightarrow> os_shm_open H h n = Some (h', d) \<Longrightarrow>
      ok h' \<and> view h' = view h \<and> fd_object h' = (fd_object h)(d \<mapsto> Shm n)"
    and open_opens: "ok h \<Longrightarrow> os_open H h path = Some (h', d, len) \<Longrightarrow>
      ok h' \<and> view h' = view h \<and> fd_object h' = (fd_object h)(d \<mapsto> RegFile path)"
    and memcpy_copies: "ok h \<Longrightarrow> os_memcpy H h a bs = Some h' \<Longrightarrow>
      ok h' \<and> view h' = view h \<and> fd_object h' = fd_object h \<and>
      byte_at h' = (\<lambda>x. if in_range (unat a) (length bs) x then bs ! (x - unat a) else byte_at h x)"

section \<open>A reference host\<close>

record ref_state =
  rs_view :: "nat \<Rightarrow> mapping option"
  rs_fds :: "mem_object list"
  rs_bytes :: "nat \<Rightarrow> u8"
  rs_brk :: nat

definition ref_init :: ref_state where
  "ref_init = \<lparr>rs_view = (\<lambda>_. None), rs_fds = [], rs_bytes = (\<lambda>_. 0), rs_brk = 0x10000\<rparr>"

definition ref_fd :: "ref_state \<Rightarrow> nat \<Rightarrow> mem_object option" where
  "ref_fd s fd = (if fd < length (rs_fds s) then Some (rs_fds s ! fd) else None)"

definition ref_mmap ::
  "ref_state \<Rightarrow> usize \<Rightarrow> usize \<Rightarrow> u32 \<Rightarrow> u32 \<Rightarrow> nat option \<Rightarrow> u64 \<Rightarrow> (ref_state \<times> usize) option" where
  "ref_mmap s a l p f fd off =
     (let r = (if f AND MAP_FIXED \<noteq> 0 then unat a else rs_brk s); n = pages (unat l)
      in if l = 0 \<or> r mod 4096 \<noteq> 0 \<or> \<not> r + n < 2 ^ 64 then None
         else Some (s\<lparr>rs_view := (\<lambda>x. if in_range r n x
             then Some \<lparr>map_prot = p, map_flags = f, map_obj = Option.bind fd (ref_fd s),
                        map_off = unat off + (x - r)\<rparr>
             else rs_view s x),
           rs_brk := max (rs_brk s) (r + n)\<rparr>, of_nat r))"

definition ref_shm_open :: "ref_state \<Rightarrow> bytes \<Rightarrow> (ref_state \<times> nat) option" where
  "ref_shm_open s n = Some (s\<lparr>rs_fds := rs_fds s @ [Shm n]\<rparr>, length (rs_fds s))"

text \<open>Every regular file of the reference host is one page long.\<close>

definition ref_open :: "ref_state \<Rightarrow> string \<Rightarrow> (ref_state \<times> nat \<times> usize) option" where
  "ref_open s n = Some (s\<lparr>rs_fds := rs_fds s @ [RegFile n]\<rparr>, length (rs_fds s), 4096)"

definition ref_memcpy :: "ref_state \<Rightarrow> usize \<Rightarrow> bytes \<Rightarrow> ref_state option" where
  "ref_memcpy s a bs = Some (s\<lparr>rs_bytes :=
     (\<lambda>x. if in_range (unat a) (length bs) x then bs ! (x - unat a) else rs_bytes s x)\<rparr>)"

definition ref_host :: "ref_state host" where
  "ref_host = \<lparr>page_size = 4096, os_mmap = ref_mmap, os_shm_open = ref_shm_open,
     os_open = ref_open, os_memcpy = ref_memcpy\<rparr>"

definition ref_ok :: "ref_state \<Rightarrow> bool" where
  "ref_ok s \<longleftrightarrow> (\<forall>x. rs_brk s \<le> x \<longrightarrow> rs_view s x = None)"

lemma ref_init_ok [simp]: "ref_ok ref_init"
  by (simp add: ref_ok_def ref_init_def)

lemma ref_fd_append: "ref_fd (s\<lparr>rs_fds := rs_fds s @ [ob]\<rparr>) = (ref_fd s)(length (rs_fds s) \<mapsto> ob)"
  by (auto simp: ref_fd_def fun_eq_iff nth_append)

lemma ref_mmap_Some:
  assumes "ref_mmap s a l p f fd off = Some (s', r)"
  shows "unat r = (if f AND MAP_FIXED \<noteq> 0 then unat a else rs_brk s)"
    and "unat r mod 4096 = 0" and "unat r + pages (unat l) < 2 ^ 64"
    and "s' = s\<lparr>rs_view := (\<lambda>x. if in_range (unat r) (pages (unat l)) x
             then Some \<lparr>map_prot = p, map_flags = f, map_obj = Option.bind fd (ref_fd s),
                        map_off = unat off + (x - unat r)\<rparr>
             else rs_view s x),
           rs_brk := max (rs_brk s) (unat r + pages (unat l))\<rparr>"
proof -
  let ?r = "if f AND MAP_FIXED \<noteq> 0 then unat a else rs_brk s"
  have c: "?r mod 4096 = 0" "?r + pages (unat l) < 2 ^ 64" and r: "r = of_nat ?r"
    using assms by (auto simp: ref_mmap_def Let_def split: if_splits)
  from c(2) have "?r < 2 ^ LENGTH(64)" by simp
  then have u: "unat r = ?r" unfolding r by (rule unat_of_nat_small)
  show "unat r = ?r" by (rule u)
  show "unat r mod 4096 = 0" "unat r + pages (unat l) < 2 ^ 64" using c u by simp_all
  show "s' = s\<lparr>rs_view := (\<lambda>x. if in_range (unat r) (pages (unat l)) x
             then Some \<lparr>map_prot = p, map_flags = f, map_obj = Option.bind fd (ref_fd s),
                        map_off = unat off + (x - unat r)\<rparr>
             else rs_view s x),
           rs_brk := max (rs_brk s) (unat r + pages (unat l))\<rparr>"
    using assms unfolding u by (auto simp: ref_mmap_def Let_def split: if_splits)
qed

lemma ref_mmap_ok: "ref_ok s \<Longrightarrow> ref_mmap s a l p f fd off = Some (s', r) \<Longrightarrow> ref_ok s'"
  unfolding ref_ok_def by (drule ref_mmap_Some(4)) (auto simp: in_range_def)

interpretation refh: host_os ref_host rs_view ref_fd rs_bytes ref_ok
proof unfold_locales
  fix h a l p f fd off h' r
  assume ok: "ref_ok h" and m: "os_mmap ref_host h a l p f fd off = Some (h', r)"
  then have m: "ref_mmap h a l p f fd off = Some (h', r)" by (simp add: ref_host_def)
  note s = ref_mmap_Some [OF m]
  have fd: "ref_fd h' = ref_fd h" unfolding s(4) by (simp add: fun_eq_iff ref_fd_def)
  show "ref_ok h' \<and> ref_fd h' = ref_fd h \<and> unat r mod 4096 = 0 \<and>
      unat r + pages (unat l) \<le> 2 ^ 64 \<and>
      rs_view h' = (\<lambda>x. if in_range (unat r) (pages (unat l)) x
        then Some \<lparr>map_prot = p, map_flags = f, map_obj = Option.bind fd (ref_fd h),
                   map_off = unat off + (x - unat r)\<rparr>
        else rs_view h x)"
    using ref_mmap_ok [OF ok m] s(2,3) fd by (simp add: s(4))
  show "f AND MAP_FIXED \<noteq> 0 \<Longrightarrow> r = a" using s(1) by (simp add: word_unat_eq_iff)
  fix x
  show "f AND MAP_FIXED = 0 \<Longrightarrow> in_range (unat r) (pages (unat l)) x \<Longrightarrow> rs_view h x = None"
    using ok s(1) by (simp add: ref_ok_def in_range_def)
next
  fix h n h' fd
  assume "ref_ok h" "os_shm_open ref_host h n = Some (h', fd)"
  then show "ref_ok h' \<and> rs_view h' = rs_view h \<and> ref_fd h' = (ref_fd h)(fd \<mapsto> Shm n)"
    using ref_fd_append by (auto simp: ref_host_def ref_shm_open_def ref_ok_def)
next
  fix h n h' fd len
  assume "ref_ok h" "os_open ref_host h n = Some (h', fd, len)"
  then show "ref_ok h' \<and> rs_view h' = rs_view h \<and> ref_fd h' = (ref_fd h)(fd \<mapsto> RegFile n)"
    using ref_fd_append by (auto simp: ref_host_def ref_open_def ref_ok_def)
next
  fix h a bs h'
  assume "ref_ok h" "os_memcpy ref_host h a bs = Some h'"
  then show "ref_ok h' \<and> rs_view h' = rs_view h \<and> ref_fd h' = ref_fd h \<and>
      rs_bytes h' = (\<lambda>x. if in_range (unat a) (length bs) x then bs ! (x - unat a) else rs_bytes h x)"
    by (auto simp: ref_host_def ref_memcpy_def ref_ok_def ref_fd_def fun_eq_iff)
qed (simp add: ref_host_def)

end
