(* ===== verification/Uk_Loader.thy ===== *)
theory Uk_Loader
  imports Uk_Binary Host_Memory
begin

text \<open>
  The load-time deduplication path: \<open>src/firecracker/src/loader/src/uk_loader.rs\<close> (mapping the
  shared sections of a unikernel), \<open>src/firecracker/src/vm-memory/src/lib.rs\<close> (guest memory
  regions with guard pages), \<^verbatim>\<open>arch_memory_regions\<close> of
  \<open>src/firecracker/src/arch/src/x86_64/mod.rs\<close> and the loader set-up of
  \<open>src/firecracker/src/vmm/src/builder.rs\<close>. All of it runs over the host interface of
  \<open>Host_Memory\<close>.
\<close>

section \<open>LoaderInfo\<close>

record LoaderInfo =
  li_bin :: BinaryLoader
  li_sections :: "Sections list"
  li_aslr :: bool

definition LoaderInfo_new :: "BinaryLoader \<Rightarrow> Sections list \<Rightarrow> bool \<Rightarrow> LoaderInfo" where
  "LoaderInfo_new bin sections_loader aslr =
     \<lparr>li_bin = bin, li_sections = sections_loader, li_aslr = aslr\<rparr>"

definition ascii :: "string \<Rightarrow> bytes" where
  "ascii s = map of_char s"

text \<open>A C string ends at its first NUL.\<close>

definition c_str :: "bytes \<Rightarrow> bytes" where
  "c_str bs = takeWhile (\<lambda>b. b \<noteq> 0) bs"

text \<open>
  \<^verbatim>\<open>memcpy\<close> of \<open>size\<close> bytes from a vector that has fewer would read out of bounds: the model
  is stuck (\<^const>\<open>None\<close>) there, as on a panic.
\<close>

fun copy_sections :: "'h host \<Rightarrow> 'h \<Rightarrow> usize \<Rightarrow> Sections list \<Rightarrow> 'h option" where
  "copy_sections H h region_addr [] = Some h"
| "copy_sections H h region_addr (s # ss) = do {
     addr \<leftarrow> add_c region_addr (sec_vma s);
     bs \<leftarrow> sec_bytes s;
     src \<leftarrow> subslice bs 0 (unat (sec_size s));
     h \<leftarrow> os_memcpy H h addr src;
     copy_sections H h region_addr ss
   }"

definition move_all :: "'h host \<Rightarrow> LoaderInfo \<Rightarrow> 'h \<Rightarrow> usize \<Rightarrow> string \<Rightarrow> usize \<Rightarrow> 'h option" where
  "move_all H self h region_addr filename data_start_addr =
     (if li_aslr self then copy_sections H h region_addr (bin_sections (li_bin self))
      else do {
        (h, fd, len) \<leftarrow> os_open H h filename;
        addr \<leftarrow> add_c region_addr data_start_addr;
        (h, shared_addr) \<leftarrow>
          os_mmap H h addr len (PROT_READ OR PROT_WRITE) (MAP_PRIVATE OR MAP_FIXED) (Some fd) 0;
        Some h
      })"

definition shm_mmap :: "'h host \<Rightarrow> 'h \<Rightarrow> usize \<Rightarrow> u32 \<Rightarrow> bytes \<Rightarrow> usize \<Rightarrow> 'h option" where
  "shm_mmap H h region_addr prot name sz = do {
     (h, fd_shm) \<leftarrow> os_shm_open H h (c_str name);
     (h, shared_addr) \<leftarrow>
       os_mmap H h region_addr sz prot (MAP_PRIVATE OR MAP_FIXED) (Some fd_shm) 0;
     Some h
   }"

definition shm_name :: "bool \<Rightarrow> bytes \<Rightarrow> bytes" where
  "shm_name aslr n = (if aslr then ascii ''aslr_'' else []) @ ascii ''lib'' @ n @ [0]"

fun move_secs :: "'h host \<Rightarrow> bool \<Rightarrow> 'h \<Rightarrow> usize \<Rightarrow> u32 \<Rightarrow> Sections list \<Rightarrow> usize \<Rightarrow> ('h \<times> usize) option" where
  "move_secs H aslr h region_addr prot [] data_start_addr = Some (h, data_start_addr)"
| "move_secs H aslr h region_addr prot (s # ss) data_start_addr =
     (if sec_vma s mod 0x1000 \<noteq> 0 then move_secs H aslr h region_addr prot ss data_start_addr
      else if sec_name s = ascii ''.data'' then move_secs H aslr h region_addr prot ss (sec_vma s)
      else do {
        addr \<leftarrow> add_c region_addr (sec_vma s);
        h \<leftarrow> shm_mmap H h addr prot (shm_name aslr (sec_name s)) (sec_size s);
        move_secs H aslr h region_addr prot ss data_start_addr
      })"

definition move_sec_aslr :: "'h host \<Rightarrow> LoaderInfo \<Rightarrow> 'h \<Rightarrow> usize \<Rightarrow> u32 \<Rightarrow> ('h \<times> usize) option" where
  "move_sec_aslr H self h region_addr prot =
     move_secs H (li_aslr self) h region_addr prot (li_sections self) 0"

section \<open>Guarded regions\<close>

text \<open>
  \<^verbatim>\<open>MmapRegionBuilder\<close>, \<^verbatim>\<open>check_file_offset\<close>, \<^verbatim>\<open>GuestRegionMmap::new\<close> and
  \<^verbatim>\<open>GuestMemoryMmap::from_regions\<close> come from the vm-memory crate: they are the fields of
  \<open>vm_memory_crate\<close>, each returning the error it reports, if any.
\<close>

datatype mmap_region_error = MmapFailed | BuilderError nat
datatype guest_memory_error = MmapRegion mmap_region_error | RegionError nat

record file_offset =
  fo_fd :: nat
  fo_start :: u64

record mmap_region =
  mr_size :: usize
  mr_bitmap :: "usize option"
  mr_addr :: usize
  mr_prot :: u32
  mr_flags :: u32

record vm_memory_crate =
  check_file_offset :: "file_offset \<Rightarrow> usize \<Rightarrow> mmap_region_error option"
  builder_build :: "mmap_region \<Rightarrow> mmap_region_error option"
  guest_region_new :: "mmap_region \<Rightarrow> u64 \<Rightarrow> guest_memory_error option"
  from_regions :: "(mmap_region \<times> u64) list \<Rightarrow> guest_memory_error option"

definition GUARD_PAGE_COUNT :: usize where
  "GUARD_PAGE_COUNT = 1"

text \<open>The \<^verbatim>\<open>if let Some(l) = lopt\<close> block.\<close>

definition load_unikernel ::
  "'h host \<Rightarrow> LoaderInfo option \<Rightarrow> 'h \<Rightarrow> usize \<Rightarrow> u32 \<Rightarrow> string \<Rightarrow> 'h option" where
  "load_unikernel H lopt h region_addr prot uk_name =
     (case lopt of None \<Rightarrow> Some h
      | Some l \<Rightarrow> do {
          (h, data_start_addr) \<leftarrow> move_sec_aslr H l h region_addr prot;
          move_all H l h region_addr (uk_name @ ''_update'') data_start_addr
        })"

text \<open>The end of \<^verbatim>\<open>build_guarded_region\<close>, once both mappings are in place.\<close>

definition finish_region ::
  "'h host \<Rightarrow> vm_memory_crate \<Rightarrow> 'h \<Rightarrow> usize \<Rightarrow> usize \<Rightarrow> u32 \<Rightarrow> u32 \<Rightarrow> bool \<Rightarrow> string \<Rightarrow>
   LoaderInfo option \<Rightarrow> ('h \<times> (mmap_region_error + mmap_region)) option" where
  "finish_region H VM h region_addr sz prot flags track_dirty_pages uk_name lopt = do {
     h \<leftarrow> load_unikernel H lopt h region_addr prot uk_name;
     let r = \<lparr>mr_size = sz, mr_bitmap = (if track_dirty_pages then Some sz else None),
              mr_addr = region_addr, mr_prot = prot, mr_flags = flags\<rparr>;
     Some (h, case builder_build VM r of Some e \<Rightarrow> Inl e | None \<Rightarrow> Inr r)
   }"

text \<open>Its middle: from the guard mapping to the mapping of the accessible range.\<close>

definition map_over_guard ::
  "'h host \<Rightarrow> vm_memory_crate \<Rightarrow> 'h \<Rightarrow> usize \<Rightarrow> file_offset option \<Rightarrow> usize \<Rightarrow> u32 \<Rightarrow> u32 \<Rightarrow> bool \<Rightarrow>
   string \<Rightarrow> LoaderInfo option \<Rightarrow> ('h \<times> (mmap_region_error + mmap_region)) option" where
  "map_over_guard H VM h guard_addr maybe_file_offset sz prot flags track_dirty_pages uk_name lopt =
     (case (case maybe_file_offset of Some fo \<Rightarrow> check_file_offset VM fo sz | None \<Rightarrow> None) of
       Some e \<Rightarrow> Some (h, Inl e)
     | None \<Rightarrow> do {
         let (fd, offset) = (case maybe_file_offset of Some fo \<Rightarrow> (Some (fo_fd fo), fo_start fo)
                                                   | None \<Rightarrow> (None, 0));
         g \<leftarrow> mul_c (page_size H) GUARD_PAGE_COUNT;
         region_start_addr \<leftarrow> add_c guard_addr g;
         case os_mmap H h region_start_addr sz prot (flags OR MAP_FIXED) fd offset of
           None \<Rightarrow> Some (h, Inl MmapFailed)
         | Some (h, region_addr) \<Rightarrow>
             finish_region H VM h region_addr sz prot flags track_dirty_pages uk_name lopt
       })"

text \<open>
  The state of the host is returned on the error paths too: a failed second \<^verbatim>\<open>mmap\<close> leaves the
  guard mapping in place.
\<close>

definition build_guarded_region ::
  "'h host \<Rightarrow> vm_memory_crate \<Rightarrow> 'h \<Rightarrow> file_offset option \<Rightarrow> usize \<Rightarrow> u32 \<Rightarrow> u32 \<Rightarrow> bool \<Rightarrow> string \<Rightarrow>
   LoaderInfo option \<Rightarrow> ('h \<times> (mmap_region_error + mmap_region)) option" where
  "build_guarded_region H VM h maybe_file_offset sz prot flags track_dirty_pages uk_name lopt = do {
     let page_sz = page_size H;
     g \<leftarrow> mul_c GUARD_PAGE_COUNT 2;
     g \<leftarrow> mul_c g page_sz;
     guarded_size \<leftarrow> add_c sz g;
     case os_mmap H h 0 guarded_size PROT_NONE (MAP_ANONYMOUS OR MAP_PRIVATE OR MAP_NORESERVE) None 0 of
       None \<Rightarrow> Some (h, Inl MmapFailed)
     | Some (h, guard_addr) \<Rightarrow>
         map_over_guard H VM h guard_addr maybe_file_offset sz prot flags track_dirty_pages uk_name lopt
   }"

section \<open>Guest memory\<close>

type_synonym region_spec = "file_offset option \<times> u64 \<times> usize"

fun create_regions ::
  "'h host \<Rightarrow> vm_memory_crate \<Rightarrow> 'h \<Rightarrow> region_spec list \<Rightarrow> bool \<Rightarrow> string \<Rightarrow> LoaderInfo option \<Rightarrow>
   (mmap_region \<times> u64) list \<Rightarrow> ('h \<times> (guest_memory_error + (mmap_region \<times> u64) list)) option" where
  "create_regions H VM h [] track uk_name lopt acc = Some (h, Inr acc)"
| "create_regions H VM h ((fo, base, sz) # rs) track uk_name lopt acc = do {
     let prot = PROT_READ OR PROT_WRITE;
     let flags = (case fo of None \<Rightarrow> MAP_NORESERVE OR MAP_PRIVATE OR MAP_ANONYMOUS
                  | Some _ \<Rightarrow> MAP_NORESERVE OR MAP_PRIVATE);
     (h, res) \<leftarrow> build_guarded_region H VM h fo sz prot flags track uk_name lopt;
     case res of
       Inl e \<Rightarrow> Some (h, Inl (MmapRegion e))
     | Inr r \<Rightarrow>
         (case guest_region_new VM r base of
            Some e \<Rightarrow> Some (h, Inl e)
          | None \<Rightarrow> create_regions H VM h rs track uk_name lopt (acc @ [(r, base)]))
   }"

definition create_guest_memory ::
  "'h host \<Rightarrow> vm_memory_crate \<Rightarrow> 'h \<Rightarrow> region_spec list \<Rightarrow> bool \<Rightarrow> string \<Rightarrow> LoaderInfo option \<Rightarrow>
   ('h \<times> (guest_memory_error + (mmap_region \<times> u64) list)) option" where
  "create_guest_memory H VM h regions track_dirty_pages uk_name lopt = do {
     (h, res) \<leftarrow> create_regions H VM h regions track_dirty_pages uk_name lopt [];
     case res of
       Inl e \<Rightarrow> Some (h, Inl e)
     | Inr rs \<Rightarrow> Some (h, case from_regions VM rs of Some e \<Rightarrow> Inl e | None \<Rightarrow> Inr rs)
   }"

definition MMIO_MEM_START :: u64 where
  "MMIO_MEM_START = push_bit 32 1 - push_bit 20 768"

definition FIRST_ADDR_PAST_32BITS :: u64 where
  "FIRST_ADDR_PAST_32BITS = push_bit 32 1"

definition arch_memory_regions :: "usize \<Rightarrow> (u64 \<times> usize) list" where
  "arch_memory_regions sz =
     (case sub_c sz MMIO_MEM_START of
        None \<Rightarrow> [(0, sz)]
      | Some remaining \<Rightarrow>
          if remaining = 0 then [(0, sz)]
          else [(0, MMIO_MEM_START), (FIRST_ADDR_PAST_32BITS, remaining)])"

definition vmm_create_guest_memory ::
  "'h host \<Rightarrow> vm_memory_crate \<Rightarrow> 'h \<Rightarrow> usize \<Rightarrow> bool \<Rightarrow> string \<Rightarrow> LoaderInfo option \<Rightarrow>
   ('h \<times> (guest_memory_error + (mmap_region \<times> u64) list)) option" where
  "vmm_create_guest_memory H VM h mem_size_mib track_dirty_pages uk_name l =
     create_guest_memory H VM h
       (map (\<lambda>(addr, sz). (None, addr, sz)) (arch_memory_regions (push_bit 20 mem_size_mib)))
       track_dirty_pages uk_name l"

text \<open>
  The loader part of \<^verbatim>\<open>build_microvm_for_boot\<close>. The \<^verbatim>\<open>.sec\<close> file is decoded by bincode, a
  parameter.
\<close>

definition SectionsLoader_new :: "file_io \<Rightarrow> (bytes \<Rightarrow> Sections list option) \<Rightarrow> string \<Rightarrow> Sections list option" where
  "SectionsLoader_new io bincode_deserialize filename = do {
     buffer \<leftarrow> file_open io filename;
     bincode_deserialize buffer
   }"

definition loader_for_boot ::
  "file_io \<Rightarrow> (bytes \<Rightarrow> Sections list option) \<Rightarrow> string \<Rightarrow> LoaderInfo option" where
  "loader_for_boot io bincode_deserialize kernel_image_path = do {
     (bin, use_aslr) \<leftarrow>
       (if contains_str kernel_image_path ''_aslr''
        then do { b \<leftarrow> read_uk_file io BinaryLoader_new (kernel_image_path @ ''_update''); Some (b, True) }
        else Some (BinaryLoader_new, False));
     secs \<leftarrow> SectionsLoader_new io bincode_deserialize (kernel_image_path @ ''.sec'');
     Some (LoaderInfo_new bin secs use_aslr)
   }"

section \<open>What the loader maps\<close>

definition mapped_section :: "Sections \<Rightarrow> bool" where
  "mapped_section s \<longleftrightarrow> sec_vma s mod 0x1000 = 0 \<and> sec_name s \<noteq> ascii ''.data''"

definition covers :: "Sections \<Rightarrow> nat \<Rightarrow> bool" where
  "covers s off \<longleftrightarrow> in_range (unat (sec_vma s)) (pages (unat (sec_size s))) off"

text \<open>A later mapping or copy replaces an earlier one: the last element that satisfies a predicate.\<close>

fun last_such :: "('a \<Rightarrow> bool) \<Rightarrow> 'a list \<Rightarrow> 'a option" where
  "last_such P [] = None"
| "last_such P (x # xs) = (case last_such P xs of Some y \<Rightarrow> Some y | None \<Rightarrow> if P x then Some x else None)"

definition owner :: "Sections list \<Rightarrow> nat \<Rightarrow> Sections option" where
  "owner ss off = last_such (\<lambda>s. covers s off) (filter mapped_section ss)"

fun data_start :: "Sections list \<Rightarrow> usize \<Rightarrow> usize" where
  "data_start [] d = d"
| "data_start (s # ss) d =
     data_start ss (if sec_vma s mod 0x1000 = 0 \<and> sec_name s = ascii ''.data'' then sec_vma s else d)"

definition shared_mapping :: "u32 \<Rightarrow> bool \<Rightarrow> Sections \<Rightarrow> nat \<Rightarrow> mapping" where
  "shared_mapping prot aslr s off =
     \<lparr>map_prot = prot, map_flags = MAP_PRIVATE OR MAP_FIXED,
      map_obj = Some (Shm (c_str (shm_name aslr (sec_name s)))), map_off = off - unat (sec_vma s)\<rparr>"

text \<open>
  The offsets of a region that the data file of a non-ASLR unikernel covers (\<open>flen\<close> is its
  length), and all the offsets that loading changes.
\<close>

definition data_covers :: "LoaderInfo option \<Rightarrow> usize \<Rightarrow> nat \<Rightarrow> bool" where
  "data_covers lopt flen off \<longleftrightarrow> (case lopt of None \<Rightarrow> False | Some l \<Rightarrow>
     \<not> li_aslr l \<and> in_range (unat (data_start (li_sections l) 0)) (pages (unat flen)) off)"

definition data_mapping :: "LoaderInfo \<Rightarrow> string \<Rightarrow> nat \<Rightarrow> mapping" where
  "data_mapping l uk off = \<lparr>map_prot = PROT_READ OR PROT_WRITE, map_flags = MAP_PRIVATE OR MAP_FIXED,
     map_obj = Some (RegFile (uk @ ''_update'')), map_off = off - unat (data_start (li_sections l) 0)\<rparr>"

text \<open>What loading puts at an offset of the region, if anything.\<close>

definition loaded_view :: "LoaderInfo option \<Rightarrow> string \<Rightarrow> usize \<Rightarrow> u32 \<Rightarrow> nat \<Rightarrow> mapping option" where
  "loaded_view lopt uk flen prot off = (case lopt of None \<Rightarrow> None | Some l \<Rightarrow>
     if data_covers lopt flen off then Some (data_mapping l uk off)
     else map_option (\<lambda>s. shared_mapping prot (li_aslr l) s off) (owner (li_sections l) off))"

text \<open>The section whose copy an offset of an ASLR unikernel holds in the end.\<close>

definition copied_from :: "Sections list \<Rightarrow> nat \<Rightarrow> Sections option" where
  "copied_from ss off = last_such (\<lambda>s. in_range (unat (sec_vma s)) (unat (sec_size s)) off) ss"

definition load_touches :: "LoaderInfo option \<Rightarrow> usize \<Rightarrow> nat \<Rightarrow> bool" where
  "load_touches lopt flen off \<longleftrightarrow> data_covers lopt flen off \<or>
     (\<exists>l s. lopt = Some l \<and> s \<in> set (li_sections l) \<and> mapped_section s \<and> covers s off)"

definition guard_mapping :: "nat \<Rightarrow> mapping" where
  "guard_mapping off = \<lparr>map_prot = PROT_NONE,
     map_flags = MAP_ANONYMOUS OR MAP_PRIVATE OR MAP_NORESERVE, map_obj = None, map_off = off\<rparr>"

lemma private_fixed: "(MAP_PRIVATE OR MAP_FIXED) AND MAP_FIXED \<noteq> 0"
  by (simp add: map_consts)

lemma guard_not_fixed: "(MAP_ANONYMOUS OR MAP_PRIVATE OR MAP_NORESERVE) AND MAP_FIXED = 0"
  by (simp add: map_consts)

lemma or_fixed: "(f OR MAP_FIXED) AND MAP_FIXED \<noteq> 0"
proof -
  have "(f OR MAP_FIXED) AND MAP_FIXED = MAP_FIXED" by (simp add: and.commute or.commute)
  then show ?thesis by (simp add: MAP_FIXED_def)
qed

lemma last_such_None: "last_such P xs = None \<longleftrightarrow> (\<forall>x \<in> set xs. \<not> P x)"
  by (induction xs) (auto split: option.splits)

lemma last_such_Some: "last_such P xs = Some x \<Longrightarrow> x \<in> set xs \<and> P x"
  by (induction xs) (auto split: option.splits if_splits)

lemma load_touches_Some: "load_touches (Some l) flen off \<longleftrightarrow> data_covers (Some l) flen off \<or>
    (\<exists>s \<in> set (li_sections l). mapped_section s \<and> covers s off)"
  by (auto simp: load_touches_def)

lemma loaded_view_None: "loaded_view lopt uk flen prot off = None \<longleftrightarrow> \<not> load_touches lopt flen off"
  by (auto simp: loaded_view_def load_touches_def owner_def last_such_None data_covers_def split: option.splits)

lemma loaded_view_obj: "loaded_view lopt uk flen prot off = Some m \<Longrightarrow> map_obj m \<noteq> None"
  by (auto simp: loaded_view_def data_mapping_def shared_mapping_def split: option.splits if_splits)

lemma finish_region_InrD:
  "finish_region H VM h ra sz prot flags track uk lopt = Some (h', Inr r) \<Longrightarrow>
   load_unikernel H lopt h ra prot uk = Some h' \<and> mr_addr r = ra \<and> mr_size r = sz"
  by (auto simp: finish_region_def Let_def bind_eq_Some_conv split: option.splits)

lemma map_over_guard_InrD:
  assumes "map_over_guard H VM h ga fo sz prot flags track uk lopt = Some (h', Inr r)"
  shows "\<exists>g rs fd off h2 ra. mul_c (page_size H) GUARD_PAGE_COUNT = Some g \<and> add_c ga g = Some rs \<and>
    (fd, off) = (case fo of Some f \<Rightarrow> (Some (fo_fd f), fo_start f) | None \<Rightarrow> (None, 0)) \<and>
    os_mmap H h rs sz prot (flags OR MAP_FIXED) fd off = Some (h2, ra) \<and>
    finish_region H VM h2 ra sz prot flags track uk lopt = Some (h', Inr r)"
  using assms by (cases fo) (auto simp: map_over_guard_def Let_def bind_eq_Some_conv
      split: option.split_asm prod.split_asm)

lemma build_guarded_region_InrD:
  assumes "build_guarded_region H VM h fo sz prot flags track uk lopt = Some (h', Inr r)"
    and "page_size H = 4096"
  shows "\<exists>gs h1 ga. add_c sz 8192 = Some gs \<and>
    os_mmap H h 0 gs PROT_NONE (MAP_ANONYMOUS OR MAP_PRIVATE OR MAP_NORESERVE) None 0 = Some (h1, ga) \<and>
    map_over_guard H VM h1 ga fo sz prot flags track uk lopt = Some (h', Inr r)"
  using assms
  by (auto simp: build_guarded_region_def Let_def GUARD_PAGE_COUNT_def mul_c_def
      bind_eq_Some_conv split: option.split_asm prod.split_asm)

lemma build_guarded_region_InrD':
  "build_guarded_region H VM h fo sz prot flags track uk lopt = Some (h', Inr r) \<Longrightarrow>
   \<exists>h1 ga. map_over_guard H VM h1 ga fo sz prot flags track uk lopt = Some (h', Inr r)"
  by (auto simp: build_guarded_region_def Let_def bind_eq_Some_conv split: option.split_asm prod.split_asm)

context host_os
begin

lemma shm_mmap_maps:
  assumes "ok h" "shm_mmap H h a p n l = Some h'"
  shows "ok h' \<and> view h' = (\<lambda>x. if in_range (unat a) (pages (unat l)) x
    then Some \<lparr>map_prot = p, map_flags = MAP_PRIVATE OR MAP_FIXED,
               map_obj = Some (Shm (c_str n)), map_off = x - unat a\<rparr>
    else view h x)"
proof -
  from assms(2) obtain h1 fd r where o: "os_shm_open H h (c_str n) = Some (h1, fd)"
      and m: "os_mmap H h1 a l p (MAP_PRIVATE OR MAP_FIXED) (Some fd) 0 = Some (h', r)"
    by (auto simp: shm_mmap_def bind_eq_Some_conv)
  note o' = shm_open_opens [OF assms(1) o]
  then have "ok h1" by blast
  note m' = mmap_maps [OF this m] mmap_fixed [OF this m private_fixed]
  from o' m' show ?thesis by (auto simp: fun_eq_iff)
qed

lemma move_secs_maps:
  assumes "ok h" "move_secs H aslr h ra prot ss d = Some (h', d')"
  shows "ok h' \<and> d' = data_start ss d \<and>
    view h' = (\<lambda>x. case (if unat ra \<le> x then owner ss (x - unat ra) else None) of
       Some s \<Rightarrow> Some (shared_mapping prot aslr s (x - unat ra)) | None \<Rightarrow> view h x)"
  using assms
proof (induction ss arbitrary: h d)
  case Nil
  then show ?case by (auto simp: owner_def fun_eq_iff)
next
  case (Cons s ss)
  show ?case
  proof (cases "mapped_section s")
    case False
    with Cons show ?thesis
      by (auto simp: mapped_section_def owner_def split: if_splits)
  next
    case True
    with Cons.prems obtain a h1 where a: "add_c ra (sec_vma s) = Some a"
        and m: "shm_mmap H h a prot (shm_name aslr (sec_name s)) (sec_size s) = Some h1"
        and r: "move_secs H aslr h1 ra prot ss d = Some (h', d')"
      by (auto simp: mapped_section_def bind_eq_Some_conv)
    note m' = shm_mmap_maps [OF Cons.prems(1) m]
    have ua: "unat a = unat ra + unat (sec_vma s)" using a by (rule unat_add_c)
    have v1: "view h1 x = (if unat ra \<le> x \<and> covers s (x - unat ra)
        then Some (shared_mapping prot aslr s (x - unat ra)) else view h x)" for x
      using m' by (auto simp: ua covers_def in_range_def shared_mapping_def)
    have o: "owner (s # ss) off = (case owner ss off of Some t \<Rightarrow> Some t | None \<Rightarrow> if covers s off then Some s else None)"
      for off using True by (simp add: owner_def)
    show ?thesis using Cons.IH [OF _ r] m' True
      by (auto simp: v1 o fun_eq_iff mapped_section_def split: option.split)
  qed
qed

lemma copy_sections_frame:
  "ok h \<Longrightarrow> copy_sections H h ra ss = Some h' \<Longrightarrow> ok h' \<and> view h' = view h"
proof (induction ss arbitrary: h)
  case Nil
  then show ?case by simp
next
  case (Cons s ss)
  then obtain a src h1 where m: "os_memcpy H h a src = Some h1"
      and r: "copy_sections H h1 ra ss = Some h'"
    by (auto simp: bind_eq_Some_conv)
  from memcpy_copies [OF Cons.prems(1) m] have "ok h1" "view h1 = view h" by blast+
  with Cons.IH [OF _ r] show ?case by simp
qed

lemma move_all_maps:
  assumes "ok h" "move_all H l h ra fn d = Some h'"
  shows "ok h' \<and> (if li_aslr l then view h' = view h
    else \<exists>fd len h1. os_open H h fn = Some (h1, fd, len) \<and>
      view h' = (\<lambda>x. if in_range (unat ra + unat d) (pages (unat len)) x
        then Some \<lparr>map_prot = PROT_READ OR PROT_WRITE, map_flags = MAP_PRIVATE OR MAP_FIXED,
                   map_obj = Some (RegFile fn), map_off = x - (unat ra + unat d)\<rparr>
        else view h x))"
proof (cases "li_aslr l")
  case True
  then show ?thesis using assms copy_sections_frame by (auto simp: move_all_def)
next
  case False
  with assms(2) obtain h1 fd len a r where o: "os_open H h fn = Some (h1, fd, len)"
      and a: "add_c ra d = Some a"
      and m: "os_mmap H h1 a len (PROT_READ OR PROT_WRITE) (MAP_PRIVATE OR MAP_FIXED) (Some fd) 0 = Some (h', r)"
    by (auto simp: move_all_def bind_eq_Some_conv)
  note o' = open_opens [OF assms(1) o]
  then have "ok h1" by blast
  note m' = mmap_maps [OF this m] mmap_fixed [OF this m private_fixed]
  have "unat a = unat ra + unat d" using a by (rule unat_add_c)
  then show ?thesis using False o o' m' by auto
qed

lemma load_maps:
  assumes ok: "ok h"
    and fl: "\<forall>h h' fd len. os_open H h (uk @ ''_update'') = Some (h', fd, len) \<longrightarrow> len = flen"
    and ld: "load_unikernel H lopt h ra prot uk = Some h'"
  shows "ok h' \<and> view h' = (\<lambda>x. case (if unat ra \<le> x then loaded_view lopt uk flen prot (x - unat ra) else None) of
    Some m \<Rightarrow> Some m | None \<Rightarrow> view h x)"
proof (cases lopt)
  case None
  with ld ok show ?thesis by (auto simp: load_unikernel_def loaded_view_def fun_eq_iff)
next
  case (Some l)
  with ld obtain h1 d where s: "move_sec_aslr H l h ra prot = Some (h1, d)"
      and a: "move_all H l h1 ra (uk @ ''_update'') d = Some h'"
    by (auto simp: load_unikernel_def bind_eq_Some_conv)
  note s' = move_secs_maps [OF ok s [unfolded move_sec_aslr_def]]
  then have ok1: "ok h1" by blast
  note a' = move_all_maps [OF ok1 a]
  have d: "d = data_start (li_sections l) 0" using s' by blast
  have v: "view h' x = (if unat ra \<le> x \<and> data_covers lopt flen (x - unat ra)
      then Some (data_mapping l uk (x - unat ra)) else view h1 x)" for x
  proof (cases "li_aslr l")
    case True
    with a' show ?thesis by (simp add: data_covers_def Some)
  next
    case False
    with a' fl show ?thesis
      by (auto simp: data_covers_def data_mapping_def Some d in_range_def)
  qed
  have "view h' x = (case (if unat ra \<le> x then loaded_view lopt uk flen prot (x - unat ra) else None) of
      Some m \<Rightarrow> Some m | None \<Rightarrow> view h x)" for x
    using s' by (auto simp: v Some loaded_view_def split: option.split)
  then show ?thesis using a' by auto
qed

lemma build_guarded_region_maps:
  assumes ok: "ok h"
    and fl: "\<forall>h h' fd len. os_open H h (uk @ ''_update'') = Some (h', fd, len) \<longrightarrow> len = flen"
    and b: "build_guarded_region H VM h None sz prot flags track uk lopt = Some (h', Inr r)"
  defines "base \<equiv> unat (mr_addr r)"
  shows "ok h'" and "mr_size r = sz" and "4096 \<le> base" and "base mod 4096 = 0"
    and "view h' x = (case (if base \<le> x then loaded_view lopt uk flen prot (x - base) else None) of
       Some m \<Rightarrow> Some m
     | None \<Rightarrow> if in_range base (pages (unat sz)) x
       then Some \<lparr>map_prot = prot, map_flags = flags OR MAP_FIXED, map_obj = None, map_off = x - base\<rparr>
       else if in_range (base - 4096) (pages (unat sz) + 8192) x then Some (guard_mapping (x - (base - 4096)))
       else view h x)"
    and "in_range (base - 4096) (pages (unat sz) + 8192) x \<Longrightarrow> view h x = None"
proof -
  obtain gs h1 ga rs h2 ra where
      gs: "add_c sz 8192 = Some gs"
      and m1: "os_mmap H h 0 gs PROT_NONE (MAP_ANONYMOUS OR MAP_PRIVATE OR MAP_NORESERVE) None 0 = Some (h1, ga)"
      and rs: "add_c ga 4096 = Some rs"
      and m2: "os_mmap H h1 rs sz prot (flags OR MAP_FIXED) None 0 = Some (h2, ra)"
      and ld: "load_unikernel H lopt h2 ra prot uk = Some h'"
      and r: "mr_addr r = ra" "mr_size r = sz"
    using build_guarded_region_InrD [OF b page_4k]
    by (auto simp: page_4k GUARD_PAGE_COUNT_def mul_c_def dest!: map_over_guard_InrD finish_region_InrD)
  note v1 = mmap_maps [OF ok m1] and fr = mmap_fresh [OF ok m1 guard_not_fixed]
  then have ok1: "ok h1" by blast
  note v2 = mmap_maps [OF ok1 m2] and fx = mmap_fixed [OF ok1 m2 or_fixed]
  then have ok2: "ok h2" by blast
  note lm = load_maps [OF ok2 fl ld]
  have base: "base = unat ga + 4096" using unat_add_c [OF rs] fx by (simp add: base_def r)
  have gsz: "pages (unat gs) = pages (unat sz) + 8192" using unat_add_c [OF gs] by (simp add: pages_guard)
  have ra: "unat ra = base" by (simp add: base_def r)
  show "ok h'" using lm by blast
  show "mr_size r = sz" by (rule r(2))
  show "4096 \<le> base" by (simp add: base)
  show "base mod 4096 = 0" using v2 by (simp add: ra)
  show "in_range (base - 4096) (pages (unat sz) + 8192) x \<Longrightarrow> view h x = None"
    using fr [of x] by (simp add: base gsz)
  have w2: "view h2 x = (if in_range base (pages (unat sz)) x
       then Some \<lparr>map_prot = prot, map_flags = flags OR MAP_FIXED, map_obj = None, map_off = x - base\<rparr>
       else view h1 x)" using v2 by (simp add: ra)
  have w1: "view h1 x = (if in_range (base - 4096) (pages (unat sz) + 8192) x
       then Some (guard_mapping (x - (base - 4096))) else view h x)"
    using v1 by (simp add: base gsz guard_mapping_def)
  have w: "view h' x = (case (if base \<le> x then loaded_view lopt uk flen prot (x - base) else None) of
       Some m \<Rightarrow> Some m | None \<Rightarrow> view h2 x)" using lm by (simp add: ra)
  show "view h' x = (case (if base \<le> x then loaded_view lopt uk flen prot (x - base) else None) of
       Some m \<Rightarrow> Some m
     | None \<Rightarrow> if in_range base (pages (unat sz)) x
       then Some \<lparr>map_prot = prot, map_flags = flags OR MAP_FIXED, map_obj = None, map_off = x - base\<rparr>
       else if in_range (base - 4096) (pages (unat sz) + 8192) x then Some (guard_mapping (x - (base - 4096)))
       else view h x)"
    unfolding w w2 w1 by (rule refl)
qed

lemma copy_sections_bytes:
  assumes "ok h" "copy_sections H h ra ss = Some h'"
  shows "case (if unat ra \<le> x then copied_from ss (x - unat ra) else None) of
      Some s \<Rightarrow> \<exists>bs. sec_bytes s = Some bs \<and> byte_at h' x = bs ! (x - unat ra - unat (sec_vma s))
    | None \<Rightarrow> byte_at h' x = byte_at h x"
  using assms
proof (induction ss arbitrary: h)
  case Nil
  then show ?case by (auto simp: copied_from_def)
next
  case (Cons t ss)
  from Cons.prems(2) obtain a bs src h1 where a: "add_c ra (sec_vma t) = Some a" and b: "sec_bytes t = Some bs"
      and src: "subslice bs 0 (unat (sec_size t)) = Some src"
      and m: "os_memcpy H h a src = Some h1" and r: "copy_sections H h1 ra ss = Some h'"
    by (auto simp: bind_eq_Some_conv)
  have l: "unat (sec_size t) \<le> length bs" "src = take (unat (sec_size t)) bs"
    using src by (auto simp: subslice_def split: if_splits)
  note mc = memcpy_copies [OF Cons.prems(1) m]
  have ua: "unat a = unat ra + unat (sec_vma t)" using a by (rule unat_add_c)
  have bt: "byte_at h1 x = (if in_range (unat a) (unat (sec_size t)) x then bs ! (x - unat a) else byte_at h x)"
    using mc l by (auto simp: in_range_def)
  have c: "copied_from (t # ss) off = (case copied_from ss off of Some u \<Rightarrow> Some u
      | None \<Rightarrow> if in_range (unat (sec_vma t)) (unat (sec_size t)) off then Some t else None)" for off
    by (simp add: copied_from_def)
  have "ok h1" using mc by blast
  from Cons.IH [OF this r] show ?case
    using b bt by (auto simp: c ua in_range_def split: option.splits if_splits)
qed

end

section \<open>Properties\<close>

text \<open>
  C3. Guard pages. When \<^verbatim>\<open>build_guarded_region\<close> returns an anonymous region, the page before it has no
  access rights, whatever is loaded. The page after it has none exactly at the addresses that no section of the
  unikernel and no part of its data file (of length \<open>flen\<close>, fixed during the call) covers; the code does not check that
  they end inside the region, and one that does not replaces the guard page. Every address of the region
  that loading leaves alone is mapped anonymously with the requested protection.
\<close>

theorem guard_pages_intact:
  assumes host: "host_os H view fd_object byte_at ok" and ok: "ok h"
    and fl: "\<forall>h h' fd len. os_open H h (uk @ ''_update'') = Some (h', fd, len) \<longrightarrow> len = flen"
    and b: "build_guarded_region H VM h None sz prot flags track uk lopt = Some (h', Inr r)"
  shows "4096 \<le> unat (mr_addr r) \<and>
    (\<forall>x. in_range (unat (mr_addr r) - 4096) 4096 x \<longrightarrow> view h' x = Some (guard_mapping (x - (unat (mr_addr r) - 4096)))) \<and>
    (\<forall>x. in_range (unat (mr_addr r) + pages (unat sz)) 4096 x \<longrightarrow>
      (view h' x = Some (guard_mapping (x - (unat (mr_addr r) - 4096))) \<longleftrightarrow>
       \<not> load_touches lopt flen (x - unat (mr_addr r)))) \<and>
    (\<forall>off < pages (unat sz). \<not> load_touches lopt flen off \<longrightarrow> view h' (unat (mr_addr r) + off) =
      Some \<lparr>map_prot = prot, map_flags = flags OR MAP_FIXED, map_obj = None, map_off = off\<rparr>)"
proof (intro conjI allI impI)
  note m = host_os.build_guarded_region_maps [OF host ok fl b]
  let ?b = "unat (mr_addr r)"
  show "4096 \<le> ?b" by (rule m(3))
  fix x
  show "view h' x = Some (guard_mapping (x - (?b - 4096)))" if "in_range (?b - 4096) 4096 x"
    using that m(3) m(5) [of x] by (auto simp: in_range_def)
  show "view h' x = Some (guard_mapping (x - (?b - 4096))) \<longleftrightarrow> \<not> load_touches lopt flen (x - ?b)"
    if "in_range (?b + pages (unat sz)) 4096 x"
  proof (cases "loaded_view lopt uk flen prot (x - ?b)")
    case None
    moreover from this have "\<not> load_touches lopt flen (x - ?b)" using loaded_view_None [of lopt uk flen prot "x - ?b"] by simp
    moreover have "?b - 4096 \<le> x" using that unfolding in_range_def by linarith
    ultimately show ?thesis using that m(3) m(5) [of x] by (simp add: in_range_def)
  next
    case (Some mp)
    moreover from this have "load_touches lopt flen (x - ?b)" using loaded_view_None [of lopt uk flen prot "x - ?b"] by simp
    ultimately show ?thesis using that m(5) [of x] loaded_view_obj [OF Some]
      by (auto simp: in_range_def guard_mapping_def)
  qed
next
  note m = host_os.build_guarded_region_maps [OF host ok fl b]
  fix off assume "off < pages (unat sz)" "\<not> load_touches lopt flen off"
  then show "view h' (unat (mr_addr r) + off) =
      Some \<lparr>map_prot = prot, map_flags = flags OR MAP_FIXED, map_obj = None, map_off = off\<rparr>"
    using m(5) [of "unat (mr_addr r) + off"] loaded_view_None [of lopt uk flen prot off]
    by (simp add: in_range_def)
qed

definition ex_vm :: vm_memory_crate where
  "ex_vm = \<lparr>check_file_offset = (\<lambda>_ _. None), builder_build = (\<lambda>_. None),
     guest_region_new = (\<lambda>_ _. None), from_regions = (\<lambda>_. None)\<rparr>"

definition ex_text :: Sections where
  "ex_text = \<lparr>sec_name = ascii ''.text'', sec_vma = 0x1000, sec_size = 0x1000, sec_bytes = None\<rparr>"

definition ex_loader :: LoaderInfo where
  "ex_loader = \<lparr>li_bin = BinaryLoader_new, li_sections = [ex_text,
     \<lparr>sec_name = ascii ''.data'', sec_vma = 0x2000, sec_size = 0x1000, sec_bytes = None\<rparr>],
     li_aslr = False\<rparr>"

lemma ex_build:
  "\<exists>h' r. build_guarded_region ref_host ex_vm ref_init None 0x4000 3 0x22 False ''k'' (Some ex_loader) =
     Some (h', Inr r)"
  by (simp add: build_guarded_region_def ref_host_def ref_mmap_def ref_init_def pages_def Let_def
      GUARD_PAGE_COUNT_def rust_defs map_over_guard_def finish_region_def load_unikernel_def move_sec_aslr_def ex_loader_def
      ex_text_def ascii_def shm_mmap_def ref_shm_open_def move_all_def ref_open_def ex_vm_def map_consts)

lemma ex_open: "\<forall>h h' fd len. os_open ref_host h f = Some (h', fd, len) \<longrightarrow> len = 4096"
  by (auto simp: ref_host_def ref_open_def)

lemma ex_touches: "load_touches (Some ex_loader) 4096 off \<longleftrightarrow> 0x1000 \<le> off \<and> off < 0x3000"
  by (auto simp: load_touches_Some ex_loader_def ex_text_def mapped_section_def
      covers_def data_covers_def in_range_def pages_def ascii_def)

theorem guard_pages_intact_witness:
  "\<exists>h' r. build_guarded_region ref_host ex_vm ref_init None 0x4000 3 0x22 False ''k'' (Some ex_loader) =
     Some (h', Inr r) \<and>
     (\<forall>x. in_range (unat (mr_addr r) - 4096) 4096 x \<or> in_range (unat (mr_addr r) + 0x4000) 4096 x \<longrightarrow>
        rs_view h' x = Some (guard_mapping (x - (unat (mr_addr r) - 4096))))"
proof -
  obtain h' r where b: "build_guarded_region ref_host ex_vm ref_init None 0x4000 3 0x22 False ''k''
      (Some ex_loader) = Some (h', Inr r)" using ex_build by blast
  have "pages (unat (0x4000 :: usize)) = 0x4000" by (simp add: pages_def)
  moreover have "\<not> load_touches (Some ex_loader) 4096 (x - unat (mr_addr r))"
    if "in_range (unat (mr_addr r) + 0x4000) 4096 x" for x
    using that unfolding ex_touches in_range_def by linarith
  ultimately show ?thesis
    using guard_pages_intact [OF refh.host_os_axioms ref_init_ok ex_open b] b by auto
qed

text \<open>
  C4. Load-time sharing. Two unikernels are loaded, each into its own region; at an offset that the data file
  of neither covers, the last section of the list of each that covers the offset has the same name and address. Then both
  regions are backed there by the shared-memory object of that section at the same offset in the object, mapped privately;
  and it is the same object for both, so that the host holds one copy until somebody writes, exactly when both are ASLR
  unikernels or neither is (the objects of ASLR unikernels have names of their own).
\<close>

theorem sections_shared:
  assumes host: "host_os H view fd_object byte_at ok" and ok: "ok h1" "ok h2"
    and fl: "\<forall>h h' fd len. os_open H h (uk1 @ ''_update'') = Some (h', fd, len) \<longrightarrow> len = flen1"
      "\<forall>h h' fd len. os_open H h (uk2 @ ''_update'') = Some (h', fd, len) \<longrightarrow> len = flen2"
    and b: "build_guarded_region H VM h1 None sz1 prot1 flags1 track1 uk1 (Some l1) = Some (h1', Inr r1)"
      "build_guarded_region H VM h2 None sz2 prot2 flags2 track2 uk2 (Some l2) = Some (h2', Inr r2)"
    and s: "owner (li_sections l1) off = Some s1" "owner (li_sections l2) off = Some s2"
      "sec_name s1 = sec_name s2" "sec_vma s1 = sec_vma s2"
    and nd: "\<not> data_covers (Some l1) flen1 off" "\<not> data_covers (Some l2) flen2 off"
  shows "\<exists>m1 m2. view h1' (unat (mr_addr r1) + off) = Some m1 \<and> view h2' (unat (mr_addr r2) + off) = Some m2 \<and>
    m1 = shared_mapping prot1 (li_aslr l1) s1 off \<and> m2 = shared_mapping prot2 (li_aslr l2) s2 off \<and>
    map_off m1 = map_off m2 \<and> (map_obj m1 = map_obj m2 \<longleftrightarrow> li_aslr l1 = li_aslr l2)"
proof -
  have "view h1' (unat (mr_addr r1) + off) = Some (shared_mapping prot1 (li_aslr l1) s1 off)"
    using host_os.build_guarded_region_maps(5) [OF host ok(1) fl(1) b(1), of "unat (mr_addr r1) + off"] s nd
    by (simp add: loaded_view_def)
  moreover have "view h2' (unat (mr_addr r2) + off) = Some (shared_mapping prot2 (li_aslr l2) s2 off)"
    using host_os.build_guarded_region_maps(5) [OF host ok(2) fl(2) b(2), of "unat (mr_addr r2) + off"] s nd
    by (simp add: loaded_view_def)
  moreover have "c_str (shm_name True n) \<noteq> c_str (shm_name False n)" for n
    by (simp add: c_str_def shm_name_def ascii_def)
  then have "c_str (shm_name a n) = c_str (shm_name a' n) \<longleftrightarrow> a = a'" for a a' n by (cases a; cases a') metis+
  ultimately show ?thesis using s by (simp add: shared_mapping_def)
qed

text \<open>Another unikernel, with more sections and another layout, that has the same text section.\<close>

definition ex_loader2 :: LoaderInfo where
  "ex_loader2 = \<lparr>li_bin = BinaryLoader_new, li_sections = [
     \<lparr>sec_name = ascii ''.rodata'', sec_vma = 0x3000, sec_size = 0x800, sec_bytes = None\<rparr>, ex_text,
     \<lparr>sec_name = ascii ''.data'', sec_vma = 0x5000, sec_size = 0x1000, sec_bytes = None\<rparr>],
     li_aslr = False\<rparr>"

lemma ex_build2:
  "\<exists>h' r. build_guarded_region ref_host ex_vm ref_init None 0x8000 3 0x22 True ''m'' (Some ex_loader2) =
     Some (h', Inr r)"
  by (simp add: build_guarded_region_def ref_host_def ref_mmap_def ref_init_def pages_def Let_def
      GUARD_PAGE_COUNT_def rust_defs map_over_guard_def finish_region_def load_unikernel_def move_sec_aslr_def ex_loader2_def
      ex_text_def ascii_def shm_mmap_def ref_shm_open_def move_all_def ref_open_def ex_vm_def map_consts)

theorem sections_shared_witness:
  "\<exists>h1 r1 h2 r2 m1 m2.
     build_guarded_region ref_host ex_vm ref_init None 0x4000 3 0x22 False ''k'' (Some ex_loader) =
       Some (h1, Inr r1) \<and>
     build_guarded_region ref_host ex_vm ref_init None 0x8000 3 0x22 True ''m'' (Some ex_loader2) =
       Some (h2, Inr r2) \<and>
     rs_view h1 (unat (mr_addr r1) + 0x1004) = Some m1 \<and> rs_view h2 (unat (mr_addr r2) + 0x1004) = Some m2 \<and>
     map_off m1 = map_off m2 \<and> map_obj m1 = map_obj m2"
proof -
  obtain h1 r1 where b1: "build_guarded_region ref_host ex_vm ref_init None 0x4000 3 0x22 False ''k''
      (Some ex_loader) = Some (h1, Inr r1)" using ex_build by blast
  obtain h2 r2 where b2: "build_guarded_region ref_host ex_vm ref_init None 0x8000 3 0x22 True ''m''
      (Some ex_loader2) = Some (h2, Inr r2)" using ex_build2 by blast
  have o: "owner (li_sections ex_loader) 0x1004 = Some ex_text" "owner (li_sections ex_loader2) 0x1004 = Some ex_text"
    by (simp_all add: owner_def ex_loader_def ex_loader2_def ex_text_def mapped_section_def covers_def in_range_def
        pages_def ascii_def)
  have d: "\<not> data_covers (Some ex_loader) 4096 0x1004" "\<not> data_covers (Some ex_loader2) 4096 0x1004"
    by (simp_all add: data_covers_def ex_loader_def ex_loader2_def ex_text_def in_range_def ascii_def)
  have a: "li_aslr ex_loader = li_aslr ex_loader2" by (simp add: ex_loader_def ex_loader2_def)
  from sections_shared [OF refh.host_os_axioms ref_init_ok ref_init_ok ex_open ex_open b1 b2 o refl refl d] b1 b2 a
  show ?thesis by blast
qed

text \<open>
  C5. ASLR images. When \<^verbatim>\<open>move_all\<close> returns for an ASLR unikernel, every address of its region holds the byte that
  the last section of the description file that covers it has for it, and every address that no section covers holds
  what it held before. In particular a section that overlaps no other one, byte for byte, is at
  \<open>region_addr + vma\<close> in full. No mapping changes.
\<close>

theorem move_all_aslr_copies:
  assumes host: "host_os H view fd_object byte_at ok" and ok: "ok h" and a: "li_aslr l"
    and m: "move_all H l h ra fn d = Some h'"
  shows "(\<forall>x. case (if unat ra \<le> x then copied_from (bin_sections (li_bin l)) (x - unat ra) else None) of
      Some s \<Rightarrow> \<exists>bs. sec_bytes s = Some bs \<and> byte_at h' x = bs ! (x - unat ra - unat (sec_vma s))
    | None \<Rightarrow> byte_at h' x = byte_at h x) \<and>
    (\<forall>s \<in> set (bin_sections (li_bin l)). (\<forall>t \<in> set (bin_sections (li_bin l)). t = s \<or>
        unat (sec_vma s) + unat (sec_size s) \<le> unat (sec_vma t) \<or> unat (sec_vma t) + unat (sec_size t) \<le> unat (sec_vma s)) \<longrightarrow>
      (\<forall>i < unat (sec_size s). \<exists>bs. sec_bytes s = Some bs \<and> byte_at h' (unat ra + unat (sec_vma s) + i) = bs ! i)) \<and>
    view h' = view h"
proof (intro conjI allI ballI impI)
  have c: "copy_sections H h ra (bin_sections (li_bin l)) = Some h'"
    using m a by (simp add: move_all_def)
  note cb = host_os.copy_sections_bytes [OF host ok c]
  show "view h' = view h" using host_os.copy_sections_frame [OF host ok c] by blast
  show "case (if unat ra \<le> x then copied_from (bin_sections (li_bin l)) (x - unat ra) else None) of
      Some s \<Rightarrow> \<exists>bs. sec_bytes s = Some bs \<and> byte_at h' x = bs ! (x - unat ra - unat (sec_vma s))
    | None \<Rightarrow> byte_at h' x = byte_at h x" for x by (rule cb)
  fix s i
  assume s: "s \<in> set (bin_sections (li_bin l))" and i: "i < unat (sec_size s)"
    and dj: "\<forall>t \<in> set (bin_sections (li_bin l)). t = s \<or>
        unat (sec_vma s) + unat (sec_size s) \<le> unat (sec_vma t) \<or> unat (sec_vma t) + unat (sec_size t) \<le> unat (sec_vma s)"
  have "copied_from (bin_sections (li_bin l)) (unat (sec_vma s) + i) = Some s"
  proof (cases "copied_from (bin_sections (li_bin l)) (unat (sec_vma s) + i)")
    case None
    then show ?thesis using s i by (auto simp: copied_from_def last_such_None in_range_def)
  next
    case (Some t)
    then show ?thesis using last_such_Some [OF Some [unfolded copied_from_def]] dj i by (force simp: in_range_def)
  qed
  then show "\<exists>bs. sec_bytes s = Some bs \<and> byte_at h' (unat ra + unat (sec_vma s) + i) = bs ! i"
    using cb [of "unat ra + unat (sec_vma s) + i"] by (simp add: add.assoc)
qed

text \<open>Two sections that share a page; the second overwrites the last byte of the first.\<close>

definition ex_aslr :: LoaderInfo where
  "ex_aslr = \<lparr>li_bin = \<lparr>bin_sections = [
     \<lparr>sec_name = ascii ''.data'', sec_vma = 0x1000, sec_size = 2, sec_bytes = Some [7, 9]\<rparr>,
     \<lparr>sec_name = ascii ''.ind'', sec_vma = 0x1001, sec_size = 1, sec_bytes = Some [5]\<rparr>],
     bin_buff = []\<rparr>, li_sections = [], li_aslr = True\<rparr>"

theorem move_all_aslr_copies_witness:
  "\<exists>h'. move_all ref_host ex_aslr ref_init 0x10000 ''k_update'' 0 = Some h' \<and>
     rs_bytes h' 0x11000 = 7 \<and> rs_bytes h' 0x11001 = 5 \<and> rs_bytes h' 0x11002 = rs_bytes ref_init 0x11002"
proof -
  obtain h' where m: "move_all ref_host ex_aslr ref_init 0x10000 ''k_update'' 0 = Some h'"
    by (simp add: move_all_def ex_aslr_def ref_host_def ref_memcpy_def rust_defs)
  have a: "li_aslr ex_aslr" by (simp add: ex_aslr_def)
  note c = move_all_aslr_copies [OF refh.host_os_axioms ref_init_ok a m, THEN conjunct1, rule_format]
  show ?thesis using m c [of "0x11000"] c [of "0x11001"] c [of "0x11002"]
    by (simp add: ex_aslr_def copied_from_def in_range_def)
qed

text \<open>
  C6. The guest physical layout. The regions of \<^verbatim>\<open>arch_memory_regions\<close> add up to the requested
  size, ascend without overlapping, and leave the MMIO gap below 4 GiB free.
\<close>

theorem arch_memory_regions_layout:
  "(\<Sum>(a, n) \<leftarrow> arch_memory_regions sz. unat n) = unat sz \<and>
   list_all (\<lambda>(a, n). unat a + unat n \<le> unat MMIO_MEM_START \<or> 2 ^ 32 \<le> unat a) (arch_memory_regions sz) \<and>
   sorted_wrt (\<lambda>(a, n) (b, m). unat a + unat n \<le> unat b) (arch_memory_regions sz)"
  by (auto simp: arch_memory_regions_def MMIO_MEM_START_def FIRST_ADDR_PAST_32BITS_def sub_c_def
      unat_sub word_le_nat_alt split: if_splits option.splits)

lemma finish_region_result:
  "finish_region H VM h ra sz prot flags track uk lopt = Some (h', Inr r) \<Longrightarrow>
   mr_size r = sz \<and> mr_prot r = prot \<and> mr_flags r = flags \<and> mr_bitmap r = (if track then Some sz else None)"
  by (auto simp: finish_region_def Let_def bind_eq_Some_conv split: option.splits)

lemma build_guarded_region_result:
  assumes "build_guarded_region H VM h fo sz prot flags track uk lopt = Some (h', Inr r)"
  shows "mr_size r = sz \<and> mr_prot r = prot \<and> mr_flags r = flags \<and> mr_bitmap r = (if track then Some sz else None)"
  using build_guarded_region_InrD' [OF assms]
  by (auto dest!: map_over_guard_InrD finish_region_result)

definition region_matches :: "bool \<Rightarrow> region_spec \<Rightarrow> mmap_region \<times> u64 \<Rightarrow> bool" where
  "region_matches track spec res \<longleftrightarrow> (case (spec, res) of ((fo, base, sz), (r, b)) \<Rightarrow>
     b = base \<and> mr_size r = sz \<and> mr_prot r = (PROT_READ OR PROT_WRITE) \<and>
     mr_bitmap r = (if track then Some sz else None))"

lemma create_regions_match:
  "create_regions H VM h specs track uk lopt acc = Some (h', Inr rs) \<Longrightarrow>
   \<exists>new. rs = acc @ new \<and> list_all2 (region_matches track) specs new"
proof (induction specs arbitrary: h acc)
  case Nil
  then show ?case by simp
next
  case (Cons spec specs)
  obtain fo base sz where sp: "spec = (fo, base, sz)" by (cases spec)
  from Cons.prems obtain flags h1 res where
      b: "build_guarded_region H VM h fo sz (PROT_READ OR PROT_WRITE) flags track uk lopt = Some (h1, res)"
      and c: "(case res of Inl e \<Rightarrow> Some (h1, Inl (MmapRegion e))
        | Inr r \<Rightarrow> (case guest_region_new VM r base of Some e \<Rightarrow> Some (h1, Inl e)
          | None \<Rightarrow> create_regions H VM h1 specs track uk lopt (acc @ [(r, base)]))) = Some (h', Inr rs)"
    by (auto simp: sp Let_def bind_eq_Some_conv)
  from c obtain r where res: "res = Inr r" by (cases res) auto
  with c have rest: "create_regions H VM h1 specs track uk lopt (acc @ [(r, base)]) = Some (h', Inr rs)"
    by (cases "guest_region_new VM r base") auto
  from Cons.IH [OF rest] obtain new where "rs = acc @ (r, base) # new" "list_all2 (region_matches track) specs new"
    by auto
  moreover have "region_matches track spec (r, base)"
    using build_guarded_region_result [OF b [unfolded res]] by (simp add: region_matches_def sp)
  ultimately show ?case by auto
qed

text \<open>
  C7. Guest memory. When \<^verbatim>\<open>create_guest_memory\<close> succeeds, the result has one region per
  requested range, in order, with its base address and size, readable and writable, and with a
  dirty bitmap over the whole region exactly when dirty tracking was asked for.
\<close>

theorem create_guest_memory_regions:
  assumes "create_guest_memory H VM h regions track uk lopt = Some (h', Inr rs)"
  shows "list_all2 (region_matches track) regions rs"
proof -
  from assms obtain h1 res where c: "create_regions H VM h regions track uk lopt [] = Some (h1, res)"
      and e: "(case res of Inl e \<Rightarrow> Some (h1, Inl e)
        | Inr rs \<Rightarrow> Some (h1, case from_regions VM rs of Some e \<Rightarrow> Inl e | None \<Rightarrow> Inr rs)) = Some (h', Inr rs)"
    by (auto simp: create_guest_memory_def bind_eq_Some_conv)
  from e have "res = Inr rs" by (cases res) (auto split: option.splits)
  with create_regions_match c show ?thesis by fastforce
qed

theorem create_guest_memory_regions_witness:
  "\<exists>h' rs. create_guest_memory ref_host ex_vm ref_init [(None, 0, 0x4000), (None, 0x100000, 0x2000)]
     True ''k'' None = Some (h', Inr rs) \<and>
   list_all2 (region_matches True) [(None, 0, 0x4000), (None, 0x100000, 0x2000)] rs"
proof -
  have "\<exists>h' rs. create_guest_memory ref_host ex_vm ref_init [(None, 0, 0x4000), (None, 0x100000, 0x2000)]
     True ''k'' None = Some (h', Inr rs)"
    by (simp add: create_guest_memory_def build_guarded_region_def ref_host_def ref_mmap_def ref_init_def
        pages_def Let_def GUARD_PAGE_COUNT_def rust_defs map_over_guard_def finish_region_def load_unikernel_def ex_vm_def
        map_consts)
  then obtain h' rs where c: "create_guest_memory ref_host ex_vm ref_init
      [(None, 0, 0x4000), (None, 0x100000, 0x2000)] True ''k'' None = Some (h', Inr rs)" by blast
  from create_guest_memory_regions [OF c] c show ?thesis by (intro exI conjI)
qed

end
