(* ===== verification/Rate_Limiter.thy ===== *)
theory Rate_Limiter
  imports Prelude Complex_Main "HOL-Library.Log_Nat"
begin

text \<open>
  The token-bucket rate limiter of \<open>src/firecracker/src/rate_limiter/src/lib.rs\<close> and its saved
  state (\<open>persist.rs\<close>). An \<^verbatim>\<open>Instant\<close> is a number of nanoseconds; a definition that reads the
  clock takes the instants as arguments. An \<^verbatim>\<open>f64\<close> is the rational it denotes, and every
  operation on it rounds to the nearest double; the values that occur are zero or between
  \<open>2 powr -64\<close> and \<open>2 powr 128\<close>, so neither overflow nor subnormal numbers arise. The timer is the
  interface of the \<^verbatim>\<open>timerfd\<close> crate.
\<close>

section \<open>Double precision\<close>

text \<open>The exponent \<open>e\<close> with \<open>2 powi e \<le> x < 2 powi (e + 1)\<close>, for positive \<open>x\<close>.\<close>

definition exponent :: "rat \<Rightarrow> int" where
  "exponent x = (if 1 \<le> x then int (floorlog 2 (nat \<lfloor>x\<rfloor>)) - 1
     else - int (floorlog 2 (nat (\<lceil>1 / x\<rceil> - 1))))"

definition round_half_even :: "rat \<Rightarrow> int" where
  "round_half_even x = (let n = \<lfloor>x\<rfloor>; d = x - of_int n in
     if d < 1 / 2 \<or> d = 1 / 2 \<and> even n then n else n + 1)"

definition f64_round :: "rat \<Rightarrow> rat" where
  "f64_round x = (if x = 0 then 0
     else let u = 2 powi (exponent x - 52) in of_int (round_half_even (x / u)) * u)"

definition f64_of_u64 :: "u64 \<Rightarrow> rat" where
  "f64_of_u64 w = f64_round (of_nat (unat w))"

definition f64_div :: "rat \<Rightarrow> rat \<Rightarrow> rat" where
  "f64_div x y = f64_round (x / y)"

definition f64_mul :: "rat \<Rightarrow> rat \<Rightarrow> rat" where
  "f64_mul x y = f64_round (x * y)"

text \<open>\<^verbatim>\<open>as u64\<close> truncates and saturates.\<close>

definition u64_of_f64 :: "rat \<Rightarrow> u64" where
  "u64_of_f64 x = (if 2 ^ 64 \<le> x then - 1 else of_int \<lfloor>x\<rfloor>)"

section \<open>Token buckets\<close>

definition REFILL_TIMER_INTERVAL_MS :: u64 where "REFILL_TIMER_INTERVAL_MS = 100"
definition NANOSEC_IN_ONE_MILLISEC :: u64 where "NANOSEC_IN_ONE_MILLISEC = 1000000"

function gcd_u64 :: "u64 \<Rightarrow> u64 \<Rightarrow> u64" where
  "gcd_u64 x y = (if y \<noteq> 0 then gcd_u64 y (x mod y) else x)"
  by auto
termination
proof (relation "measure (\<lambda>(x, y). unat y)")
  fix x y :: u64
  assume "y \<noteq> 0"
  then have "unat x mod unat y < unat y" by (simp add: unat_gt_0)
  then show "((y, x mod y), x, y) \<in> measure (\<lambda>(x, y). unat y)" by (simp add: unat_mod)
qed simp

declare gcd_u64.simps [simp del]

definition div_c :: "'a::len word \<Rightarrow> 'a word \<Rightarrow> 'a word option" where
  "div_c a b = (if b = 0 then None else Some (a div b))"

datatype BucketReduction = Failure | Success | OverConsumption rat

record TokenBucket =
  tb_size :: u64
  initial_one_time_burst :: u64
  refill_time :: u64
  one_time_burst :: u64
  budget :: u64
  last_update :: nat
  processed_capacity :: u64
  processed_refill_time :: u64

definition TokenBucket_new :: "nat \<Rightarrow> u64 \<Rightarrow> u64 \<Rightarrow> u64 \<Rightarrow> TokenBucket option option" where
  "TokenBucket_new now sz burst complete_refill_time_ms =
     (if sz = 0 \<or> complete_refill_time_ms = 0 then Some None
      else do {
        complete_refill_time_ns \<leftarrow> mul_c complete_refill_time_ms NANOSEC_IN_ONE_MILLISEC;
        let common_factor = gcd_u64 sz complete_refill_time_ns;
        pc \<leftarrow> div_c sz common_factor;
        prt \<leftarrow> div_c complete_refill_time_ns common_factor;
        Some (Some \<lparr> tb_size = sz, initial_one_time_burst = burst, refill_time = complete_refill_time_ms,
          one_time_burst = burst, budget = sz, last_update = now,
          processed_capacity = pc, processed_refill_time = prt \<rparr>)
      })"

text \<open>\<open>t1\<close> is the instant of \<^verbatim>\<open>elapsed()\<close>, \<open>t2\<close> the one of the following \<^verbatim>\<open>Instant::now()\<close>.\<close>

definition auto_replenish :: "nat \<Rightarrow> nat \<Rightarrow> TokenBucket \<Rightarrow> TokenBucket option" where
  "auto_replenish t1 t2 b = do {
     let time_delta = of_nat (t1 - last_update b);
     p \<leftarrow> mul_c time_delta (processed_capacity b);
     tokens \<leftarrow> div_c p (processed_refill_time b);
     s \<leftarrow> add_c (budget b) tokens;
     Some (b\<lparr>last_update := t2, budget := min s (tb_size b)\<rparr>)
   }"

definition reduce_budget :: "nat \<Rightarrow> nat \<Rightarrow> TokenBucket \<Rightarrow> u64 \<Rightarrow> (TokenBucket \<times> BucketReduction) option" where
  "reduce_budget t1 t2 b tokens =
     (if tokens > budget b then do {
        b' \<leftarrow> auto_replenish t1 t2 b;
        if tokens > tb_size b' then do {
          rest \<leftarrow> sub_c tokens (budget b');
          Some (b'\<lparr>budget := 0\<rparr>, OverConsumption (f64_div (f64_of_u64 rest) (f64_of_u64 (tb_size b'))))
        }
        else if tokens > budget b' then Some (b', Failure)
        else Some (b'\<lparr>budget := budget b' - tokens\<rparr>, Success)
      }
      else Some (b\<lparr>budget := budget b - tokens\<rparr>, Success))"

definition reduce :: "nat \<Rightarrow> nat \<Rightarrow> TokenBucket \<Rightarrow> u64 \<Rightarrow> (TokenBucket \<times> BucketReduction) option" where
  "reduce t1 t2 b tokens =
     (if one_time_burst b > 0 then
        if one_time_burst b \<ge> tokens
        then Some (b\<lparr>one_time_burst := one_time_burst b - tokens, last_update := t1\<rparr>, Success)
        else reduce_budget t1 t2 (b\<lparr>one_time_burst := 0\<rparr>) (tokens - one_time_burst b)
      else reduce_budget t1 t2 b tokens)"

definition force_replenish :: "TokenBucket \<Rightarrow> u64 \<Rightarrow> TokenBucket option" where
  "force_replenish b tokens =
     (if one_time_burst b > 0 then do {
        s \<leftarrow> add_c (one_time_burst b) tokens;
        Some (b\<lparr>one_time_burst := s\<rparr>)
      }
      else do {
        s \<leftarrow> add_c (budget b) tokens;
        Some (b\<lparr>budget := min s (tb_size b)\<rparr>)
      })"

section \<open>The rate limiter\<close>

datatype TokenType = Bytes | Ops

datatype BucketUpdate = BU_None | Disabled | Update TokenBucket

datatype Error = SpuriousRateLimiterEvent

text \<open>The timer of the \<^verbatim>\<open>timerfd\<close> crate: one-shot arming in milliseconds and reading the
  number of expirations since the last read.\<close>

record ('t, 'e) timerfd =
  tf_new :: "'e + 't"
  tf_set_oneshot_ms :: "nat \<Rightarrow> 't \<Rightarrow> u64 \<Rightarrow> 't"
  tf_read :: "nat \<Rightarrow> 't \<Rightarrow> u64 \<times> 't"

record 't RateLimiter =
  bandwidth :: "TokenBucket option"
  ops :: "TokenBucket option"
  timer_fd :: 't
  timer_active :: bool

text \<open>\<open>now1\<close> and \<open>now2\<close> are the instants at which the two buckets are created.\<close>

definition RateLimiter_new :: "('t, 'e) timerfd \<Rightarrow> nat \<Rightarrow> nat \<Rightarrow> u64 \<Rightarrow> u64 \<Rightarrow> u64 \<Rightarrow> u64 \<Rightarrow> u64 \<Rightarrow> u64 \<Rightarrow> ('e + 't RateLimiter) option" where
  "RateLimiter_new T now1 now2 bytes_total_capacity bytes_one_time_burst bytes_complete_refill_time_ms
      ops_total_capacity ops_one_time_burst ops_complete_refill_time_ms = do {
     bytes_token_bucket \<leftarrow> TokenBucket_new now1 bytes_total_capacity bytes_one_time_burst bytes_complete_refill_time_ms;
     ops_token_bucket \<leftarrow> TokenBucket_new now2 ops_total_capacity ops_one_time_burst ops_complete_refill_time_ms;
     (case tf_new T of
        Inl e \<Rightarrow> Some (Inl e)
      | Inr fd \<Rightarrow> Some (Inr \<lparr> bandwidth = bytes_token_bucket, ops = ops_token_bucket, timer_fd = fd, timer_active = False \<rparr>))
   }"

definition RateLimiter_default :: "('t, 'e) timerfd \<Rightarrow> nat \<Rightarrow> nat \<Rightarrow> 't RateLimiter option" where
  "RateLimiter_default T now1 now2 = (case RateLimiter_new T now1 now2 0 0 0 0 0 0 of Some (Inr r) \<Rightarrow> Some r | _ \<Rightarrow> None)"

definition activate_timer :: "('t, 'e) timerfd \<Rightarrow> nat \<Rightarrow> 't RateLimiter \<Rightarrow> u64 \<Rightarrow> 't RateLimiter" where
  "activate_timer T now r ms = r\<lparr>timer_fd := tf_set_oneshot_ms T now (timer_fd r) ms, timer_active := True\<rparr>"

fun bucket_of :: "'t RateLimiter \<Rightarrow> TokenType \<Rightarrow> TokenBucket option" where
  "bucket_of r Bytes = bandwidth r"
| "bucket_of r Ops = ops r"

fun put_bucket :: "'t RateLimiter \<Rightarrow> TokenType \<Rightarrow> TokenBucket \<Rightarrow> 't RateLimiter" where
  "put_bucket r Bytes b = r\<lparr>bandwidth := Some b\<rparr>"
| "put_bucket r Ops b = r\<lparr>ops := Some b\<rparr>"

definition consume :: "('t, 'e) timerfd \<Rightarrow> nat \<Rightarrow> nat \<Rightarrow> 't RateLimiter \<Rightarrow> u64 \<Rightarrow> TokenType \<Rightarrow> (bool \<times> 't RateLimiter) option" where
  "consume T t1 t2 r tokens token_type =
     (if timer_active r then Some (False, r)
      else case bucket_of r token_type of
        None \<Rightarrow> Some (True, r)
      | Some bucket \<Rightarrow> do {
          (bucket', outcome) \<leftarrow> reduce t1 t2 bucket tokens;
          let r' = put_bucket r token_type bucket';
          Some (case outcome of
              Failure \<Rightarrow> (False, activate_timer T t2 r' REFILL_TIMER_INTERVAL_MS)
            | Success \<Rightarrow> (True, r')
            | OverConsumption ratio \<Rightarrow>
                (True, activate_timer T t2 r' (u64_of_f64 (f64_mul ratio (f64_of_u64 (refill_time bucket))))))
        })"

definition manual_replenish :: "'t RateLimiter \<Rightarrow> u64 \<Rightarrow> TokenType \<Rightarrow> 't RateLimiter option" where
  "manual_replenish r tokens token_type =
     (case bucket_of r token_type of
        None \<Rightarrow> Some r
      | Some bucket \<Rightarrow> do {
          bucket' \<leftarrow> force_replenish bucket tokens;
          Some (put_bucket r token_type bucket')
        })"

definition is_blocked :: "'t RateLimiter \<Rightarrow> bool" where
  "is_blocked r = timer_active r"

definition event_handler :: "('t, 'e) timerfd \<Rightarrow> nat \<Rightarrow> 't RateLimiter \<Rightarrow> (Error + unit) \<times> 't RateLimiter" where
  "event_handler T now r =
     (let (n, fd) = tf_read T now (timer_fd r); r' = r\<lparr>timer_fd := fd\<rparr>
      in if n = 0 then (Inl SpuriousRateLimiterEvent, r') else (Inr (), r'\<lparr>timer_active := False\<rparr>))"

fun apply_update :: "BucketUpdate \<Rightarrow> TokenBucket option \<Rightarrow> TokenBucket option" where
  "apply_update Disabled b = None"
| "apply_update (Update tb) b = Some tb"
| "apply_update BU_None b = b"

definition update_buckets :: "'t RateLimiter \<Rightarrow> BucketUpdate \<Rightarrow> BucketUpdate \<Rightarrow> 't RateLimiter" where
  "update_buckets r bytes_upd ops_upd =
     r\<lparr>bandwidth := apply_update bytes_upd (bandwidth r), ops := apply_update ops_upd (ops r)\<rparr>"

section \<open>Saved state\<close>

record TokenBucketState =
  tbs_size :: u64
  tbs_one_time_burst :: u64
  tbs_refill_time :: u64
  tbs_budget :: u64
  tbs_elapsed_ns :: u64

record RateLimiterState =
  rls_ops :: "TokenBucketState option"
  rls_bandwidth :: "TokenBucketState option"

datatype 'e io_error = InvalidInput | Timer 'e

definition TokenBucket_save :: "nat \<Rightarrow> TokenBucket \<Rightarrow> TokenBucketState" where
  "TokenBucket_save now b = \<lparr> tbs_size = tb_size b, tbs_one_time_burst = one_time_burst b,
     tbs_refill_time = refill_time b, tbs_budget = budget b, tbs_elapsed_ns = of_nat (now - last_update b) \<rparr>"

definition TokenBucket_restore :: "nat \<Rightarrow> nat \<Rightarrow> TokenBucketState \<Rightarrow> ('e io_error + TokenBucket) option" where
  "TokenBucket_restore now now2 st = do {
     let lu = (if unat (tbs_elapsed_ns st) \<le> now then now - unat (tbs_elapsed_ns st) else now);
     tb \<leftarrow> TokenBucket_new now2 (tbs_size st) (tbs_one_time_burst st) (tbs_refill_time st);
     Some (case tb of
         None \<Rightarrow> Inl InvalidInput
       | Some b \<Rightarrow> Inr (b\<lparr>budget := tbs_budget st, last_update := lu\<rparr>))
   }"

definition RateLimiter_save :: "nat \<Rightarrow> nat \<Rightarrow> 't RateLimiter \<Rightarrow> RateLimiterState" where
  "RateLimiter_save now1 now2 r = \<lparr> rls_ops = map_option (TokenBucket_save now1) (ops r),
     rls_bandwidth = map_option (TokenBucket_save now2) (bandwidth r) \<rparr>"

fun restore_opt :: "nat \<Rightarrow> nat \<Rightarrow> TokenBucketState option \<Rightarrow> ('e io_error + TokenBucket option) option" where
  "restore_opt now now2 None = Some (Inr None)"
| "restore_opt now now2 (Some st) = map_option (map_sum id Some) (TokenBucket_restore now now2 st)"

text \<open>The instants of the four clock readings, two per restored bucket.\<close>

definition RateLimiter_restore :: "('t, 'e) timerfd \<Rightarrow> nat \<times> nat \<Rightarrow> nat \<times> nat \<Rightarrow> RateLimiterState \<Rightarrow> ('e io_error + 't RateLimiter) option" where
  "RateLimiter_restore T no nb st = do {
     o1 \<leftarrow> restore_opt (fst no) (snd no) (rls_ops st);
     (case o1 of Inl e \<Rightarrow> Some (Inl e) | Inr ops_b \<Rightarrow> do {
        b1 \<leftarrow> restore_opt (fst nb) (snd nb) (rls_bandwidth st);
        (case b1 of Inl e \<Rightarrow> Some (Inl e) | Inr bw_b \<Rightarrow>
           Some (case tf_new T of
               Inl e \<Rightarrow> Inl (Timer e)
             | Inr fd \<Rightarrow> Inr \<lparr> bandwidth = bw_b, ops = ops_b, timer_fd = fd, timer_active = False \<rparr>))
      })
   }"

section \<open>Buckets: invariant and refill\<close>

lemma gcd_u64_correct: "unat (gcd_u64 x y) = gcd (unat x) (unat y)"
proof (induction x y rule: gcd_u64.induct)
  case (1 x y)
  then show ?case
    by (cases "y = 0")
      (simp_all add: gcd_u64.simps [of x y] gcd_u64.simps [of x 0] unat_mod gcd_red_nat [of "unat x" "unat y"])
qed

definition refill_ns :: "TokenBucket \<Rightarrow> nat" where
  "refill_ns b = unat (refill_time b) * 1000000"

text \<open>
  The invariant of a bucket: it is never fuller than its size, and the pre-processed fraction is
  the configured rate \<open>size / refill time\<close> in lowest terms.
\<close>

definition bucket_ok :: "TokenBucket \<Rightarrow> bool" where
  "bucket_ok b \<longleftrightarrow> tb_size b \<noteq> 0 \<and> refill_time b \<noteq> 0 \<and> budget b \<le> tb_size b \<and> refill_ns b < 2 ^ 64 \<and>
     unat (processed_refill_time b) \<noteq> 0 \<and>
     coprime (unat (processed_capacity b)) (unat (processed_refill_time b)) \<and>
     unat (processed_capacity b) * refill_ns b = unat (tb_size b) * unat (processed_refill_time b)"

lemma bucket_ok_upd [simp]:
  "bucket_ok (b\<lparr>last_update := t\<rparr>) = bucket_ok b" "bucket_ok (b\<lparr>one_time_burst := u\<rparr>) = bucket_ok b"
  by (simp_all add: bucket_ok_def refill_ns_def)

lemma bucket_ok_budget:
  "bucket_ok b \<Longrightarrow> n \<le> tb_size b \<Longrightarrow> bucket_ok (b\<lparr>budget := n\<rparr>)"
  by (simp add: bucket_ok_def refill_ns_def)

lemma refill_exact:
  assumes "bucket_ok b"
  shows "(d * unat (processed_capacity b)) div unat (processed_refill_time b) = (d * unat (tb_size b)) div refill_ns b"
proof -
  let ?pc = "unat (processed_capacity b)" and ?pr = "unat (processed_refill_time b)"
    and ?n = "refill_ns b" and ?s = "unat (tb_size b)"
  have e: "?pc * ?n = ?s * ?pr" and n: "?n \<noteq> 0" and pr: "?pr \<noteq> 0"
    using assms by (auto simp: bucket_ok_def refill_ns_def unat_eq_0)
  have "(d * ?pc) div ?pr = (d * ?pc * ?n) div (?pr * ?n)"
    using n by (simp add: div_mult_mult2)
  also have "d * ?pc * ?n = (d * ?s) * ?pr" using e by (simp add: mult.assoc)
  also have "((d * ?s) * ?pr) div (?pr * ?n) = (d * ?s) div ?n"
    using pr by (simp add: mult.commute [of ?pr] div_mult_mult2)
  finally show ?thesis .
qed

lemma div_c_Some_iff: "div_c a b = Some c \<longleftrightarrow> b \<noteq> 0 \<and> c = a div b"
  by (auto simp: div_c_def)

lemma TokenBucket_new_ok:
  assumes "TokenBucket_new now sz burst rt = Some (Some b)"
  shows "bucket_ok b"
proof -
  from assms obtain ns where ns: "mul_c rt NANOSEC_IN_ONE_MILLISEC = Some ns" and nz: "sz \<noteq> 0" "rt \<noteq> 0"
    and b: "tb_size b = sz" "refill_time b = rt" "budget b = sz"
      "processed_capacity b = sz div gcd_u64 sz ns" "processed_refill_time b = ns div gcd_u64 sz ns"
    by (auto simp: TokenBucket_new_def div_c_Some_iff Let_def elim!: bindE split: if_split_asm)
  let ?g = "gcd (unat sz) (unat ns)"
  from unat_mul_c [OF ns] have n: "unat ns = unat rt * 1000000" by (simp add: NANOSEC_IN_ONE_MILLISEC_def)
  have nb: "unat rt * 1000000 < 2 ^ 64" using ns by (simp add: mul_c_def NANOSEC_IN_ONE_MILLISEC_def split: if_splits)
  have s0: "unat sz \<noteq> 0" "unat ns \<noteq> 0" using nz n by (simp_all add: unat_eq_0)
  have pc: "unat (processed_capacity b) = unat sz div ?g" "unat (processed_refill_time b) = unat ns div ?g"
    using b by (simp_all add: unat_div gcd_u64_correct)
  have "coprime (unat sz div ?g) (unat ns div ?g)" using s0 by (intro div_gcd_coprime) simp
  moreover have "unat ns div ?g \<noteq> 0" using s0 by (simp add: dvd_div_eq_0_iff)
  moreover have "unat sz div ?g * unat ns = unat sz * (unat ns div ?g)"
    by (simp add: div_mult_swap dvd_div_mult)
  ultimately show ?thesis
    using nz b(1-3) pc n nb by (simp add: bucket_ok_def refill_ns_def)
qed

lemma TokenBucket_new_fields:
  "TokenBucket_new now sz burst rt = Some (Some b) \<Longrightarrow> tb_size b = sz \<and> budget b = sz \<and>
   one_time_burst b = burst \<and> initial_one_time_burst b = burst \<and> last_update b = now \<and> refill_time b = rt"
  by (auto simp: TokenBucket_new_def Let_def elim!: bindE split: if_split_asm)

lemma TokenBucket_new_rate_cases:
  "TokenBucket_new now sz burst rt = Some None \<Longrightarrow> sz = 0 \<or> rt = 0"
  "TokenBucket_new now sz burst rt = None \<Longrightarrow> sz \<noteq> 0 \<and> 2 ^ 64 \<le> unat rt * 1000000"
proof -
  show "TokenBucket_new now sz burst rt = Some None \<Longrightarrow> sz = 0 \<or> rt = 0"
    by (auto simp: TokenBucket_new_def Let_def elim!: bindE split: if_split_asm)
  have "gcd_u64 sz ns \<noteq> 0" if "sz \<noteq> 0" for ns
    using gcd_u64_correct [of sz ns] that by (metis gcd_eq_0_iff unat_eq_0)
  then show "TokenBucket_new now sz burst rt = None \<Longrightarrow> sz \<noteq> 0 \<and> 2 ^ 64 \<le> unat rt * 1000000"
    by (auto simp: TokenBucket_new_def Let_def div_c_def mul_c_def NANOSEC_IN_ONE_MILLISEC_def split: if_split_asm)
qed

lemma auto_replenish_fields:
  "auto_replenish t1 t2 b = Some b' \<Longrightarrow> tb_size b' = tb_size b \<and> refill_time b' = refill_time b \<and>
   one_time_burst b' = one_time_burst b \<and> last_update b' = t2"
  by (auto simp: auto_replenish_def Let_def elim!: bindE)

lemma auto_replenishD:
  assumes "auto_replenish t1 t2 b = Some b'" "bucket_ok b"
  shows "bucket_ok b'"
    "unat (budget b') = min (unat (budget b) + unat (of_nat (t1 - last_update b) :: u64) * unat (tb_size b) div refill_ns b)
       (unat (tb_size b))"
proof -
  from assms(1) obtain p tok s where s: "mul_c (of_nat (t1 - last_update b)) (processed_capacity b) = Some p"
    "div_c p (processed_refill_time b) = Some tok" "add_c (budget b) tok = Some s"
    "b' = b\<lparr>last_update := t2, budget := min s (tb_size b)\<rparr>"
    by (auto simp: auto_replenish_def Let_def elim!: bindE)
  have "unat s = unat (budget b) + unat tok" using unat_add_c [OF s(3)] .
  moreover have "unat tok = unat p div unat (processed_refill_time b)" using s(2) by (simp add: div_c_Some_iff unat_div)
  moreover have "unat p = unat (of_nat (t1 - last_update b) :: u64) * unat (processed_capacity b)"
    using unat_mul_c [OF s(1)] .
  ultimately have "unat s = unat (budget b) + unat (of_nat (t1 - last_update b) :: u64) * unat (tb_size b) div refill_ns b"
    by (simp add: refill_exact [OF assms(2)])
  then show "unat (budget b') = min (unat (budget b) + unat (of_nat (t1 - last_update b) :: u64) * unat (tb_size b) div refill_ns b)
       (unat (tb_size b))"
    using s(4) by (simp add: min_def word_le_nat_alt)
  show "bucket_ok b'" using s(4) assms(2) by (simp add: bucket_ok_budget)
qed

text \<open>
  One \<^verbatim>\<open>reduce\<close> that is not an over-consumption, in tokens: what was granted and what is left is
  covered by what was there and what the elapsed time paid for.
\<close>

definition granted :: "u64 \<Rightarrow> BucketReduction \<Rightarrow> nat" where
  "granted tokens out = (if out = Failure then 0 else unat tokens)"

definition credit :: "TokenBucket \<Rightarrow> nat" where
  "credit b = unat (one_time_burst b) + unat (budget b)"

lemma unat_of_nat_le: "unat (of_nat n :: 'a::len word) \<le> n"
  by (simp add: unat_of_nat)

lemma auto_replenish_credit:
  assumes "auto_replenish t1 t2 b = Some b'" "bucket_ok b"
  shows "unat (budget b') * refill_ns b \<le> unat (budget b) * refill_ns b + (t1 - last_update b) * unat (tb_size b)"
proof -
  let ?d = "unat (of_nat (t1 - last_update b) :: u64)"
  have "unat (budget b') * refill_ns b \<le> (unat (budget b) + ?d * unat (tb_size b) div refill_ns b) * refill_ns b"
    using auto_replenishD(2) [OF assms] by simp
  also have "\<dots> \<le> unat (budget b) * refill_ns b + ?d * unat (tb_size b)"
    by (simp add: add_mult_distrib)
  also have "\<dots> \<le> unat (budget b) * refill_ns b + (t1 - last_update b) * unat (tb_size b)"
    by (simp add: unat_of_nat_le)
  finally show ?thesis .
qed

definition reduce_sound :: "nat \<Rightarrow> TokenBucket \<Rightarrow> u64 \<Rightarrow> TokenBucket \<Rightarrow> BucketReduction \<Rightarrow> bool" where
  "reduce_sound t2 b tokens b' out \<longleftrightarrow> bucket_ok b' \<and> tb_size b' = tb_size b \<and> refill_ns b' = refill_ns b \<and>
     last_update b \<le> last_update b' \<and> last_update b' \<le> t2 \<and> out \<in> {Success, Failure} \<and>
     (granted tokens out + credit b') * refill_ns b \<le> credit b * refill_ns b + (last_update b' - last_update b) * unat (tb_size b)"

lemma unat_minus_le: "a \<le> b \<Longrightarrow> unat (b - a) = unat b - unat a" for a b :: "'a::len word"
  by (simp add: unat_sub word_le_nat_alt)

lemma reduce_budget_sound:
  assumes "reduce_budget t1 t2 b tokens = Some (b', out)" "bucket_ok b" "tokens \<le> tb_size b"
    "last_update b \<le> t1" "t1 \<le> t2"
  shows "reduce_sound t2 b tokens b' out"
proof (cases "tokens > budget b")
  case False
  then have r: "b' = b\<lparr>budget := budget b - tokens\<rparr>" "out = Success" "tokens \<le> budget b"
    using assms(1) by (auto simp: reduce_budget_def)
  then have u: "unat tokens \<le> unat (budget b)" "unat (budget b - tokens) = unat (budget b) - unat tokens"
    by (simp_all add: unat_minus_le word_le_nat_alt)
  have "budget b - tokens \<le> tb_size b"
    using assms(2) u unfolding bucket_ok_def word_le_nat_alt by linarith
  then show ?thesis
    using r u assms bucket_ok_budget [OF assms(2)]
    by (simp add: reduce_sound_def granted_def credit_def refill_ns_def)
next
  case True
  then obtain c where c: "auto_replenish t1 t2 b = Some c"
    using assms(1) by (auto simp: reduce_budget_def elim!: bindE)
  with True assms(1,3) auto_replenish_fields [OF c]
  have o: "(b', out) = (if tokens > budget c then (c, Failure) else (c\<lparr>budget := budget c - tokens\<rparr>, Success))"
    by (auto simp: reduce_budget_def split: if_split_asm)
  note d = auto_replenishD [OF c assms(2)] and k = auto_replenish_credit [OF c assms(2)]
  have f: "tb_size c = tb_size b" "refill_time c = refill_time b" "one_time_burst c = one_time_burst b" "last_update c = t2"
    using auto_replenish_fields [OF c] by simp_all
  have k': "unat (budget c) * refill_ns b \<le> unat (budget b) * refill_ns b + (t2 - last_update b) * unat (tb_size b)"
  proof -
    have "(t1 - last_update b) * unat (tb_size b) \<le> (t2 - last_update b) * unat (tb_size b)"
      using assms(5) by (intro mult_le_mono1) simp
    with k show ?thesis by linarith
  qed
  show ?thesis
  proof (cases "tokens > budget c")
    case True
    then show ?thesis
      using o f k' d(1) assms by (simp add: reduce_sound_def granted_def credit_def refill_ns_def add_mult_distrib)
  next
    case False
    then have "tokens \<le> budget c" by simp
    then have u: "unat tokens \<le> unat (budget c)" "unat (budget c - tokens) = unat (budget c) - unat tokens"
      by (simp_all add: unat_minus_le word_le_nat_alt)
    have "budget c - tokens \<le> tb_size c"
      using d(1) u unfolding bucket_ok_def word_le_nat_alt by linarith
    from bucket_ok_budget [OF d(1) this] show ?thesis
      using False o f k' u assms by (simp add: reduce_sound_def granted_def credit_def refill_ns_def add_mult_distrib)
  qed
qed

lemma reduce_reduce_sound:
  assumes "reduce t1 t2 b tokens = Some (b', out)" "bucket_ok b" "tokens \<le> tb_size b"
    "last_update b \<le> t1" "t1 \<le> t2"
  shows "reduce_sound t2 b tokens b' out"
proof (cases "one_time_burst b > 0")
  case False
  with assms show ?thesis by (simp add: reduce_def reduce_budget_sound)
next
  case True
  show ?thesis
  proof (cases "tokens \<le> one_time_burst b")
    case le: True
    then have "unat tokens \<le> unat (one_time_burst b)"
      "unat (one_time_burst b - tokens) = unat (one_time_burst b) - unat tokens"
      by (simp_all add: unat_minus_le word_le_nat_alt)
    then show ?thesis
      using True le assms by (auto simp: reduce_def reduce_sound_def granted_def credit_def refill_ns_def)
  next
    case False
    let ?b = "b\<lparr>one_time_burst := 0\<rparr>" and ?t = "tokens - one_time_burst b"
    have lt: "one_time_burst b \<le> tokens" using False by simp
    have u: "unat ?t = unat tokens - unat (one_time_burst b)" "unat (one_time_burst b) \<le> unat tokens"
      using lt by (simp_all add: unat_minus_le word_le_nat_alt)
    have "?t \<le> tb_size ?b" using u assms(3) unfolding word_le_nat_alt by simp
    moreover have "reduce_budget t1 t2 ?b ?t = Some (b', out)"
      using assms(1) True False by (simp add: reduce_def)
    ultimately have "reduce_sound t2 ?b ?t b' out"
      using assms by (intro reduce_budget_sound) simp_all
    moreover have "granted tokens out \<le> granted ?t out + unat (one_time_burst b)"
      using u by (simp add: granted_def)
    then have "(granted tokens out + credit b') * refill_ns b \<le> (granted ?t out + credit b' + unat (one_time_burst b)) * refill_ns b"
      by (intro mult_le_mono1) simp
    ultimately show ?thesis
      by (simp add: reduce_sound_def credit_def refill_ns_def add_mult_distrib)
  qed
qed

section \<open>Timers\<close>

text \<open>
  What \<^verbatim>\<open>timerfd\<close> promises: arming replaces the old state, a zero duration disarms, and reading
  reports an expiration exactly once, from its instant on. \<open>expiry\<close> is the instant at which the
  timer will expire.
\<close>

locale oneshot_timer =
  fixes T :: "('t, 'e) timerfd" and expiry :: "'t \<Rightarrow> nat option"
  assumes set_expiry: "expiry (tf_set_oneshot_ms T now fd ms) = (if ms = 0 then None else Some (now + unat ms * 1000000))"
    and read_expired: "fst (tf_read T now fd) \<noteq> 0 \<longleftrightarrow> (\<exists>e. expiry fd = Some e \<and> e \<le> now)"
    and read_expiry: "expiry (snd (tf_read T now fd)) = (if fst (tf_read T now fd) = 0 then expiry fd else None)"
begin

lemma event_handler_unblocks:
  "timer_active r \<Longrightarrow> event_handler T now r = (res, r') \<Longrightarrow>
   (\<not> timer_active r' \<longleftrightarrow> (\<exists>e. expiry (timer_fd r) = Some e \<and> e \<le> now)) \<and>
   (timer_active r' \<longrightarrow> expiry (timer_fd r') = expiry (timer_fd r))"
  using read_expired [of now "timer_fd r"] read_expiry [of now "timer_fd r"]
  by (auto simp: event_handler_def Let_def split: prod.splits if_splits)

end

definition ref_timer :: "(nat option, unit) timerfd" where
  "ref_timer = \<lparr> tf_new = Inr None,
     tf_set_oneshot_ms = (\<lambda>now fd ms. if ms = 0 then None else Some (now + unat ms * 1000000)),
     tf_read = (\<lambda>now fd. case fd of None \<Rightarrow> (0, None) | Some e \<Rightarrow> if e \<le> now then (1, None) else (0, fd)) \<rparr>"

interpretation reft: oneshot_timer ref_timer id
  by unfold_locales (auto simp: ref_timer_def split: option.splits)

section \<open>Properties\<close>

text \<open>
  C14. Creating a bucket. A zero size or refill time disables limiting; a refill time whose
  nanoseconds do not fit into 64 bits aborts; otherwise the bucket is full, satisfies the invariant,
  and the tokens it computes for an elapsed time are those of the configured rate, rounded down.
\<close>

theorem TokenBucket_new_rate:
  "case TokenBucket_new now sz burst rt of
     None \<Rightarrow> sz \<noteq> 0 \<and> 2 ^ 64 \<le> unat rt * 1000000
   | Some None \<Rightarrow> sz = 0 \<or> rt = 0
   | Some (Some b) \<Rightarrow> bucket_ok b \<and> tb_size b = sz \<and> budget b = sz \<and> one_time_burst b = burst \<and>
       last_update b = now \<and> refill_time b = rt \<and>
       (d * unat (processed_capacity b)) div unat (processed_refill_time b) = (d * unat sz) div (unat rt * 1000000)"
proof (cases "TokenBucket_new now sz burst rt")
  case None
  then show ?thesis using TokenBucket_new_rate_cases(2) [OF None] by simp
next
  case (Some r)
  show ?thesis
  proof (cases r)
    case None
    with Some TokenBucket_new_rate_cases(1) [of now sz burst rt] show ?thesis by simp
  next
    case (Some b)
    with \<open>_ = Some r\<close> have b: "TokenBucket_new now sz burst rt = Some (Some b)" by simp
    show ?thesis
      using b TokenBucket_new_fields [OF b] TokenBucket_new_ok [OF b] refill_exact [OF TokenBucket_new_ok [OF b], of d]
      by (simp add: refill_ns_def)
  qed
qed

text \<open>A sequence of requests \<open>(t1, t2, tokens)\<close> to one bucket; the sum of what was granted.\<close>

fun run_reduce :: "TokenBucket \<Rightarrow> (nat \<times> nat \<times> u64) list \<Rightarrow> (TokenBucket \<times> nat) option" where
  "run_reduce b [] = Some (b, 0)"
| "run_reduce b ((t1, t2, tokens) # rs) = do {
     (b', out) \<leftarrow> reduce t1 t2 b tokens;
     (b'', n) \<leftarrow> run_reduce b' rs;
     Some (b'', granted tokens out + n)
   }"

fun ascending :: "nat \<Rightarrow> (nat \<times> nat \<times> u64) list \<Rightarrow> nat \<Rightarrow> bool" where
  "ascending t [] t' \<longleftrightarrow> t \<le> t'"
| "ascending t ((t1, t2, tokens) # rs) t' \<longleftrightarrow> t \<le> t1 \<and> t1 \<le> t2 \<and> ascending t2 rs t'"

lemma ascending_le: "ascending t rs t' \<Longrightarrow> s \<le> t \<Longrightarrow> ascending s rs t'"
  by (cases rs) auto

lemma ascending_bound: "ascending t rs t' \<Longrightarrow> t \<le> t'"
  by (induction t rs t' rule: ascending.induct) auto

text \<open>
  C15. The limit is enforced. Whatever sequence of requests of at most the bucket size is made, the
  tokens granted until an instant never exceed the initial burst and budget plus the configured
  rate times the elapsed time.
\<close>

theorem rate_bound:
  assumes "bucket_ok b" and "run_reduce b rs = Some (b', n)" and "ascending (last_update b) rs t"
    and "list_all (\<lambda>(t1, t2, tokens). tokens \<le> tb_size b) rs"
  shows "n * refill_ns b \<le> credit b * refill_ns b + (t - last_update b) * unat (tb_size b)"
proof -
  have "(n + credit b') * refill_ns b \<le> credit b * refill_ns b + (t - last_update b) * unat (tb_size b)"
    using assms
  proof (induction rs arbitrary: b n)
    case (Cons r rs)
    obtain t1 t2 tok where r: "r = (t1, t2, tok)" by (cases r)
    from Cons.prems(2) r obtain c out k where c: "reduce t1 t2 b tok = Some (c, out)"
      "run_reduce c rs = Some (b', k)" "n = granted tok out + k"
      by (auto elim!: bindE split: prod.split_asm)
    from Cons.prems r have "reduce_sound t2 b tok c out"
      by (intro reduce_reduce_sound [OF c(1)]) simp_all
    then have s: "bucket_ok c" "tb_size c = tb_size b" "refill_ns c = refill_ns b"
      "last_update b \<le> last_update c" "last_update c \<le> t2"
      "(granted tok out + credit c) * refill_ns b \<le> credit b * refill_ns b + (last_update c - last_update b) * unat (tb_size b)"
      by (simp_all add: reduce_sound_def)
    have asc: "ascending (last_update c) rs t"
      using Cons.prems(3) r s(5) by (auto intro: ascending_le)
    have le: "last_update c \<le> t"
      using asc by (rule ascending_bound)
    have "(k + credit b') * refill_ns c \<le> credit c * refill_ns c + (t - last_update c) * unat (tb_size c)"
      using Cons.prems(4) s r by (intro Cons.IH [OF s(1) c(2) asc]) simp
    moreover have "(last_update c - last_update b) * unat (tb_size b) + (t - last_update c) * unat (tb_size b)
        = (t - last_update b) * unat (tb_size b)"
      using s(4) le by (simp add: add_mult_distrib [symmetric])
    ultimately show ?case using s c(3) by (simp add: add_mult_distrib)
  qed simp
  then show ?thesis by (simp add: add_mult_distrib)
qed

definition ex_bucket :: TokenBucket where
  "ex_bucket = \<lparr> tb_size = 1000, initial_one_time_burst = 0, refill_time = 100, one_time_burst = 0, budget = 999,
     last_update = 0, processed_capacity = 1, processed_refill_time = 100000 \<rparr>"

lemma ex_bucket_ok: "bucket_ok ex_bucket"
  by (simp add: bucket_ok_def ex_bucket_def refill_ns_def)

theorem rate_bound_witness:
  "\<exists>b'. run_reduce ex_bucket [(0, 0, 900), (10000000, 10000000, 150)] = Some (b', 1050) \<and>
     1050 * 100000000 \<le> 999 * 100000000 + 10000000 * (1000::nat)"
proof -
  have "\<exists>b'. run_reduce ex_bucket [(0, 0, 900), (10000000, 10000000, 150)] = Some (b', 1050)"
    by (simp add: ex_bucket_def reduce_def reduce_budget_def auto_replenish_def rust_defs div_c_def granted_def min_def)
  then obtain b' where r: "run_reduce ex_bucket [(0, 0, 900), (10000000, 10000000, 150)] = Some (b', 1050)" ..
  from rate_bound [OF ex_bucket_ok r, of 10000000] r show ?thesis
    by (simp add: ex_bucket_def refill_ns_def credit_def)
qed

text \<open>
  C16. Blocking. A request that fails for lack of tokens blocks the limiter: every further request
  of either type is refused without touching the buckets, and the event handler unblocks it exactly
  from 100 ms on.
\<close>

theorem limiter_blocks:
  assumes "oneshot_timer T expiry" and "\<not> timer_active r" and "consume T t1 t2 r tokens ty = Some (False, r')"
  shows "is_blocked r' \<and> (\<forall>t t' n ty'. consume T t t' r' n ty' = Some (False, r')) \<and>
    (\<forall>t. is_blocked (snd (event_handler T t r')) = (t < t2 + 100000000)) \<and>
    (ty = Bytes \<longrightarrow> ops r' = ops r) \<and> (ty = Ops \<longrightarrow> bandwidth r' = bandwidth r)"
proof -
  from assms(2,3) obtain b b' where "r' = activate_timer T t2 (put_bucket r ty b') REFILL_TIMER_INTERVAL_MS"
    by (auto simp: consume_def Let_def elim!: bindE split: option.split_asm BucketReduction.split_asm)
  then have a: "timer_active r'" "timer_fd r' = tf_set_oneshot_ms T t2 (timer_fd r) 100"
    "ty = Bytes \<longrightarrow> ops r' = ops r" "ty = Ops \<longrightarrow> bandwidth r' = bandwidth r"
    by (cases ty; simp add: activate_timer_def REFILL_TIMER_INTERVAL_MS_def)+
  have "expiry (timer_fd r') = Some (t2 + 100000000)"
    using oneshot_timer.set_expiry [OF assms(1)] a(2) by simp
  then have "is_blocked (snd (event_handler T t r')) = (t < t2 + 100000000)" for t
    using oneshot_timer.event_handler_unblocks [OF assms(1) a(1), of t]
    by (metis is_blocked_def not_le option.inject prod.collapse)
  with a show ?thesis by (simp add: is_blocked_def consume_def)
qed

definition ex_limiter :: "nat option RateLimiter" where
  "ex_limiter = \<lparr> bandwidth = Some ex_bucket, ops = None, timer_fd = None, timer_active = False \<rparr>"

theorem limiter_blocks_witness:
  "\<exists>r'. consume ref_timer 0 5 (ex_limiter\<lparr>bandwidth := Some (ex_bucket\<lparr>budget := 7\<rparr>)\<rparr>) 10 Bytes = Some (False, r') \<and>
     is_blocked (snd (event_handler ref_timer 100000004 r')) \<and> \<not> is_blocked (snd (event_handler ref_timer 100000005 r'))"
proof -
  let ?r = "ex_limiter\<lparr>bandwidth := Some (ex_bucket\<lparr>budget := 7\<rparr>)\<rparr>"
  have "\<exists>r'. consume ref_timer 0 5 ?r 10 Bytes = Some (False, r')"
    by (simp add: consume_def ex_limiter_def ex_bucket_def reduce_def reduce_budget_def auto_replenish_def rust_defs div_c_def min_def)
  then obtain r' where r: "consume ref_timer 0 5 ?r 10 Bytes = Some (False, r')" ..
  have "\<not> timer_active ?r" by (simp add: ex_limiter_def)
  from limiter_blocks [OF reft.oneshot_timer_axioms this r] r show ?thesis by auto
qed

text \<open>Restoring a bucket: the clock restarts, the elapsed time does not.\<close>

definition restored :: "nat \<Rightarrow> nat \<Rightarrow> TokenBucket \<Rightarrow> TokenBucket" where
  "restored t t' b = b\<lparr>initial_one_time_burst := one_time_burst b, last_update := t' - (t - last_update b)\<rparr>"

definition restorable :: "nat \<Rightarrow> nat \<Rightarrow> TokenBucket \<Rightarrow> bool" where
  "restorable t t' b \<longleftrightarrow> bucket_ok b \<and> t - last_update b < 2 ^ 64 \<and> t - last_update b \<le> t'"

lemma lowest_terms_unique:
  fixes a b c d s n :: nat
  assumes "coprime a b" "coprime c d" "a * n = s * b" "c * n = s * d" "s \<noteq> 0" "n \<noteq> 0" "b \<noteq> 0" "d \<noteq> 0"
  shows "a = c" "b = d"
proof -
  have "a * d * (n * s) = c * b * (n * s)" using assms(3,4) by (metis mult.commute mult.left_commute)
  then have e: "a * d = c * b" using assms(5,6) by simp
  then have "b dvd d" using assms(1) by (metis coprime_commute coprime_dvd_mult_right_iff dvd_triv_right)
  moreover have "d dvd b" using e assms(2) by (metis coprime_commute coprime_dvd_mult_right_iff dvd_triv_right)
  ultimately show "b = d" by (rule dvd_antisym)
  with e assms(7) show "a = c" by simp
qed

lemma TokenBucket_restore_save:
  assumes "restorable t t' b"
  shows "TokenBucket_restore t' n (TokenBucket_save t b) = Some (Inr (restored t t' b))"
proof -
  have ok: "bucket_ok b" using assms by (simp add: restorable_def)
  have c: "TokenBucket_new n (tb_size b) (one_time_burst b) (refill_time b) \<noteq> None"
    "TokenBucket_new n (tb_size b) (one_time_burst b) (refill_time b) \<noteq> Some None"
    using TokenBucket_new_rate_cases [of n "tb_size b" "one_time_burst b" "refill_time b"] ok
    by (auto simp: bucket_ok_def refill_ns_def)
  then obtain c where c: "TokenBucket_new n (tb_size b) (one_time_burst b) (refill_time b) = Some (Some c)" by auto
  note cf = TokenBucket_new_fields [OF c] and cok = TokenBucket_new_ok [OF c]
  have n0: "unat (refill_time b) * 1000000 \<noteq> 0" "unat (tb_size b) \<noteq> 0"
    using ok by (simp_all add: bucket_ok_def unat_eq_0)
  have "processed_capacity c = processed_capacity b" "processed_refill_time c = processed_refill_time b"
    using lowest_terms_unique [of "unat (processed_capacity c)" "unat (processed_refill_time c)"
        "unat (processed_capacity b)" "unat (processed_refill_time b)" "unat (refill_time b) * 1000000" "unat (tb_size b)"]
      ok cok cf n0 by (simp_all add: bucket_ok_def refill_ns_def word_unat_eq_iff)
  then have "c\<lparr>budget := budget b, last_update := t' - (t - last_update b)\<rparr> = restored t t' b"
    using cf by (simp add: restored_def)
  moreover have "unat (of_nat (t - last_update b) :: u64) = t - last_update b"
    using assms by (simp add: restorable_def)
  ultimately show ?thesis
    using c assms by (simp add: TokenBucket_restore_def TokenBucket_save_def restorable_def Let_def)
qed

text \<open>
  C17. Snapshots of the limiter. Restoring what was saved gives both buckets back with their size,
  refill time, remaining burst, budget and rate, and with as much time elapsed since their last
  update as when they were saved, although the clock of the new process differs.
\<close>

theorem limiter_restore_save:
  assumes "pred_option (restorable t1 t1') (ops r)" and "pred_option (restorable t2 t2') (bandwidth r)"
    and "tf_new T = Inr fd"
  shows "RateLimiter_restore T (t1', n1) (t2', n2) (RateLimiter_save t1 t2 r) =
    Some (Inr \<lparr> bandwidth = map_option (restored t2 t2') (bandwidth r), ops = map_option (restored t1 t1') (ops r),
      timer_fd = fd, timer_active = False \<rparr>)"
  using assms by (cases "ops r"; cases "bandwidth r")
    (simp_all add: RateLimiter_restore_def RateLimiter_save_def TokenBucket_restore_save)

theorem limiter_restore_save_witness:
  "RateLimiter_restore ref_timer (5, 5) (7, 7) (RateLimiter_save 4 4 ex_limiter) =
    Some (Inr \<lparr> bandwidth = Some (ex_bucket\<lparr>last_update := 3\<rparr>), ops = None, timer_fd = None, timer_active = False \<rparr>)"
  using limiter_restore_save [of 4 5 ex_limiter 4 7 ref_timer None 5 7] ex_bucket_ok
  by (simp add: ex_limiter_def ref_timer_def restorable_def restored_def ex_bucket_def)

section \<open>Corner cases of the code\<close>

text \<open>
  An over-consumption whose debt is below one millisecond arms the timer with a zero duration,
  which disarms it: the limiter stays blocked for ever.
\<close>

lemma f64_round_examples:
  "f64_round 1 = 1" "f64_round 1000 = 1000" "f64_round 100 = 100"
  "f64_round (1 / 1000) = 1152921504606847 / 1152921504606846976"
proof -
  have e: "exponent 1000 = 9" "exponent 1 = 0" "exponent 100 = 6" "exponent (1 / 1000) = - 10"
    by (simp_all add: exponent_def compute_floorlog)
  show "f64_round 1 = 1" "f64_round 1000 = 1000" "f64_round 100 = 100"
    by (simp_all add: f64_round_def e round_half_even_def power_int_def power_divide Let_def)
  have "\<lfloor>576460752303423488 / 125 :: rat\<rfloor> = 4611686018427387" by (simp add: floor_eq_iff)
  then show "f64_round (1 / 1000) = 1152921504606847 / 1152921504606846976"
    by (simp add: f64_round_def e round_half_even_def power_int_def power_divide Let_def)
qed

lemma debt_rounds_to_zero: "u64_of_f64 (f64_mul (f64_div 1 1000) 100) = 0"
proof -
  let ?x = "28823037615171175 / 288230376151711744 :: rat"
  have "\<lceil>288230376151711744 / 28823037615171175 :: rat\<rceil> = 10" by (simp add: ceiling_eq_iff)
  then have e: "exponent ?x = - 4" by (simp add: exponent_def compute_floorlog)
  have f: "\<lfloor>28823037615171175 / 4 :: rat\<rfloor> = 7205759403792793"
    "\<lfloor>3602879701896397 / 36028797018963968 :: rat\<rfloor> = 0" by (simp_all add: floor_eq_iff)
  with e show ?thesis
    by (simp add: f64_mul_def f64_div_def f64_round_examples u64_of_f64_def f64_round_def [of ?x]
        round_half_even_def power_int_def power_divide Let_def)
qed

lemma overconsumption_blocks_forever:
  "\<exists>r'. consume ref_timer 0 0 (ex_limiter\<lparr>bandwidth := Some (ex_bucket\<lparr>budget := 1000\<rparr>)\<rparr>) 1001 Bytes = Some (True, r') \<and>
     is_blocked r' \<and> (\<forall>t. event_handler ref_timer t r' = (Inl SpuriousRateLimiterEvent, r'))"
proof -
  let ?b = "ex_bucket\<lparr>budget := 1000\<rparr>"
  have r: "reduce 0 0 ?b 1001 = Some (?b\<lparr>budget := 0\<rparr>, OverConsumption (f64_div 1 1000))"
    by (simp add: ex_bucket_def reduce_def reduce_budget_def auto_replenish_def rust_defs div_c_def min_def
        f64_of_u64_def f64_round_examples)
  have m: "u64_of_f64 (f64_mul (f64_div 1 1000) (f64_of_u64 (refill_time ex_bucket))) = 0"
    using debt_rounds_to_zero by (simp add: ex_bucket_def f64_of_u64_def f64_round_examples)
  show ?thesis
    unfolding consume_def ex_limiter_def
    by (simp add: r m activate_timer_def ref_timer_def event_handler_def is_blocked_def)
qed

text \<open>The product of the elapsed time and the pre-processed capacity can leave 64 bits within seconds.\<close>

lemma replenish_overflow:
  "\<exists>b. TokenBucket_new 0 1000000007 0 1000 = Some (Some b) \<and> auto_replenish 20000000000 20000000000 b = None"
  by (simp add: TokenBucket_new_def auto_replenish_def NANOSEC_IN_ONE_MILLISEC_def rust_defs div_c_def
      gcd_u64.simps Let_def)

text \<open>A request that fails still uses up the one-time burst.\<close>

lemma failure_drops_burst:
  "reduce 0 0 (ex_bucket\<lparr>one_time_burst := 5, budget := 0\<rparr>) 12 =
     Some (ex_bucket\<lparr>one_time_burst := 0, budget := 0\<rparr>, Failure)"
  by (simp add: ex_bucket_def reduce_def reduce_budget_def auto_replenish_def rust_defs div_c_def min_def)

end
