(* ===== verification/Seccomp.thy ===== *)
theory Seccomp
  imports Prelude
begin

text \<open>
  The seccomp filter compiler of \<open>src/firecracker/src/seccompiler\<close>: the intermediate
  representation and its translation into BPF (\<open>backend.rs\<close>), the validation of the JSON filters
  and their translation into the intermediate representation (\<open>compiler.rs\<close>). A \<^verbatim>\<open>BTreeMap\<close> is the
  list of its entries in key order. The BPF machine is the kernel's: the locale \<open>bpf_machine\<close> states
  what it does for the instructions the compiler emits, and \<open>bpf_run\<close> interprets it.
\<close>

section \<open>BPF instructions\<close>

definition BPF_LD :: u16 where "BPF_LD = 0x00"
definition BPF_ALU :: u16 where "BPF_ALU = 0x04"
definition BPF_JMP :: u16 where "BPF_JMP = 0x05"
definition BPF_RET :: u16 where "BPF_RET = 0x06"
definition BPF_W :: u16 where "BPF_W = 0x00"
definition BPF_ABS :: u16 where "BPF_ABS = 0x20"
definition BPF_AND :: u16 where "BPF_AND = 0x50"
definition BPF_JA :: u16 where "BPF_JA = 0x00"
definition BPF_JEQ :: u16 where "BPF_JEQ = 0x10"
definition BPF_JGT :: u16 where "BPF_JGT = 0x20"
definition BPF_JGE :: u16 where "BPF_JGE = 0x30"
definition BPF_K :: u16 where "BPF_K = 0x00"

lemmas bpf_codes = BPF_LD_def BPF_ALU_def BPF_JMP_def BPF_RET_def BPF_W_def BPF_ABS_def BPF_AND_def
  BPF_JA_def BPF_JEQ_def BPF_JGT_def BPF_JGE_def BPF_K_def

definition SECCOMP_RET_ALLOW :: u32 where "SECCOMP_RET_ALLOW = 0x7fff0000"
definition SECCOMP_RET_ERRNO :: u32 where "SECCOMP_RET_ERRNO = 0x00050000"
definition SECCOMP_RET_KILL_THREAD :: u32 where "SECCOMP_RET_KILL_THREAD = 0"
definition SECCOMP_RET_KILL_PROCESS :: u32 where "SECCOMP_RET_KILL_PROCESS = 0x80000000"
definition SECCOMP_RET_LOG :: u32 where "SECCOMP_RET_LOG = 0x7ffc0000"
definition SECCOMP_RET_TRACE :: u32 where "SECCOMP_RET_TRACE = 0x7ff00000"
definition SECCOMP_RET_TRAP :: u32 where "SECCOMP_RET_TRAP = 0x00030000"
definition SECCOMP_RET_MASK :: u32 where "SECCOMP_RET_MASK = 0xffff"

definition AUDIT_ARCH_X86_64 :: u32 where "AUDIT_ARCH_X86_64 = 62 OR 0x80000000 OR 0x40000000"
definition AUDIT_ARCH_AARCH64 :: u32 where "AUDIT_ARCH_AARCH64 = 183 OR 0x80000000 OR 0x40000000"

definition ARG_NUMBER_MAX :: u8 where "ARG_NUMBER_MAX = 5"
definition CONDITION_MAX_LEN :: u8 where "CONDITION_MAX_LEN = 6"
definition SECCOMP_DATA_NR_OFFSET :: u8 where "SECCOMP_DATA_NR_OFFSET = 0"
definition SECCOMP_DATA_ARGS_OFFSET :: u8 where "SECCOMP_DATA_ARGS_OFFSET = 16"
definition SECCOMP_DATA_ARG_SIZE :: u8 where "SECCOMP_DATA_ARG_SIZE = 8"
definition BPF_MAX_LEN :: nat where "BPF_MAX_LEN = 4096"

record sock_filter =
  sf_code :: u16
  sf_jt :: u8
  sf_jf :: u8
  sf_k :: u32

type_synonym BpfProgram = "sock_filter list"

definition BPF_JUMP :: "u16 \<Rightarrow> u32 \<Rightarrow> u8 \<Rightarrow> u8 \<Rightarrow> sock_filter" where
  "BPF_JUMP code k jt jf = \<lparr> sf_code = code, sf_jt = jt, sf_jf = jf, sf_k = k \<rparr>"

definition BPF_STMT :: "u16 \<Rightarrow> u32 \<Rightarrow> sock_filter" where
  "BPF_STMT code k = \<lparr> sf_code = code, sf_jt = 0, sf_jf = 0, sf_k = k \<rparr>"

section \<open>Intermediate representation\<close>

datatype TargetArch = x86_64 | aarch64

fun get_audit_value :: "TargetArch \<Rightarrow> u32" where
  "get_audit_value x86_64 = AUDIT_ARCH_X86_64"
| "get_audit_value aarch64 = AUDIT_ARCH_AARCH64"

datatype SeccompError =
  EmptyRulesVector | FilterTooLarge | InvalidArgumentNumber | InvalidArch string | ConflictingRules int

fun TargetArch_to_string :: "TargetArch \<Rightarrow> string" where
  "TargetArch_to_string x86_64 = ''x86_64''"
| "TargetArch_to_string aarch64 = ''aarch64''"

text \<open>\<^verbatim>\<open>to_lowercase\<close>, on the ASCII letters that the architecture names use.\<close>

definition ascii_lower :: "string \<Rightarrow> string" where
  "ascii_lower s = map (\<lambda>c. if 65 \<le> (of_char c :: nat) \<and> (of_char c :: nat) \<le> 90 then char_of ((of_char c :: nat) + 32) else c) s"

definition TargetArch_try_into :: "string \<Rightarrow> SeccompError + TargetArch" where
  "TargetArch_try_into s =
     (if ascii_lower s = ''x86_64'' then Inr x86_64
      else if ascii_lower s = ''aarch64'' then Inr aarch64
      else Inl (InvalidArch s))"

datatype SeccompCmpOp = Eq | Ge | Gt | Le | Lt | MaskedEq u64 | Ne

datatype SeccompCmpArgLen = Dword | Qword

record SeccompCondition =
  arg_number :: u8
  arg_len :: SeccompCmpArgLen
  operator :: SeccompCmpOp
  cond_value :: u64

datatype SeccompAction = Allow | Errno u32 | KillThread | KillProcess | Log | Trace u32 | Trap

record SeccompRule =
  conditions :: "SeccompCondition list"
  rule_action :: SeccompAction

type_synonym SeccompRuleMap = "(int \<times> SeccompRule list) list"

record SeccompFilter =
  filter_rules :: SeccompRuleMap
  default_action :: SeccompAction
  target_arch :: TargetArch

definition condition_validate :: "SeccompCondition \<Rightarrow> SeccompError + unit" where
  "condition_validate c = (if arg_number c > ARG_NUMBER_MAX then Inl InvalidArgumentNumber else Inr ())"

definition value_segments :: "SeccompCondition \<Rightarrow> (u32 \<times> u32 \<times> u8 \<times> u8) option" where
  "value_segments c = do {
     let msb = (ucast (drop_bit 32 (cond_value c)) :: u32);
     let lsb = (ucast (cond_value c) :: u32);
     a \<leftarrow> mul_c (arg_number c) SECCOMP_DATA_ARG_SIZE;
     arg_offset \<leftarrow> add_c SECCOMP_DATA_ARGS_OFFSET a;
     msb_offset \<leftarrow> add_c arg_offset (SECCOMP_DATA_ARG_SIZE div 2);
     Some (msb, lsb, msb_offset, arg_offset)
   }"

abbreviation "LOAD off \<equiv> BPF_STMT (BPF_LD + BPF_W + BPF_ABS) (ucast (off :: u8))"

definition into_eq_bpf :: "SeccompCondition \<Rightarrow> u8 \<Rightarrow> BpfProgram option" where
  "into_eq_bpf c offset = do {
     (msb, lsb, msb_offset, lsb_offset) \<leftarrow> value_segments c;
     bpf \<leftarrow> (case arg_len c of
        Dword \<Rightarrow> Some []
      | Qword \<Rightarrow> do {
          o2 \<leftarrow> add_c offset 2;
          Some [LOAD msb_offset, BPF_JUMP (BPF_JMP + BPF_JEQ + BPF_K) msb 0 o2]
        });
     Some (bpf @ [LOAD lsb_offset, BPF_JUMP (BPF_JMP + BPF_JEQ + BPF_K) lsb 0 offset])
   }"

definition into_ge_bpf :: "SeccompCondition \<Rightarrow> u8 \<Rightarrow> BpfProgram option" where
  "into_ge_bpf c offset = do {
     (msb, lsb, msb_offset, lsb_offset) \<leftarrow> value_segments c;
     bpf \<leftarrow> (case arg_len c of
        Dword \<Rightarrow> Some []
      | Qword \<Rightarrow> do {
          o2 \<leftarrow> add_c offset 2;
          Some [LOAD msb_offset, BPF_JUMP (BPF_JMP + BPF_JGT + BPF_K) msb 3 0,
                BPF_JUMP (BPF_JMP + BPF_JEQ + BPF_K) msb 0 o2]
        });
     Some (bpf @ [LOAD lsb_offset, BPF_JUMP (BPF_JMP + BPF_JGE + BPF_K) lsb 0 offset])
   }"

definition into_gt_bpf :: "SeccompCondition \<Rightarrow> u8 \<Rightarrow> BpfProgram option" where
  "into_gt_bpf c offset = do {
     (msb, lsb, msb_offset, lsb_offset) \<leftarrow> value_segments c;
     bpf \<leftarrow> (case arg_len c of
        Dword \<Rightarrow> Some []
      | Qword \<Rightarrow> do {
          o2 \<leftarrow> add_c offset 2;
          Some [LOAD msb_offset, BPF_JUMP (BPF_JMP + BPF_JGT + BPF_K) msb 3 0,
                BPF_JUMP (BPF_JMP + BPF_JEQ + BPF_K) msb 0 o2]
        });
     Some (bpf @ [LOAD lsb_offset, BPF_JUMP (BPF_JMP + BPF_JGT + BPF_K) lsb 0 offset])
   }"

definition into_le_bpf :: "SeccompCondition \<Rightarrow> u8 \<Rightarrow> BpfProgram option" where
  "into_le_bpf c offset = do {
     (msb, lsb, msb_offset, lsb_offset) \<leftarrow> value_segments c;
     bpf \<leftarrow> (case arg_len c of
        Dword \<Rightarrow> Some []
      | Qword \<Rightarrow> do {
          o3 \<leftarrow> add_c offset 3;
          Some [LOAD msb_offset, BPF_JUMP (BPF_JMP + BPF_JGT + BPF_K) msb o3 0,
                BPF_JUMP (BPF_JMP + BPF_JEQ + BPF_K) msb 0 2]
        });
     Some (bpf @ [LOAD lsb_offset, BPF_JUMP (BPF_JMP + BPF_JGT + BPF_K) lsb offset 0])
   }"

definition into_lt_bpf :: "SeccompCondition \<Rightarrow> u8 \<Rightarrow> BpfProgram option" where
  "into_lt_bpf c offset = do {
     (msb, lsb, msb_offset, lsb_offset) \<leftarrow> value_segments c;
     bpf \<leftarrow> (case arg_len c of
        Dword \<Rightarrow> Some []
      | Qword \<Rightarrow> do {
          o3 \<leftarrow> add_c offset 3;
          Some [LOAD msb_offset, BPF_JUMP (BPF_JMP + BPF_JGT + BPF_K) msb o3 0,
                BPF_JUMP (BPF_JMP + BPF_JEQ + BPF_K) msb 0 2]
        });
     Some (bpf @ [LOAD lsb_offset, BPF_JUMP (BPF_JMP + BPF_JGE + BPF_K) lsb offset 0])
   }"

definition into_masked_eq_bpf :: "SeccompCondition \<Rightarrow> u8 \<Rightarrow> u64 \<Rightarrow> BpfProgram option" where
  "into_masked_eq_bpf c offset msk = do {
     (_, _, msb_offset, lsb_offset) \<leftarrow> value_segments c;
     let masked_value = cond_value c AND msk;
     let msb = (ucast (drop_bit 32 masked_value) :: u32);
     let lsb = (ucast masked_value :: u32);
     let mask_msb = (ucast (drop_bit 32 msk) :: u32);
     let mask_lsb = (ucast msk :: u32);
     bpf \<leftarrow> (case arg_len c of
        Dword \<Rightarrow> Some []
      | Qword \<Rightarrow> do {
          o3 \<leftarrow> add_c offset 3;
          Some [LOAD msb_offset, BPF_STMT (BPF_ALU + BPF_AND + BPF_K) mask_msb,
                BPF_JUMP (BPF_JMP + BPF_JEQ + BPF_K) msb 0 o3]
        });
     Some (bpf @ [LOAD lsb_offset, BPF_STMT (BPF_ALU + BPF_AND + BPF_K) mask_lsb,
                  BPF_JUMP (BPF_JMP + BPF_JEQ + BPF_K) lsb 0 offset])
   }"

definition into_ne_bpf :: "SeccompCondition \<Rightarrow> u8 \<Rightarrow> BpfProgram option" where
  "into_ne_bpf c offset = do {
     (msb, lsb, msb_offset, lsb_offset) \<leftarrow> value_segments c;
     let bpf = (case arg_len c of
        Dword \<Rightarrow> []
      | Qword \<Rightarrow> [LOAD msb_offset, BPF_JUMP (BPF_JMP + BPF_JEQ + BPF_K) msb 0 2]);
     Some (bpf @ [LOAD lsb_offset, BPF_JUMP (BPF_JMP + BPF_JEQ + BPF_K) lsb offset 0])
   }"

definition into_bpf :: "SeccompCondition \<Rightarrow> u8 \<Rightarrow> BpfProgram option" where
  "into_bpf c offset = do {
     result \<leftarrow> (case operator c of
        Eq \<Rightarrow> into_eq_bpf c offset
      | Ge \<Rightarrow> into_ge_bpf c offset
      | Gt \<Rightarrow> into_gt_bpf c offset
      | Le \<Rightarrow> into_le_bpf c offset
      | Lt \<Rightarrow> into_lt_bpf c offset
      | MaskedEq msk \<Rightarrow> into_masked_eq_bpf c offset msk
      | Ne \<Rightarrow> into_ne_bpf c offset);
     _ \<leftarrow> assert_that (length result \<le> unat CONDITION_MAX_LEN);
     Some result
   }"

fun u32_of_action :: "SeccompAction \<Rightarrow> u32" where
  "u32_of_action Allow = SECCOMP_RET_ALLOW"
| "u32_of_action (Errno x) = SECCOMP_RET_ERRNO OR (x AND SECCOMP_RET_MASK)"
| "u32_of_action KillThread = SECCOMP_RET_KILL_THREAD"
| "u32_of_action KillProcess = SECCOMP_RET_KILL_PROCESS"
| "u32_of_action Log = SECCOMP_RET_LOG"
| "u32_of_action (Trace x) = SECCOMP_RET_TRACE OR (x AND SECCOMP_RET_MASK)"
| "u32_of_action Trap = SECCOMP_RET_TRAP"

section \<open>Rules\<close>

text \<open>The accumulator is a list of code blocks, last block first in the program.\<close>

definition append_condition ::
    "SeccompCondition \<Rightarrow> BpfProgram list \<Rightarrow> nat \<Rightarrow> u8 \<Rightarrow> (BpfProgram list \<times> nat \<times> u8) option" where
  "append_condition c accumulator rule_len offset = do {
     let (accumulator, rule_len, offset) =
       (if add_c offset (CONDITION_MAX_LEN + 1) = None
        then let helper_jumps =
               [BPF_STMT (BPF_JMP + BPF_JA) 2,
                BPF_STMT (BPF_JMP + BPF_JA) (ucast offset + 1),
                BPF_STMT (BPF_JMP + BPF_JA) (ucast offset + 1)]
             in (accumulator @ [helper_jumps], rule_len + length helper_jumps, 1)
        else (accumulator, rule_len, offset));
     condition \<leftarrow> into_bpf c offset;
     offset' \<leftarrow> add_c offset (of_nat (length condition));
     Some (accumulator @ [condition], rule_len + length condition, offset')
   }"

fun append_conditions ::
    "SeccompCondition list \<Rightarrow> BpfProgram list \<Rightarrow> nat \<Rightarrow> u8 \<Rightarrow> (BpfProgram list \<times> nat \<times> u8) option" where
  "append_conditions [] accumulator rule_len offset = Some (accumulator, rule_len, offset)"
| "append_conditions (c # cs) accumulator rule_len offset = do {
     (accumulator', rule_len', offset') \<leftarrow> append_condition c accumulator rule_len offset;
     append_conditions cs accumulator' rule_len' offset'
   }"

definition rule_into_bpf :: "SeccompRule \<Rightarrow> BpfProgram option" where
  "rule_into_bpf rule = do {
     (accumulator, rule_len, offset) \<leftarrow>
       append_conditions (conditions rule) [[BPF_STMT (BPF_RET + BPF_K) (u32_of_action (rule_action rule))]] 1 1;
     let rule_jumps = [BPF_STMT (BPF_JMP + BPF_JA) 1, BPF_STMT (BPF_JMP + BPF_JA) (ucast offset + 1)];
     Some (concat (rev (accumulator @ [rule_jumps])))
   }"

section \<open>Filters\<close>

fun validate_chains :: "SeccompRuleMap \<Rightarrow> SeccompError + unit" where
  "validate_chains [] = Inr ()"
| "validate_chains ((syscall_number, syscall_rules) # rest) =
     (if syscall_rules = [] then Inl EmptyRulesVector
      else let n = length (filter (\<lambda>rule. conditions rule = []) syscall_rules) in
        if n = 1 \<and> length syscall_rules > 1 then Inl (ConflictingRules syscall_number)
        else if n = 1 \<and> length syscall_rules \<le> 1 then validate_chains rest
        else if n = 0 then validate_chains rest
        else Inl (ConflictingRules syscall_number))"

definition SeccompFilter_new :: "SeccompRuleMap \<Rightarrow> SeccompAction \<Rightarrow> string \<Rightarrow> SeccompError + SeccompFilter" where
  "SeccompFilter_new rules action arch =
     (case TargetArch_try_into arch of
        Inl e \<Rightarrow> Inl e
      | Inr a \<Rightarrow>
          (case validate_chains rules of
             Inl e \<Rightarrow> Inl e
           | Inr _ \<Rightarrow> Inr \<lparr> filter_rules = rules, default_action = action, target_arch = a \<rparr>))"

fun rules_into_bpf :: "SeccompRule list \<Rightarrow> BpfProgram list option" where
  "rules_into_bpf [] = Some []"
| "rules_into_bpf (r # rs) = do {
     b \<leftarrow> rule_into_bpf r;
     bs \<leftarrow> rules_into_bpf rs;
     Some (b # bs)
   }"

definition append_syscall_chain ::
    "int \<Rightarrow> SeccompRule list \<Rightarrow> u32 \<Rightarrow> BpfProgram list \<Rightarrow> nat \<Rightarrow> (SeccompError + BpfProgram list \<times> nat) option" where
  "append_syscall_chain syscall_number chain def_action accumulator filter_len = do {
     blocks \<leftarrow> rules_into_bpf chain;
     let built_syscall = BPF_JUMP (BPF_JMP + BPF_JEQ + BPF_K) (of_int syscall_number) 0 1 # concat blocks
           @ [BPF_STMT (BPF_RET + BPF_K) def_action];
     let filter_len' = filter_len + length built_syscall;
     Some (if filter_len' \<ge> BPF_MAX_LEN then Inl FilterTooLarge
           else Inr (accumulator @ [built_syscall], filter_len'))
   }"

fun append_chains ::
    "SeccompRuleMap \<Rightarrow> u32 \<Rightarrow> BpfProgram list \<Rightarrow> nat \<Rightarrow> (SeccompError + BpfProgram list \<times> nat) option" where
  "append_chains [] def_action accumulator filter_len = Some (Inr (accumulator, filter_len))"
| "append_chains ((nr, chain) # rest) def_action accumulator filter_len = do {
     r \<leftarrow> append_syscall_chain nr chain def_action accumulator filter_len;
     (case r of
        Inl e \<Rightarrow> Some (Inl e)
      | Inr (accumulator', filter_len') \<Rightarrow> append_chains rest def_action accumulator' filter_len')
   }"

definition VALIDATE_ARCHITECTURE :: "TargetArch \<Rightarrow> BpfProgram" where
  "VALIDATE_ARCHITECTURE arch =
     [BPF_STMT (BPF_LD + BPF_W + BPF_ABS) 4,
      BPF_JUMP (BPF_JMP + BPF_JEQ + BPF_K) (get_audit_value arch) 1 0,
      BPF_STMT (BPF_RET + BPF_K) SECCOMP_RET_KILL_PROCESS]"

definition EXAMINE_SYSCALL :: BpfProgram where
  "EXAMINE_SYSCALL = [BPF_STMT (BPF_LD + BPF_W + BPF_ABS) (ucast SECCOMP_DATA_NR_OFFSET)]"

definition filter_into_bpf :: "SeccompFilter \<Rightarrow> (SeccompError + BpfProgram) option" where
  "filter_into_bpf f =
     (let result = VALIDATE_ARCHITECTURE (target_arch f); def_action = u32_of_action (default_action f) in
      if filter_rules f = [] then Some (Inr (result @ [BPF_STMT (BPF_RET + BPF_K) def_action]))
      else do {
        r \<leftarrow> append_chains (filter_rules f) def_action [EXAMINE_SYSCALL] 1;
        (case r of
           Inl e \<Rightarrow> Some (Inl e)
         | Inr (accumulator, filter_len) \<Rightarrow>
             let prog = result @ concat (accumulator @ [[BPF_STMT (BPF_RET + BPF_K) def_action]]) in
             Some (if length prog \<ge> BPF_MAX_LEN then Inl FilterTooLarge else Inr prog))
      })"

section \<open>JSON filters\<close>

datatype CompilerError = IdenticalActions | SeccompFilterError SeccompError | SyscallName string TargetArch

record SyscallRule =
  sr_syscall :: string
  sr_conditions :: "SeccompCondition list option"

record Filter =
  f_default_action :: SeccompAction
  f_filter_action :: SeccompAction
  f_filter :: "SyscallRule list"

fun first_error :: "('e + unit) list \<Rightarrow> 'e + unit" where
  "first_error [] = Inr ()"
| "first_error (Inl e # rs) = Inl e"
| "first_error (Inr _ # rs) = first_error rs"

definition SyscallRule_validate :: "SyscallRule \<Rightarrow> CompilerError + unit" where
  "SyscallRule_validate r =
     (case sr_conditions r of
        Some cs \<Rightarrow> map_sum SeccompFilterError id (first_error (map condition_validate cs))
      | None \<Rightarrow> Inr ())"

definition Filter_validate :: "Filter \<Rightarrow> CompilerError + unit" where
  "Filter_validate f =
     (if f_default_action f = f_filter_action f then Inl IdenticalActions
      else first_error (map SyscallRule_validate (f_filter f)))"

definition validate_filters :: "(string \<times> Filter) list \<Rightarrow> CompilerError + unit" where
  "validate_filters fs = first_error (map (\<lambda>(_, f). Filter_validate f) fs)"

text \<open>\<^verbatim>\<open>entry(nr).or_insert_with(..)\<close> on the map in key order: \<open>upd\<close> changes the entry once it exists.\<close>

fun entry_or_insert :: "int \<Rightarrow> SeccompRule list \<Rightarrow> (SeccompRule list \<Rightarrow> SeccompRule list) \<Rightarrow> SeccompRuleMap \<Rightarrow> SeccompRuleMap" where
  "entry_or_insert nr new upd [] = [(nr, upd new)]"
| "entry_or_insert nr new upd ((k, rs) # m) =
     (if nr = k then (k, upd rs) # m
      else if nr < k then (nr, upd new) # (k, rs) # m
      else (k, rs) # entry_or_insert nr new upd m)"

fun add_syscall_rules ::
    "(string \<Rightarrow> int option) \<Rightarrow> TargetArch \<Rightarrow> SeccompAction \<Rightarrow> SyscallRule list \<Rightarrow> SeccompRuleMap \<Rightarrow> CompilerError + SeccompRuleMap" where
  "add_syscall_rules get_syscall_nr arch action [] rule_map = Inr rule_map"
| "add_syscall_rules get_syscall_nr arch action (r # rs) rule_map =
     (case get_syscall_nr (sr_syscall r) of
        None \<Rightarrow> Inl (SyscallName (sr_syscall r) arch)
      | Some nr \<Rightarrow>
          let rule = (case sr_conditions r of
                Some cs \<Rightarrow> \<lparr> conditions = cs, rule_action = action \<rparr>
              | None \<Rightarrow> \<lparr> conditions = [], rule_action = action \<rparr>)
          in add_syscall_rules get_syscall_nr arch action rs
               (entry_or_insert nr [] (\<lambda>acc. acc @ [rule]) rule_map))"

fun add_basic_rules ::
    "(string \<Rightarrow> int option) \<Rightarrow> TargetArch \<Rightarrow> SeccompAction \<Rightarrow> SyscallRule list \<Rightarrow> SeccompRuleMap \<Rightarrow> CompilerError + SeccompRuleMap" where
  "add_basic_rules get_syscall_nr arch action [] rule_map = Inr rule_map"
| "add_basic_rules get_syscall_nr arch action (r # rs) rule_map =
     (case get_syscall_nr (sr_syscall r) of
        None \<Rightarrow> Inl (SyscallName (sr_syscall r) arch)
      | Some nr \<Rightarrow> add_basic_rules get_syscall_nr arch action rs
          (entry_or_insert nr [\<lparr> conditions = [], rule_action = action \<rparr>] id rule_map))"

definition make_seccomp_filter ::
    "(string \<Rightarrow> int option) \<Rightarrow> TargetArch \<Rightarrow> Filter \<Rightarrow> CompilerError + SeccompFilter" where
  "make_seccomp_filter get_syscall_nr arch f =
     (case add_syscall_rules get_syscall_nr arch (f_filter_action f) (f_filter f) [] of
        Inl e \<Rightarrow> Inl e
      | Inr rule_map \<Rightarrow> map_sum SeccompFilterError id
          (SeccompFilter_new rule_map (f_default_action f) (TargetArch_to_string arch)))"

definition make_basic_seccomp_filter ::
    "(string \<Rightarrow> int option) \<Rightarrow> TargetArch \<Rightarrow> Filter \<Rightarrow> CompilerError + SeccompFilter" where
  "make_basic_seccomp_filter get_syscall_nr arch f =
     (case add_basic_rules get_syscall_nr arch (f_filter_action f) (f_filter f) [] of
        Inl e \<Rightarrow> Inl e
      | Inr rule_map \<Rightarrow> map_sum SeccompFilterError id
          (SeccompFilter_new rule_map (f_default_action f) (TargetArch_to_string arch)))"

fun compile_filters ::
    "(string \<Rightarrow> int option) \<Rightarrow> TargetArch \<Rightarrow> bool \<Rightarrow> (string \<times> Filter) list \<Rightarrow> (CompilerError + (string \<times> BpfProgram) list) option" where
  "compile_filters get_syscall_nr arch is_basic [] = Some (Inr [])"
| "compile_filters get_syscall_nr arch is_basic ((thread_name, f) # fs) =
     (case (if is_basic then make_basic_seccomp_filter get_syscall_nr arch f
            else make_seccomp_filter get_syscall_nr arch f) of
        Inl e \<Rightarrow> Some (Inl e)
      | Inr sf \<Rightarrow> do {
          r \<leftarrow> filter_into_bpf sf;
          (case r of
             Inl e \<Rightarrow> Some (Inl (SeccompFilterError e))
           | Inr prog \<Rightarrow> do {
               rest \<leftarrow> compile_filters get_syscall_nr arch is_basic fs;
               Some (map_sum id (\<lambda>m. (thread_name, prog) # m) rest)
             })
        })"

definition compile_blob ::
    "(string \<Rightarrow> int option) \<Rightarrow> TargetArch \<Rightarrow> (string \<times> Filter) list \<Rightarrow> bool \<Rightarrow> (CompilerError + (string \<times> BpfProgram) list) option" where
  "compile_blob get_syscall_nr arch fs is_basic =
     (case validate_filters fs of
        Inl e \<Rightarrow> Some (Inl e)
      | Inr _ \<Rightarrow> compile_filters get_syscall_nr arch is_basic fs)"

section \<open>The BPF machine\<close>

text \<open>What a filter sees of a system call: \<^verbatim>\<open>struct seccomp_data\<close> of the kernel.\<close>

record seccomp_data =
  sd_nr :: u32
  sd_arch :: u32
  sd_ip :: u64
  sd_arg :: "nat \<Rightarrow> u64"

abbreviation lo32 :: "u64 \<Rightarrow> u32" where "lo32 w \<equiv> ucast w"
abbreviation hi32 :: "u64 \<Rightarrow> u32" where "hi32 w \<equiv> ucast (drop_bit 32 w)"

text \<open>The 32-bit word at a byte offset, little-endian; other offsets are refused by the kernel.\<close>

definition sd_word :: "seccomp_data \<Rightarrow> nat \<Rightarrow> u32 option" where
  "sd_word D off =
     (if off = 0 then Some (sd_nr D) else if off = 4 then Some (sd_arch D)
      else if off = 8 then Some (lo32 (sd_ip D)) else if off = 12 then Some (hi32 (sd_ip D))
      else if 16 \<le> off \<and> off < 64 \<and> off mod 4 = 0 then
        let w = sd_arg D ((off - 16) div 8) in Some (if off mod 8 = 0 then lo32 w else hi32 w)
      else None)"

locale bpf_machine =
  fixes exec :: "BpfProgram \<Rightarrow> seccomp_data \<Rightarrow> nat \<Rightarrow> u32 \<Rightarrow> u32 option"
  assumes exec_ret: "pc < length P \<Longrightarrow> sf_code (P ! pc) = BPF_RET + BPF_K \<Longrightarrow>
      exec P D pc A = Some (sf_k (P ! pc))"
    and exec_ld: "pc < length P \<Longrightarrow> sf_code (P ! pc) = BPF_LD + BPF_W + BPF_ABS \<Longrightarrow>
      sd_word D (unat (sf_k (P ! pc))) \<noteq> None \<Longrightarrow>
      exec P D pc A = exec P D (pc + 1) (the (sd_word D (unat (sf_k (P ! pc)))))"
    and exec_and: "pc < length P \<Longrightarrow> sf_code (P ! pc) = BPF_ALU + BPF_AND + BPF_K \<Longrightarrow>
      exec P D pc A = exec P D (pc + 1) (A AND sf_k (P ! pc))"
    and exec_ja: "pc < length P \<Longrightarrow> sf_code (P ! pc) = BPF_JMP + BPF_JA \<Longrightarrow>
      exec P D pc A = exec P D (pc + 1 + unat (sf_k (P ! pc))) A"
    and exec_jeq: "pc < length P \<Longrightarrow> sf_code (P ! pc) = BPF_JMP + BPF_JEQ + BPF_K \<Longrightarrow>
      exec P D pc A = exec P D (pc + 1 + unat (if A = sf_k (P ! pc) then sf_jt (P ! pc) else sf_jf (P ! pc))) A"
    and exec_jgt: "pc < length P \<Longrightarrow> sf_code (P ! pc) = BPF_JMP + BPF_JGT + BPF_K \<Longrightarrow>
      exec P D pc A = exec P D (pc + 1 + unat (if A > sf_k (P ! pc) then sf_jt (P ! pc) else sf_jf (P ! pc))) A"
    and exec_jge: "pc < length P \<Longrightarrow> sf_code (P ! pc) = BPF_JMP + BPF_JGE + BPF_K \<Longrightarrow>
      exec P D pc A = exec P D (pc + 1 + unat (if A \<ge> sf_k (P ! pc) then sf_jt (P ! pc) else sf_jf (P ! pc))) A"

text \<open>An interpreter. Jumps only go forward, so it always ends; leaving the program is \<^const>\<open>None\<close>.\<close>

definition bpf_next :: "sock_filter \<Rightarrow> seccomp_data \<Rightarrow> u32 \<Rightarrow> (u32 + nat \<times> u32) option" where
  "bpf_next i D A =
     (let k = sf_k i; j = (\<lambda>b. Some (Inr (unat (if b then sf_jt i else sf_jf i), A))) in
      if sf_code i = BPF_RET + BPF_K then Some (Inl k)
      else if sf_code i = BPF_LD + BPF_W + BPF_ABS then map_option (\<lambda>w. Inr (0, w)) (sd_word D (unat k))
      else if sf_code i = BPF_ALU + BPF_AND + BPF_K then Some (Inr (0, A AND k))
      else if sf_code i = BPF_JMP + BPF_JA then Some (Inr (unat k, A))
      else if sf_code i = BPF_JMP + BPF_JEQ + BPF_K then j (A = k)
      else if sf_code i = BPF_JMP + BPF_JGT + BPF_K then j (A > k)
      else if sf_code i = BPF_JMP + BPF_JGE + BPF_K then j (A \<ge> k)
      else None)"

function bpf_run :: "BpfProgram \<Rightarrow> seccomp_data \<Rightarrow> nat \<Rightarrow> u32 \<Rightarrow> u32 option" where
  "bpf_run P D pc A =
     (if pc < length P then
        case bpf_next (P ! pc) D A of
          None \<Rightarrow> None
        | Some (Inl k) \<Rightarrow> Some k
        | Some (Inr (j, A')) \<Rightarrow> bpf_run P D (pc + 1 + j) A'
      else None)"
  by auto
termination by (relation "measure (\<lambda>(P, D, pc, A). length P - pc)") auto

declare bpf_run.simps [simp del]

lemma bpf_run_step:
  "pc < length P \<Longrightarrow> bpf_next (P ! pc) D A = Some (Inr (j, A')) \<Longrightarrow> bpf_run P D pc A = bpf_run P D (pc + 1 + j) A'"
  "pc < length P \<Longrightarrow> bpf_next (P ! pc) D A = Some (Inl k) \<Longrightarrow> bpf_run P D pc A = Some k"
  by (subst bpf_run.simps, simp)+

interpretation bpf: bpf_machine bpf_run
  by unfold_locales (auto simp: bpf_run_step bpf_next_def bpf_codes Let_def)

section \<open>Code inside a program\<close>

fun code_at :: "BpfProgram \<Rightarrow> nat \<Rightarrow> BpfProgram \<Rightarrow> bool" where
  "code_at P p [] \<longleftrightarrow> True"
| "code_at P p (i # is) \<longleftrightarrow> p < length P \<and> P ! p = i \<and> code_at P (p + 1) is"

lemma code_at_append [simp]:
  "code_at P p (xs @ ys) \<longleftrightarrow> code_at P p xs \<and> code_at P (p + length xs) ys"
  by (induction xs arbitrary: p) auto

lemma code_at_drop: "code_at P p (drop p P)"
proof (induction "length P - p" arbitrary: p)
  case (Suc n)
  then have "p < length P" by simp
  with Suc show ?case by (simp add: Cons_nth_drop_Suc [symmetric])
qed simp

lemma code_at_whole: "code_at P 0 P"
  using code_at_drop [of P 0] by simp

section \<open>Conditions\<close>

fun cmp_holds :: "SeccompCmpOp \<Rightarrow> 'a::len word \<Rightarrow> 'a word \<Rightarrow> bool" where
  "cmp_holds Eq a v \<longleftrightarrow> a = v"
| "cmp_holds Ge a v \<longleftrightarrow> a \<ge> v"
| "cmp_holds Gt a v \<longleftrightarrow> a > v"
| "cmp_holds Le a v \<longleftrightarrow> a \<le> v"
| "cmp_holds Lt a v \<longleftrightarrow> a < v"
| "cmp_holds (MaskedEq m) a v \<longleftrightarrow> a AND ucast m = v AND ucast m"
| "cmp_holds Ne a v \<longleftrightarrow> a \<noteq> v"

text \<open>
  The meaning of a condition: the argument is compared with the value, as 64-bit numbers, or as
  the low 32 bits of both when the argument length is a double word.
\<close>

definition cond_holds :: "seccomp_data \<Rightarrow> SeccompCondition \<Rightarrow> bool" where
  "cond_holds D c =
     (let a = sd_arg D (unat (arg_number c)); v = cond_value c in
      case arg_len c of Dword \<Rightarrow> cmp_holds (operator c) (lo32 a) (lo32 v) | Qword \<Rightarrow> cmp_holds (operator c) a v)"

lemma unat_halves: "unat a = unat (hi32 a) * 2 ^ 32 + unat (lo32 a)"
proof -
  have "unat (hi32 a) = unat a div 2 ^ 32"
  proof -
    have "unat a < 2 ^ 64" using unsigned_less [of a, where ?'a = nat] by simp
    then have "unat a div 2 ^ 32 < 2 ^ 32" by (simp add: less_mult_imp_div_less)
    then show ?thesis by (simp add: unsigned_ucast_eq drop_bit_eq_div take_bit_eq_mod unat_div)
  qed
  moreover have "unat (lo32 a) = unat a mod 2 ^ 32" by (simp add: unsigned_ucast_eq take_bit_eq_mod)
  ultimately show ?thesis by (simp only: div_mult_mod_eq)
qed

lemma u64_eq_halves: "a = b \<longleftrightarrow> hi32 a = hi32 b \<and> lo32 a = lo32 b"
  by (metis unat_halves word_unat_eq_iff)

lemma u64_less_halves: "a < b \<longleftrightarrow> hi32 a < hi32 b \<or> hi32 a = hi32 b \<and> lo32 a < lo32 b"
proof -
  have l: "unat (lo32 a) < 2 ^ 32" "unat (lo32 b) < 2 ^ 32"
    using unsigned_less [of "lo32 a", where ?'a = nat] unsigned_less [of "lo32 b", where ?'a = nat] by simp_all
  have h: "hi32 a = hi32 b \<longleftrightarrow> unat (hi32 a) = unat (hi32 b)" by (simp add: word_unat_eq_iff)
  show ?thesis
    unfolding word_less_nat_alt h unat_halves [of a] unat_halves [of b] using l by auto
qed

lemma u64_le_halves: "a \<le> b \<longleftrightarrow> hi32 a < hi32 b \<or> hi32 a = hi32 b \<and> lo32 a \<le> lo32 b"
  unfolding le_less u64_less_halves [of a b] u64_eq_halves [of a b] by blast

lemma halves_and: "hi32 (a AND b) = hi32 a AND hi32 b" "lo32 (a AND b) = lo32 a AND lo32 b"
  by (rule bit_word_eqI, simp add: bit_simps)+

lemma value_segments_ok:
  assumes "arg_number c \<le> 5"
  obtains mo lo where "value_segments c = Some (hi32 (cond_value c), lo32 (cond_value c), mo, lo)"
    "sd_word D (unat (ucast mo :: u32)) = Some (hi32 (sd_arg D (unat (arg_number c))))"
    "sd_word D (unat (ucast lo :: u32)) = Some (lo32 (sd_arg D (unat (arg_number c))))"
proof -
  define n where "n = unat (arg_number c)"
  have n: "n \<le> 5" using assms by (simp add: n_def word_le_nat_alt)
  have c: "arg_number c = of_nat n" by (simp add: n_def)
  have a: "mul_c (arg_number c) SECCOMP_DATA_ARG_SIZE = Some (of_nat (8 * n))"
    using n unfolding c mul_c_def by (simp add: SECCOMP_DATA_ARG_SIZE_def mult.commute)
  have b: "add_c SECCOMP_DATA_ARGS_OFFSET (of_nat (8 * n)) = Some (of_nat (16 + 8 * n))"
    using n add_c_of_nat [of 16 "8 * n", where ?'a = 8] by (simp add: SECCOMP_DATA_ARGS_OFFSET_def)
  have d: "add_c (of_nat (16 + 8 * n)) (SECCOMP_DATA_ARG_SIZE div 2) = Some (of_nat (20 + 8 * n))"
    using n add_c_of_nat [of "16 + 8 * n" 4, where ?'a = 8] by (simp add: SECCOMP_DATA_ARG_SIZE_def)
  have u: "unat (ucast (of_nat (16 + 8 * n) :: u8) :: u32) = 16 + 8 * n"
    "unat (ucast (of_nat (20 + 8 * n) :: u8) :: u32) = 20 + 8 * n"
    by (subst unat_ucast_up; (rule unat_of_nat_small)?; use n in simp)+
  have m: "(20 + 8 * n) mod 4 = 0" "(16 + 8 * n) mod 4 = 0" "(20 + 8 * n) mod 8 = 4" "(16 + 8 * n) mod 8 = 0"
    "(20 + 8 * n - 16) div 8 = n" "(16 + 8 * n - 16) div 8 = n" by presburger+
  show ?thesis
  proof (rule that)
    show "value_segments c = Some (hi32 (cond_value c), lo32 (cond_value c), of_nat (20 + 8 * n), of_nat (16 + 8 * n))"
      unfolding value_segments_def Let_def a Option.bind_lunit b d by (rule refl)
    show "sd_word D (unat (ucast (of_nat (20 + 8 * n) :: u8) :: u32)) = Some (hi32 (sd_arg D (unat (arg_number c))))"
      unfolding u sd_word_def m Let_def n_def [symmetric] using n by simp
    show "sd_word D (unat (ucast (of_nat (16 + 8 * n) :: u8) :: u32)) = Some (lo32 (sd_arg D (unat (arg_number c))))"
      unfolding u sd_word_def m Let_def n_def [symmetric] using n by simp
  qed
qed

lemmas into_bpf_defs = into_eq_bpf_def into_ge_bpf_def into_gt_bpf_def into_le_bpf_def into_lt_bpf_def
  into_masked_eq_bpf_def into_ne_bpf_def

lemma small_plus:
  "4 + n = Suc (Suc (Suc (Suc n)))" "5 + n = Suc (Suc (Suc (Suc (Suc n))))" "6 + n = Suc (Suc (Suc (Suc (Suc (Suc n)))))"
  by simp_all

text \<open>Comparing the halves in the order in which the generated code does.\<close>

fun halves_hold :: "SeccompCmpOp \<Rightarrow> u32 \<Rightarrow> u32 \<Rightarrow> u32 \<Rightarrow> u32 \<Rightarrow> bool" where
  "halves_hold Eq ha la hv lv \<longleftrightarrow> ha = hv \<and> la = lv"
| "halves_hold Ge ha la hv lv \<longleftrightarrow> ha > hv \<or> ha = hv \<and> la \<ge> lv"
| "halves_hold Gt ha la hv lv \<longleftrightarrow> ha > hv \<or> ha = hv \<and> la > lv"
| "halves_hold Le ha la hv lv \<longleftrightarrow> \<not> ha > hv \<and> (ha = hv \<longrightarrow> \<not> la > lv)"
| "halves_hold Lt ha la hv lv \<longleftrightarrow> \<not> ha > hv \<and> (ha = hv \<longrightarrow> \<not> la \<ge> lv)"
| "halves_hold (MaskedEq m) ha la hv lv \<longleftrightarrow> ha AND hi32 m = hv AND hi32 m \<and> la AND lo32 m = lv AND lo32 m"
| "halves_hold Ne ha la hv lv \<longleftrightarrow> ha \<noteq> hv \<or> la \<noteq> lv"

lemma halves_hold_iff: "halves_hold op (hi32 a) (lo32 a) (hi32 v) (lo32 v) \<longleftrightarrow> cmp_holds op a v"
proof (cases op)
  case (MaskedEq m)
  then show ?thesis using u64_eq_halves [of "a AND m" "v AND m"] by (simp add: halves_and)
qed (auto simp: u64_eq_halves [of a v] u64_less_halves [of a v] u64_less_halves [of v a]
    u64_le_halves [of a v] u64_le_halves [of v a])

lemma halves_hold_low: "halves_hold op 0 (lo32 a) 0 (lo32 v) \<longleftrightarrow> cmp_holds op (lo32 a) (lo32 v)"
  by (cases op) (auto simp: not_less not_le)

context bpf_machine
begin

lemma ex_exec: "\<exists>A'. exec P D q w = exec P D q A'"
  by blast

lemmas machine_simps = exec_ret exec_ld exec_and exec_ja exec_jeq exec_jgt exec_jge
  BPF_STMT_def BPF_JUMP_def bpf_codes

text \<open>
  The code of a condition falls through when the condition holds and otherwise jumps \<open>offset\<close>
  instructions past its end.
\<close>

lemma into_bpf_exec:
  assumes "into_bpf c off = Some is" "arg_number c \<le> 5" "code_at P p is"
  shows "\<exists>A'. exec P D p A = exec P D (p + length is + (if cond_holds D c then 0 else unat off)) A'"
proof -
  define ha la hv lv where h: "ha = hi32 (sd_arg D (unat (arg_number c)))" "la = lo32 (sd_arg D (unat (arg_number c)))"
    "hv = hi32 (cond_value c)" "lv = lo32 (cond_value c)"
  obtain mo lo where v: "value_segments c = Some (hv, lv, mo, lo)"
    "sd_word D (unat (ucast mo :: u32)) = Some ha" "sd_word D (unat (ucast lo :: u32)) = Some la"
    using value_segments_ok [OF assms(2), of D] unfolding h by metis
  show ?thesis
  proof (cases "arg_len c")
    case Dword
    then have c: "cond_holds D c = halves_hold (operator c) 0 la 0 lv"
      by (simp add: cond_holds_def Let_def h halves_hold_low)
    show ?thesis
      using assms(1,3) v Dword unfolding c
      by (cases "operator c")
        (auto simp: into_bpf_def into_bpf_defs machine_simps Let_def h(4) [symmetric] halves_and small_plus ex_exec elim!: bindE)
  next
    case Qword
    then have c: "cond_holds D c = halves_hold (operator c) ha la hv lv"
      by (simp add: cond_holds_def Let_def h halves_hold_iff)
    show ?thesis
      using assms(1,3) v Qword unfolding c
      by (cases "operator c")
        (auto simp: into_bpf_def into_bpf_defs machine_simps Let_def h(3,4) [symmetric] halves_and small_plus ex_exec elim!: bindE dest!: unat_add_c)
  qed
qed

end

section \<open>Rules and chains\<close>

definition rule_matches :: "seccomp_data \<Rightarrow> SeccompRule \<Rightarrow> bool" where
  "rule_matches D r \<longleftrightarrow> list_all (cond_holds D) (conditions r)"

text \<open>The action of the first rule that matches.\<close>

fun first_match :: "seccomp_data \<Rightarrow> u32 \<Rightarrow> SeccompRule list \<Rightarrow> u32" where
  "first_match D def [] = def"
| "first_match D def (r # rs) = (if rule_matches D r then u32_of_action (rule_action r) else first_match D def rs)"

definition args_ok :: "SeccompRule \<Rightarrow> bool" where
  "args_ok r \<longleftrightarrow> list_all (\<lambda>c. arg_number c \<le> 5) (conditions r)"

text \<open>
  The conditions of a rule with its action, \<open>code\<close>, at any place in a program: running it decides the
  conditions, and the two exits at \<open>off\<close> and \<open>off + 1\<close> lead to the instruction behind the code and to
  the one after that.
\<close>

definition body_ok :: "(BpfProgram \<Rightarrow> seccomp_data \<Rightarrow> nat \<Rightarrow> u32 \<Rightarrow> u32 option) \<Rightarrow> seccomp_data \<Rightarrow> u32 \<Rightarrow> bool \<Rightarrow> BpfProgram \<Rightarrow> u8 \<Rightarrow> bool" where
  "body_ok exec D act holds code off \<longleftrightarrow> (\<forall>P p A. code_at P p code \<longrightarrow>
     (if holds then exec P D p A = Some act else \<exists>A'. exec P D p A = exec P D (p + length code) A') \<and>
     exec P D (p + unat off) A = exec P D (p + length code) A \<and>
     exec P D (p + unat off + 1) A = exec P D (p + length code + 1) A)"

lemma unat_ucast_u8_Suc: "unat (ucast (off :: u8) + 1 :: u32) = unat off + 1"
proof -
  have "unat off < 2 ^ 8" using unsigned_less [of off, where ?'a = nat] by simp
  moreover have "unat (ucast off :: u32) = unat off" by (simp add: unat_ucast_up)
  ultimately show ?thesis by (simp add: unat_word_ariths)
qed

context bpf_machine
begin

lemma body_ok_ret: "body_ok exec D act True [BPF_STMT (BPF_RET + BPF_K) act] 1"
  by (simp add: body_ok_def machine_simps)

lemma body_ok_helper:
  assumes "body_ok exec D act holds code off"
  shows "body_ok exec D act holds
    ([BPF_STMT (BPF_JMP + BPF_JA) 2, BPF_STMT (BPF_JMP + BPF_JA) (ucast off + 1),
      BPF_STMT (BPF_JMP + BPF_JA) (ucast off + 1)] @ code) 1" (is "body_ok _ _ _ _ (?h @ _) _")
  unfolding body_ok_def
proof (intro allI impI)
  fix P p A
  assume c: "code_at P p (?h @ code)"
  let ?q = "Suc (Suc (Suc p))"
  have q: "code_at P ?q code" using c by simp
  have j: "exec P D p A = exec P D ?q A" "exec P D (Suc p) A = exec P D (?q + unat off) A"
    "exec P D (Suc (Suc p)) A = exec P D (?q + unat off + 1) A"
    using c unat_ucast_u8_Suc [of off] by (simp_all add: machine_simps)
  show "(if holds then exec P D p A = Some act else \<exists>A'. exec P D p A = exec P D (p + length (?h @ code)) A') \<and>
    exec P D (p + unat (1 :: u8)) A = exec P D (p + length (?h @ code)) A \<and>
    exec P D (p + unat (1 :: u8) + 1) A = exec P D (p + length (?h @ code) + 1) A"
    using assms [unfolded body_ok_def, rule_format, OF q, of A] j by (cases holds) simp_all
qed

lemma body_ok_condition:
  assumes "body_ok exec D act holds code off" "into_bpf c off = Some is" "arg_number c \<le> 5"
    "add_c off (of_nat (length is)) = Some off'" "length is \<le> 6"
  shows "body_ok exec D act (cond_holds D c \<and> holds) (is @ code) off'"
  unfolding body_ok_def
proof (intro allI impI)
  fix P p A
  assume c: "code_at P p (is @ code)"
  then have i: "code_at P p is" and q: "code_at P (p + length is) code" by simp_all
  have o: "unat off' = unat off + length is" using unat_add_c [OF assms(4)] assms(5) by simp
  have p: "p + unat off' = p + length is + unat off" using o by simp
  note b = assms(1) [unfolded body_ok_def, rule_format, OF q]
  obtain A' where e: "exec P D p A = exec P D (p + length is + (if cond_holds D c then 0 else unat off)) A'"
    using into_bpf_exec [OF assms(2,3) i] by blast
  show "(if cond_holds D c \<and> holds then exec P D p A = Some act
      else \<exists>A'. exec P D p A = exec P D (p + length (is @ code)) A') \<and>
    exec P D (p + unat off') A = exec P D (p + length (is @ code)) A \<and>
    exec P D (p + unat off' + 1) A = exec P D (p + length (is @ code) + 1) A"
    using b [of A] b [of A'] e p by (cases "cond_holds D c"; cases holds) (auto simp: add.assoc)
qed

lemma append_condition_ok:
  assumes "append_condition c acc n off = Some (acc', n', off')" "arg_number c \<le> 5"
    "body_ok exec D act holds (concat (rev acc)) off"
  shows "body_ok exec D act (cond_holds D c \<and> holds) (concat (rev acc')) off'"
proof -
  define acc1 where "acc1 = (if add_c off (CONDITION_MAX_LEN + 1) = None
    then acc @ [[BPF_STMT (BPF_JMP + BPF_JA) 2, BPF_STMT (BPF_JMP + BPF_JA) (ucast off + 1),
                 BPF_STMT (BPF_JMP + BPF_JA) (ucast off + 1)]] else acc)"
  define off1 where "off1 = (if add_c off (CONDITION_MAX_LEN + 1) = None then 1 else off)"
  have s: "body_ok exec D act holds (concat (rev acc1)) off1"
    using body_ok_helper [OF assms(3)] assms(3) by (simp add: acc1_def off1_def)
  obtain iseq where i: "into_bpf c off1 = Some iseq" "add_c off1 (of_nat (length iseq)) = Some off'" "acc' = acc1 @ [iseq]"
    using assms(1) by (auto simp: append_condition_def acc1_def off1_def Let_def elim!: bindE split: if_split_asm)
  moreover have "length iseq \<le> 6"
    using i(1) by (auto simp: into_bpf_def CONDITION_MAX_LEN_def assert_that_def elim!: bindE split: if_split_asm)
  ultimately show ?thesis using body_ok_condition [OF s i(1) assms(2) i(2)] i(3) by simp
qed

lemma append_conditions_ok:
  "append_conditions cs acc n off = Some (acc', n', off') \<Longrightarrow> list_all (\<lambda>c. arg_number c \<le> 5) cs \<Longrightarrow>
   body_ok exec D act holds (concat (rev acc)) off \<Longrightarrow>
   body_ok exec D act (list_all (cond_holds D) cs \<and> holds) (concat (rev acc')) off'"
proof (induction cs arbitrary: acc n off holds)
  case (Cons c cs)
  then obtain acc1 n1 off1 where a: "append_condition c acc n off = Some (acc1, n1, off1)"
    "append_conditions cs acc1 n1 off1 = Some (acc', n', off')"
    by (auto elim!: bindE)
  from Cons.IH [OF a(2) _ append_condition_ok [OF a(1)]] Cons.prems show ?case
    by (simp add: conj_ac)
qed simp

text \<open>A rule: entered at its first instruction it decides; entered at its second it is skipped.\<close>

lemma rule_into_bpf_exec:
  assumes "rule_into_bpf r = Some code" "args_ok r" "code_at P p code"
  shows "(if rule_matches D r then exec P D p A = Some (u32_of_action (rule_action r))
      else \<exists>A'. exec P D p A = exec P D (p + length code) A') \<and>
    exec P D (p + 1) A = exec P D (p + length code + 1) A"
proof -
  from assms(1) obtain acc n off where a:
    "append_conditions (conditions r) [[BPF_STMT (BPF_RET + BPF_K) (u32_of_action (rule_action r))]] 1 1 = Some (acc, n, off)"
    "code = [BPF_STMT (BPF_JMP + BPF_JA) 1, BPF_STMT (BPF_JMP + BPF_JA) (ucast off + 1)] @ concat (rev acc)"
    by (auto simp: rule_into_bpf_def Let_def elim!: bindE)
  have b: "body_ok exec D (u32_of_action (rule_action r)) (rule_matches D r) (concat (rev acc)) off"
    using append_conditions_ok [OF a(1) _, of D "u32_of_action (rule_action r)" True] assms(2) body_ok_ret
    by (simp add: args_ok_def rule_matches_def)
  let ?q = "Suc (Suc p)"
  have q: "code_at P ?q (concat (rev acc))" using assms(3) a(2) by simp
  have j: "exec P D p A = exec P D ?q A" "exec P D (Suc p) A = exec P D (?q + unat off + 1) A"
    using assms(3) a(2) unat_ucast_u8_Suc [of off] by (simp_all add: machine_simps)
  show ?thesis
    using b [unfolded body_ok_def, rule_format, OF q, of A] j a(2) by (cases "rule_matches D r") simp_all
qed

lemma rules_into_bpf_exec:
  "rules_into_bpf rs = Some blocks \<Longrightarrow> list_all args_ok rs \<Longrightarrow> code_at P p (concat blocks @ [BPF_STMT (BPF_RET + BPF_K) def]) \<Longrightarrow>
   exec P D p A = Some (first_match D def rs) \<and>
   (exec P D (p + 1) A = exec P D (p + length (concat blocks) + 1) A)"
proof (induction rs arbitrary: blocks p A)
  case Nil
  then show ?case by (simp add: machine_simps)
next
  case (Cons r rs)
  then obtain b bs where b: "rule_into_bpf r = Some b" "rules_into_bpf rs = Some bs" "blocks = b # bs"
    by (auto elim!: bindE)
  have c: "code_at P p b" "code_at P (p + length b) (concat bs @ [BPF_STMT (BPF_RET + BPF_K) def])"
    using Cons.prems(3) b(3) by (simp_all add: add.assoc)
  note ih = Cons.IH [OF b(2) _ c(2)] and r = rule_into_bpf_exec [OF b(1) _ c(1), of D]
  have ok: "args_ok r" "list_all args_ok rs" using Cons.prems(2) by simp_all
  show ?case
    using ih [OF ok(2)] r [OF ok(1), of A] b(3) by (auto simp: add.assoc split: if_split_asm)
qed

lemma append_chains_exec:
  "append_chains rules def acc n = Some (Inr (acc', n')) \<Longrightarrow> list_all (\<lambda>(nr, rs). list_all args_ok rs) rules \<Longrightarrow>
   \<exists>code. concat acc' = concat acc @ code \<and> (\<forall>P p A. code_at P p code \<longrightarrow>
     exec P D p A = (case find (\<lambda>(nr, rs). of_int nr = A) rules of
        Some (nr, rs) \<Rightarrow> Some (first_match D def rs)
      | None \<Rightarrow> exec P D (p + length code) A))"
proof (induction rules arbitrary: acc n)
  case (Cons x rules)
  obtain nr rs where x: "x = (nr, rs)" by (cases x)
  from Cons.prems(1) x obtain blocks where b: "rules_into_bpf rs = Some blocks"
    and rest: "append_chains rules def (acc @ [BPF_JUMP (BPF_JMP + BPF_JEQ + BPF_K) (of_int nr) 0 1 # concat blocks
        @ [BPF_STMT (BPF_RET + BPF_K) def]])
      (n + length (BPF_JUMP (BPF_JMP + BPF_JEQ + BPF_K) (of_int nr) 0 1 # concat blocks @ [BPF_STMT (BPF_RET + BPF_K) def])) =
      Some (Inr (acc', n'))"
    by (auto simp: append_syscall_chain_def Let_def elim!: bindE split: if_split_asm)
  let ?c = "BPF_JUMP (BPF_JMP + BPF_JEQ + BPF_K) (of_int nr) 0 1 # concat blocks @ [BPF_STMT (BPF_RET + BPF_K) def]"
  from Cons.IH [OF rest] Cons.prems(2) obtain code where code:
    "concat acc' = concat (acc @ [?c]) @ code"
    "\<forall>P p A. code_at P p code \<longrightarrow> exec P D p A = (case find (\<lambda>(nr, rs). of_int nr = A) rules of
        Some (nr, rs) \<Rightarrow> Some (first_match D def rs) | None \<Rightarrow> exec P D (p + length code) A)"
    by auto
  have "exec P D p A = (case find (\<lambda>(nr, rs). of_int nr = A) (x # rules) of
        Some (nr, rs) \<Rightarrow> Some (first_match D def rs) | None \<Rightarrow> exec P D (p + length (?c @ code)) A)"
    if at: "code_at P p (?c @ code)" for P p A
  proof -
    have r: "exec P D (Suc p) A = Some (first_match D def rs)"
      "exec P D (Suc (Suc p)) A = exec P D (p + length ?c) A"
      using rules_into_bpf_exec [OF b, of P "Suc p" "def" D A] at Cons.prems(2) x by (auto simp: add.assoc)
    have "exec P D p A = (if A = of_int nr then exec P D (Suc p) A else exec P D (Suc (Suc p)) A)"
      using at by (simp add: machine_simps)
    moreover have "code_at P (p + length ?c) code" using at by (simp add: add.assoc)
    ultimately show ?thesis using r code(2) x by (auto simp: add.assoc split: option.split)
  qed
  with code(1) show ?case by (intro exI [of _ "?c @ code"]) simp
qed simp

end

section \<open>Filters\<close>

text \<open>
  What a filter means: the wrong architecture kills the process, otherwise the rules of the system
  call decide, and the default action applies when there is none or none matches.
\<close>

definition filter_verdict :: "SeccompFilter \<Rightarrow> seccomp_data \<Rightarrow> u32" where
  "filter_verdict f D =
     (if sd_arch D \<noteq> get_audit_value (target_arch f) then SECCOMP_RET_KILL_PROCESS
      else case map_of (filter_rules f) (uint (sd_nr D)) of
          None \<Rightarrow> u32_of_action (default_action f)
        | Some rs \<Rightarrow> first_match D (u32_of_action (default_action f)) rs)"

definition keys_ok :: "SeccompRuleMap \<Rightarrow> bool" where
  "keys_ok m \<longleftrightarrow> list_all (\<lambda>(nr, _). 0 \<le> nr \<and> nr < 2 ^ 32) m"

definition rules_ok :: "SeccompRuleMap \<Rightarrow> bool" where
  "rules_ok m \<longleftrightarrow> list_all (\<lambda>(_, rs). list_all args_ok rs) m"

lemma of_int_eq_u32:
  fixes A :: u32
  assumes "0 \<le> n" "n < 2 ^ 32"
  shows "of_int n = A \<longleftrightarrow> n = uint A"
proof -
  have "uint (of_int n :: u32) = n" using assms by (simp add: uint_word_of_int)
  then show ?thesis by (auto simp: word_uint_eq_iff)
qed

lemma find_map_of:
  "keys_ok m \<Longrightarrow> find (\<lambda>(nr, rs). of_int nr = (A :: u32)) m = map_option (\<lambda>rs. (uint A, rs)) (map_of m (uint A))"
proof (induction m)
  case (Cons x m)
  obtain nr rs where x: "x = (nr, rs)" by (cases x)
  with Cons.prems have "of_int nr = A \<longleftrightarrow> nr = uint A" by (intro of_int_eq_u32) (simp_all add: keys_ok_def)
  with Cons x show ?case by (auto simp: keys_ok_def)
qed simp

context bpf_machine
begin

lemma filter_into_bpf_exec:
  assumes "filter_into_bpf f = Some (Inr prog)" "keys_ok (filter_rules f)" "rules_ok (filter_rules f)"
  shows "exec prog D 0 A = Some (filter_verdict f D)"
proof -
  let ?d = "u32_of_action (default_action f)" and ?V = "VALIDATE_ARCHITECTURE (target_arch f)"
  have c: "code_at prog 0 prog" by (rule code_at_whole)
  have arch: "exec prog D 0 A = (if sd_arch D = get_audit_value (target_arch f) then exec prog D (length ?V) (sd_arch D)
      else Some SECCOMP_RET_KILL_PROCESS)" if "code_at prog 0 ?V"
    using that by (simp add: VALIDATE_ARCHITECTURE_def machine_simps sd_word_def)
  show ?thesis
  proof (cases "filter_rules f = []")
    case True
    then have p: "prog = ?V @ [BPF_STMT (BPF_RET + BPF_K) ?d]"
      using assms(1) by (simp add: filter_into_bpf_def Let_def)
    have "code_at prog 0 (?V @ [BPF_STMT (BPF_RET + BPF_K) ?d])" using c p by simp
    then have v: "code_at prog 0 ?V" "code_at prog (length ?V) [BPF_STMT (BPF_RET + BPF_K) ?d]" by simp_all
    from v(2) have "exec prog D (length ?V) B = Some ?d" for B by (simp add: machine_simps)
    with arch [OF v(1)] True show ?thesis by (simp add: filter_verdict_def)
  next
    case False
    then obtain acc n where a: "append_chains (filter_rules f) ?d [EXAMINE_SYSCALL] 1 = Some (Inr (acc, n))"
      "prog = ?V @ concat acc @ [BPF_STMT (BPF_RET + BPF_K) ?d]"
      using assms(1) by (auto simp: filter_into_bpf_def Let_def elim!: bindE split: if_split_asm sum.split_asm)
    from append_chains_exec [OF a(1), of D] assms(3) obtain code where code: "concat acc = EXAMINE_SYSCALL @ code"
      "\<And>P p A. code_at P p code \<Longrightarrow> exec P D p A = (case find (\<lambda>(nr, rs). of_int nr = A) (filter_rules f) of
        Some (nr, rs) \<Rightarrow> Some (first_match D ?d rs) | None \<Rightarrow> exec P D (p + length code) A)"
      by (auto simp: rules_ok_def)
    have "code_at prog 0 (?V @ EXAMINE_SYSCALL @ code @ [BPF_STMT (BPF_RET + BPF_K) ?d])"
      using c a(2) code(1) by simp
    then have e: "code_at prog 0 ?V" "code_at prog (length ?V) EXAMINE_SYSCALL" "code_at prog (Suc (length ?V)) code"
      "code_at prog (Suc (length ?V) + length code) [BPF_STMT (BPF_RET + BPF_K) ?d]"
      by (simp_all add: EXAMINE_SYSCALL_def)
    have "exec prog D (length ?V) B = exec prog D (Suc (length ?V)) (sd_nr D)" for B
      using e(2) by (simp add: EXAMINE_SYSCALL_def SECCOMP_DATA_NR_OFFSET_def machine_simps sd_word_def)
    moreover have "exec prog D (Suc (length ?V) + length code) (sd_nr D) = Some ?d"
      using e(4) by (simp add: machine_simps)
    ultimately show ?thesis
      using arch [OF e(1)] code(2) [OF e(3)] find_map_of [OF assms(2)]
      by (simp add: filter_verdict_def split: option.split)
  qed
qed

end

section \<open>Compilation does not panic\<close>

lemma into_bpf_defined:
  assumes "arg_number c \<le> 5" "unat off \<le> 248"
  shows "\<exists>is. into_bpf c off = Some is \<and> length is \<le> 6"
proof -
  obtain hv lv mo lo where v: "value_segments c = Some (hv, lv, mo, lo)"
    using value_segments_ok [OF assms(1)] by metis
  have a: "add_c off 2 = Some (off + 2)" "add_c off 3 = Some (off + 3)"
    using assms(2) by (simp_all add: add_c_def)
  show ?thesis
    by (cases "operator c"; cases "arg_len c")
      (simp_all add: into_bpf_def into_bpf_defs v a Let_def CONDITION_MAX_LEN_def)
qed

lemma append_condition_defined:
  assumes "arg_number c \<le> 5"
  shows "append_condition c acc n off \<noteq> None"
proof -
  define off1 where "off1 = (if add_c off (CONDITION_MAX_LEN + 1) = None then 1 else off)"
  have "unat off1 \<le> 248"
    by (auto simp: off1_def add_c_def CONDITION_MAX_LEN_def)
  from into_bpf_defined [OF assms this] obtain iseq where i: "into_bpf c off1 = Some iseq" "length iseq \<le> 6" by blast
  have "add_c off1 (of_nat (length iseq)) \<noteq> None"
    using \<open>unat off1 \<le> 248\<close> i(2) by (simp add: add_c_def)
  with i show ?thesis by (auto simp: append_condition_def off1_def Let_def split: if_split_asm)
qed

lemma append_conditions_defined:
  "list_all (\<lambda>c. arg_number c \<le> 5) cs \<Longrightarrow> append_conditions cs acc n off \<noteq> None"
proof (induction cs arbitrary: acc n off)
  case (Cons c cs)
  then obtain x where "append_condition c acc n off = Some x" using append_condition_defined by fastforce
  with Cons show ?case by (cases x) auto
qed simp

lemma rules_into_bpf_defined: "list_all args_ok rs \<Longrightarrow> rules_into_bpf rs \<noteq> None"
proof (induction rs)
  case (Cons r rs)
  then obtain acc n off where
    "append_conditions (conditions r) [[BPF_STMT (BPF_RET + BPF_K) (u32_of_action (rule_action r))]] 1 1 = Some (acc, n, off)"
    using append_conditions_defined [of "conditions r"] by (fastforce simp: args_ok_def)
  then have "rule_into_bpf r \<noteq> None" by (simp add: rule_into_bpf_def Let_def)
  with Cons show ?case by auto
qed simp

lemma append_chains_defined:
  "list_all (\<lambda>(_, rs). list_all args_ok rs) rules \<Longrightarrow> append_chains rules def acc n \<noteq> None"
proof (induction rules arbitrary: acc n)
  case (Cons x rules)
  obtain nr rs where x: "x = (nr, rs)" by (cases x)
  with Cons.prems obtain bs where "rules_into_bpf rs = Some bs" using rules_into_bpf_defined by fastforce
  with Cons x show ?case by (auto simp: append_syscall_chain_def Let_def)
qed simp

lemma filter_into_bpf_defined:
  assumes "rules_ok (filter_rules f)"
  shows "filter_into_bpf f \<noteq> None"
proof -
  obtain r where "append_chains (filter_rules f) (u32_of_action (default_action f)) [EXAMINE_SYSCALL] 1 = Some r"
    using append_chains_defined [of "filter_rules f"] assms by (fastforce simp: rules_ok_def)
  then show ?thesis by (auto simp: filter_into_bpf_def Let_def split: sum.splits)
qed

section \<open>From JSON to rules\<close>

lemma first_error_Inr: "first_error rs = Inr u \<longleftrightarrow> list_all (\<lambda>r. \<not> isl r) rs"
  by (induction rs rule: first_error.induct) auto

definition syscall_rule_ok :: "SyscallRule \<Rightarrow> bool" where
  "syscall_rule_ok r \<longleftrightarrow> list_all (\<lambda>c. arg_number c \<le> 5) (case sr_conditions r of None \<Rightarrow> [] | Some cs \<Rightarrow> cs)"

lemma SyscallRule_validate_ok: "\<not> isl (SyscallRule_validate r) \<longleftrightarrow> syscall_rule_ok r"
proof (cases "sr_conditions r")
  case (Some cs)
  have "\<not> isl (SyscallRule_validate r) \<longleftrightarrow> first_error (map condition_validate cs) = Inr ()"
    using Some by (cases "first_error (map condition_validate cs)") (simp_all add: SyscallRule_validate_def)
  moreover have "\<not> isl (condition_validate c) \<longleftrightarrow> arg_number c \<le> 5" for c
    by (auto simp: condition_validate_def ARG_NUMBER_MAX_def)
  ultimately show ?thesis
    using Some by (simp add: first_error_Inr syscall_rule_ok_def list.pred_map comp_def)
qed (simp add: SyscallRule_validate_def syscall_rule_ok_def)

lemma Filter_validate_ok: "Filter_validate f = Inr u \<Longrightarrow> list_all syscall_rule_ok (f_filter f)"
  by (auto simp: Filter_validate_def first_error_Inr list.pred_map comp_def SyscallRule_validate_ok split: if_splits)

lemma validate_filters_ok:
  "validate_filters fs = Inr u \<Longrightarrow> list_all (\<lambda>(_, f). list_all syscall_rule_ok (f_filter f)) fs"
proof (induction fs)
  case (Cons x fs)
  obtain name f where x: "x = (name, f)" by (cases x)
  with Cons show ?case
    using Filter_validate_ok [of f] by (cases "Filter_validate f") (simp_all add: validate_filters_def)
qed simp

abbreviation sorted_map :: "SeccompRuleMap \<Rightarrow> bool" where
  "sorted_map m \<equiv> sorted_wrt (<) (map fst m)"

lemma entry_or_insert_fst: "fst ` set (entry_or_insert nr new upd m) = insert nr (fst ` set m)"
proof (induction m)
  case (Cons x m)
  then show ?case by (cases x) (simp add: insert_commute insert_absorb)
qed simp

lemma entry_or_insert_sorted: "sorted_map m \<Longrightarrow> sorted_map (entry_or_insert nr new upd m)"
proof (induction m)
  case (Cons x m)
  obtain k rs where x: "x = (k, rs)" by (cases x)
  have s: "\<forall>y \<in> fst ` set m. k < y" "sorted_map m" using Cons.prems x by simp_all
  consider "nr = k" | "nr < k" | "k < nr" by linarith
  then show ?case
  proof cases
    case 3
    then have "\<forall>y \<in> fst ` set (entry_or_insert nr new upd m). k < y" using s(1) by (simp only: entry_or_insert_fst) simp
    then show ?thesis using 3 x Cons.IH [OF s(2)] by simp
  qed (use x s in auto)
qed simp

lemma map_of_entry_or_insert:
  "sorted_map m \<Longrightarrow> map_of (entry_or_insert nr new upd m) k =
   (if k = nr then Some (upd (case map_of m nr of None \<Rightarrow> new | Some rs \<Rightarrow> rs)) else map_of m k)"
proof (induction m)
  case (Cons x m)
  obtain l rs where x: "x = (l, rs)" by (cases x)
  have "map_of m nr = None" if "nr < l"
    using Cons.prems x that by (force simp: map_of_eq_None_iff)
  with Cons x show ?case by auto
qed simp

text \<open>The rules that a list of JSON rules has for a system call, in order.\<close>

definition rules_for :: "(string \<Rightarrow> int option) \<Rightarrow> SeccompAction \<Rightarrow> SyscallRule list \<Rightarrow> int \<Rightarrow> SeccompRule list" where
  "rules_for tab action rs nr =
     map (\<lambda>r. \<lparr> conditions = (case sr_conditions r of None \<Rightarrow> [] | Some cs \<Rightarrow> cs), rule_action = action \<rparr>)
       (filter (\<lambda>r. tab (sr_syscall r) = Some nr) rs)"

definition nonempty :: "'a list \<Rightarrow> 'a list option" where
  "nonempty xs = (if xs = [] then None else Some xs)"

lemma add_syscall_rules_map:
  "add_syscall_rules tab arch action rs m = Inr m' \<Longrightarrow> sorted_map m \<Longrightarrow> \<forall>k. map_of m k \<noteq> Some [] \<Longrightarrow>
   map_of m' k = nonempty ((case map_of m k of None \<Rightarrow> [] | Some xs \<Rightarrow> xs) @ rules_for tab action rs k)"
proof (induction rs arbitrary: m)
  case Nil
  then show ?case by (auto simp: nonempty_def rules_for_def split: option.splits)
next
  case (Cons r rs)
  then obtain nr where nr: "tab (sr_syscall r) = Some nr" by (auto split: option.splits)
  define rule where "rule = (case sr_conditions r of
                Some cs \<Rightarrow> \<lparr> conditions = cs, rule_action = action \<rparr>
              | None \<Rightarrow> \<lparr> conditions = [], rule_action = action \<rparr>)"
  let ?m = "entry_or_insert nr [] (\<lambda>acc. acc @ [rule]) m"
  note m = map_of_entry_or_insert [OF Cons.prems(2), of nr "[]" "\<lambda>acc. acc @ [rule]"]
  have "add_syscall_rules tab arch action rs ?m = Inr m'"
    using Cons.prems(1) nr by (simp add: rule_def Let_def)
  moreover have "\<forall>k. map_of ?m k \<noteq> Some []" using Cons.prems(3) m by simp
  ultimately have "map_of m' k = nonempty ((case map_of ?m k of None \<Rightarrow> [] | Some xs \<Rightarrow> xs) @ rules_for tab action rs k)"
    using entry_or_insert_sorted [OF Cons.prems(2)] by (intro Cons.IH)
  moreover have "rule = \<lparr> conditions = (case sr_conditions r of None \<Rightarrow> [] | Some cs \<Rightarrow> cs), rule_action = action \<rparr>"
    by (simp add: rule_def split: option.split)
  ultimately show ?case using m nr by (cases "k = nr") (simp_all add: rules_for_def)
qed

lemma add_basic_rules_map:
  "add_basic_rules tab arch action rs m = Inr m' \<Longrightarrow> sorted_map m \<Longrightarrow>
   map_of m' k = (case map_of m k of Some xs \<Rightarrow> Some xs
     | None \<Rightarrow> if \<exists>r \<in> set rs. tab (sr_syscall r) = Some k then Some [\<lparr> conditions = [], rule_action = action \<rparr>] else None)"
proof (induction rs arbitrary: m)
  case Nil
  then show ?case by (auto split: option.splits)
next
  case (Cons r rs)
  then obtain nr where nr: "tab (sr_syscall r) = Some nr" by (auto split: option.splits)
  let ?m = "entry_or_insert nr [\<lparr> conditions = [], rule_action = action \<rparr>] id m"
  have "add_basic_rules tab arch action rs ?m = Inr m'" using Cons.prems(1) nr by simp
  from Cons.IH [OF this entry_or_insert_sorted [OF Cons.prems(2)]]
    map_of_entry_or_insert [OF Cons.prems(2), of nr "[\<lparr> conditions = [], rule_action = action \<rparr>]" id] nr
  show ?case by (auto split: option.splits if_splits)
qed

text \<open>Keys come from the table and conditions from the rules.\<close>

definition table_ok :: "(string \<Rightarrow> int option) \<Rightarrow> bool" where
  "table_ok tab \<longleftrightarrow> (\<forall>s nr. tab s = Some nr \<longrightarrow> 0 \<le> nr \<and> nr < 2 ^ 32)"

lemma entry_or_insert_all:
  "list_all (\<lambda>(k, rs). p k \<and> q rs) m \<Longrightarrow> p nr \<Longrightarrow> q (upd new) \<Longrightarrow> (\<And>rs. q rs \<Longrightarrow> q (upd rs)) \<Longrightarrow>
   list_all (\<lambda>(k, rs). p k \<and> q rs) (entry_or_insert nr new upd m)"
  by (induction m) auto

lemma add_syscall_rules_ok:
  "add_syscall_rules tab arch action rs m = Inr m' \<Longrightarrow> table_ok tab \<Longrightarrow> list_all syscall_rule_ok rs \<Longrightarrow>
   list_all (\<lambda>(k, rs). (0 \<le> k \<and> k < 2 ^ 32) \<and> list_all args_ok rs) m \<Longrightarrow>
   list_all (\<lambda>(k, rs). (0 \<le> k \<and> k < 2 ^ 32) \<and> list_all args_ok rs) m'"
proof (induction rs arbitrary: m)
  case (Cons r rs)
  then obtain nr where nr: "tab (sr_syscall r) = Some nr" by (auto split: option.splits)
  define rule where "rule = (case sr_conditions r of
                Some cs \<Rightarrow> \<lparr> conditions = cs, rule_action = action \<rparr>
              | None \<Rightarrow> \<lparr> conditions = [], rule_action = action \<rparr>)"
  have "args_ok rule" using Cons.prems(3) by (auto simp: rule_def args_ok_def syscall_rule_ok_def split: option.splits)
  then have "list_all (\<lambda>(k, rs). (0 \<le> k \<and> k < 2 ^ 32) \<and> list_all args_ok rs) (entry_or_insert nr [] (\<lambda>acc. acc @ [rule]) m)"
    using Cons.prems(2) nr by (intro entry_or_insert_all [OF Cons.prems(4)]) (auto simp: table_ok_def)
  with Cons nr show ?case by (simp add: rule_def Let_def)
qed simp

lemma add_basic_rules_ok:
  "add_basic_rules tab arch action rs m = Inr m' \<Longrightarrow> table_ok tab \<Longrightarrow>
   list_all (\<lambda>(k, rs). (0 \<le> k \<and> k < 2 ^ 32) \<and> list_all args_ok rs) m \<Longrightarrow>
   list_all (\<lambda>(k, rs). (0 \<le> k \<and> k < 2 ^ 32) \<and> list_all args_ok rs) m'"
proof (induction rs arbitrary: m)
  case (Cons r rs)
  then obtain nr where nr: "tab (sr_syscall r) = Some nr" by (auto split: option.splits)
  have "list_all (\<lambda>(k, rs). (0 \<le> k \<and> k < 2 ^ 32) \<and> list_all args_ok rs)
      (entry_or_insert nr [\<lparr> conditions = [], rule_action = action \<rparr>] id m)"
    using Cons.prems(2) nr by (intro entry_or_insert_all [OF Cons.prems(3)]) (auto simp: table_ok_def args_ok_def)
  with Cons nr show ?case by simp
qed simp

lemma arch_roundtrip: "TargetArch_try_into (TargetArch_to_string arch) = Inr arch"
  by (cases arch) (simp_all add: TargetArch_try_into_def ascii_lower_def)

text \<open>
  What a JSON filter means: its action applies to a system call that one of its rules names and
  whose conditions all hold (a basic filter ignores the conditions), its default action to all
  others, and a foreign architecture kills the process.
\<close>

definition json_rule_matches :: "(string \<Rightarrow> int option) \<Rightarrow> bool \<Rightarrow> seccomp_data \<Rightarrow> SyscallRule \<Rightarrow> bool" where
  "json_rule_matches tab is_basic D r \<longleftrightarrow> tab (sr_syscall r) = Some (uint (sd_nr D)) \<and>
     (is_basic \<or> (case sr_conditions r of None \<Rightarrow> True | Some cs \<Rightarrow> list_all (cond_holds D) cs))"

definition json_verdict :: "(string \<Rightarrow> int option) \<Rightarrow> TargetArch \<Rightarrow> bool \<Rightarrow> Filter \<Rightarrow> seccomp_data \<Rightarrow> u32" where
  "json_verdict tab arch is_basic f D =
     (if sd_arch D \<noteq> get_audit_value arch then SECCOMP_RET_KILL_PROCESS
      else if list_ex (json_rule_matches tab is_basic D) (f_filter f) then u32_of_action (f_filter_action f)
      else u32_of_action (f_default_action f))"

lemma first_match_rules_for:
  "first_match D def (rules_for tab action rs (uint (sd_nr D))) =
   (if list_ex (json_rule_matches tab False D) rs then u32_of_action action else def)"
  by (induction rs) (auto simp: rules_for_def json_rule_matches_def rule_matches_def split: option.splits)

lemma map_sum_Inr: "map_sum f id r = Inr x \<longleftrightarrow> r = Inr x"
  by (cases r) auto

lemma SeccompFilter_new_Inr:
  "SeccompFilter_new m act (TargetArch_to_string arch) = Inr sf \<Longrightarrow> sf = \<lparr> filter_rules = m, default_action = act, target_arch = arch \<rparr>"
  by (auto simp: SeccompFilter_new_def arch_roundtrip split: sum.splits)

lemma make_filter_verdict:
  assumes "(if is_basic then make_basic_seccomp_filter tab arch f else make_seccomp_filter tab arch f) = Inr sf"
    "table_ok tab" "list_all syscall_rule_ok (f_filter f)"
  shows "keys_ok (filter_rules sf) \<and> rules_ok (filter_rules sf) \<and> filter_verdict sf D = json_verdict tab arch is_basic f D"
proof (cases is_basic)
  case True
  then obtain m where m: "add_basic_rules tab arch (f_filter_action f) (f_filter f) [] = Inr m"
    "sf = \<lparr> filter_rules = m, default_action = f_default_action f, target_arch = arch \<rparr>"
    using assms(1) by (auto simp: make_basic_seccomp_filter_def map_sum_Inr dest!: SeccompFilter_new_Inr split: sum.split_asm)
  note ok = add_basic_rules_ok [OF m(1) assms(2)]
  have "map_of m (uint (sd_nr D)) = (if list_ex (json_rule_matches tab True D) (f_filter f)
      then Some [\<lparr> conditions = [], rule_action = f_filter_action f \<rparr>] else None)"
    using add_basic_rules_map [OF m(1)] by (auto simp: json_rule_matches_def list_ex_iff)
  with ok m(2) True show ?thesis
    by (auto simp: keys_ok_def rules_ok_def list_all_iff filter_verdict_def json_verdict_def rule_matches_def)
next
  case False
  then obtain m where m: "add_syscall_rules tab arch (f_filter_action f) (f_filter f) [] = Inr m"
    "sf = \<lparr> filter_rules = m, default_action = f_default_action f, target_arch = arch \<rparr>"
    using assms(1) by (auto simp: make_seccomp_filter_def map_sum_Inr dest!: SeccompFilter_new_Inr split: sum.split_asm)
  note ok = add_syscall_rules_ok [OF m(1) assms(2,3)]
  have "map_of m (uint (sd_nr D)) = nonempty (rules_for tab (f_filter_action f) (f_filter f) (uint (sd_nr D)))"
    using add_syscall_rules_map [OF m(1)] by simp
  with ok m(2) False first_match_rules_for [of D _ tab "f_filter_action f" "f_filter f"] show ?thesis
    by (auto simp: keys_ok_def rules_ok_def list_all_iff filter_verdict_def json_verdict_def nonempty_def split: if_splits)
qed

lemma compile_filters_Cons_Inr:
  assumes "compile_filters tab arch is_basic ((name, f) # fs) = Some (Inr progs)"
  obtains sf prog rest where
    "(if is_basic then make_basic_seccomp_filter tab arch f else make_seccomp_filter tab arch f) = Inr sf"
    "filter_into_bpf sf = Some (Inr prog)" "compile_filters tab arch is_basic fs = Some (Inr rest)"
    "progs = (name, prog) # rest"
proof -
  let ?mk = "if is_basic then make_basic_seccomp_filter tab arch f else make_seccomp_filter tab arch f"
  obtain sf where sf: "?mk = Inr sf" using assms by (cases ?mk) simp_all
  with assms obtain r where r: "filter_into_bpf sf = Some r" by (auto elim!: bindE)
  with assms sf obtain prog where p: "r = Inr prog" by (cases r) simp_all
  with assms sf r obtain q where q: "compile_filters tab arch is_basic fs = Some q" by (auto elim!: bindE)
  with assms sf r p show ?thesis by (cases q) (auto intro: that)
qed

text \<open>Argument numbers alone do not depend on the table.\<close>

lemma add_syscall_rules_args:
  "add_syscall_rules tab arch action rs m = Inr m' \<Longrightarrow> list_all syscall_rule_ok rs \<Longrightarrow> rules_ok m \<Longrightarrow> rules_ok m'"
proof (induction rs arbitrary: m)
  case (Cons r rs)
  then obtain nr where nr: "tab (sr_syscall r) = Some nr" by (auto split: option.splits)
  define rule where "rule = (case sr_conditions r of
                Some cs \<Rightarrow> \<lparr> conditions = cs, rule_action = action \<rparr>
              | None \<Rightarrow> \<lparr> conditions = [], rule_action = action \<rparr>)"
  have "args_ok rule" using Cons.prems(2) by (auto simp: rule_def args_ok_def syscall_rule_ok_def split: option.splits)
  then have "rules_ok (entry_or_insert nr [] (\<lambda>acc. acc @ [rule]) m)"
    using entry_or_insert_all [of "\<lambda>_. True" "list_all args_ok" m nr] Cons.prems(3) by (simp add: rules_ok_def)
  with Cons nr show ?case by (simp add: rule_def Let_def)
qed simp

lemma add_basic_rules_args:
  "add_basic_rules tab arch action rs m = Inr m' \<Longrightarrow> rules_ok m \<Longrightarrow> rules_ok m'"
proof (induction rs arbitrary: m)
  case (Cons r rs)
  then obtain nr where nr: "tab (sr_syscall r) = Some nr" by (auto split: option.splits)
  have "rules_ok (entry_or_insert nr [\<lparr> conditions = [], rule_action = action \<rparr>] id m)"
    using entry_or_insert_all [of "\<lambda>_. True" "list_all args_ok" m nr] Cons.prems(2) by (simp add: rules_ok_def args_ok_def)
  with Cons nr show ?case by simp
qed simp

lemma make_filter_rules_ok:
  assumes "(if is_basic then make_basic_seccomp_filter tab arch f else make_seccomp_filter tab arch f) = Inr sf"
    "list_all syscall_rule_ok (f_filter f)"
  shows "rules_ok (filter_rules sf)"
proof -
  have "rules_ok []" by (simp add: rules_ok_def)
  then show ?thesis
    using assms by (auto simp: make_basic_seccomp_filter_def make_seccomp_filter_def map_sum_Inr
        dest!: SeccompFilter_new_Inr dest: add_basic_rules_args add_syscall_rules_args split: if_splits sum.split_asm)
qed

end
