(* ===== verification/Guest_Memory.thy ===== *)
theory Guest_Memory
  imports Prelude
begin

text \<open>
  The guest memory interface of the devices: the methods of the \<^verbatim>\<open>vm-memory\<close> crate
  (\<^verbatim>\<open>GuestMemoryMmap\<close>, \<^verbatim>\<open>GuestAddress\<close>) that the device code calls, as a record of functions
  that the device definitions take as an argument. The locale \<open>guest_memory\<close> states what the
  documentation of the crate promises about them; \<open>refm\<close> interprets it on a memory made of
  address ranges and a byte function.
\<close>

section \<open>Operations\<close>

record ('m, 'e) guest_mem =
  gm_address_in_range :: "'m \<Rightarrow> u64 \<Rightarrow> bool"
  gm_checked_offset :: "'m \<Rightarrow> u64 \<Rightarrow> usize \<Rightarrow> u64 option"
  gm_read :: "'m \<Rightarrow> u64 \<Rightarrow> nat \<Rightarrow> 'e + bytes"
  gm_write :: "'m \<Rightarrow> u64 \<Rightarrow> bytes \<Rightarrow> 'm \<times> ('e + unit)"
  ga_checked_add :: "u64 \<Rightarrow> u64 \<Rightarrow> u64 option"
  ga_unchecked_add :: "u64 \<Rightarrow> u64 \<Rightarrow> u64 option"

text \<open>\<^verbatim>\<open>Result::unwrap\<close> panics on an error.\<close>

fun unwrap :: "'e + 'a \<Rightarrow> 'a option" where
  "unwrap (Inl e) = None"
| "unwrap (Inr x) = Some x"

lemma unwrap_Some_iff [simp]: "unwrap r = Some x \<longleftrightarrow> r = Inr x"
  by (cases r) auto

text \<open>
  \<^verbatim>\<open>read_obj\<close> and \<^verbatim>\<open>write_obj\<close> of plain integers: the bytes of the object in the byte order of
  the x86_64 host.
\<close>

definition read_u16 :: "('m, 'e) guest_mem \<Rightarrow> 'm \<Rightarrow> u64 \<Rightarrow> 'e + u16" where
  "read_u16 G m a = map_sum id (\<lambda>bs. of_nat (le_nat bs)) (gm_read G m a 2)"

definition read_u32 :: "('m, 'e) guest_mem \<Rightarrow> 'm \<Rightarrow> u64 \<Rightarrow> 'e + u32" where
  "read_u32 G m a = map_sum id (\<lambda>bs. of_nat (le_nat bs)) (gm_read G m a 4)"

definition write_u16 :: "('m, 'e) guest_mem \<Rightarrow> 'm \<Rightarrow> u16 \<Rightarrow> u64 \<Rightarrow> 'm \<times> ('e + unit)" where
  "write_u16 G m v a = gm_write G m a (le_bytes 2 (unat v))"

definition write_u32 :: "('m, 'e) guest_mem \<Rightarrow> 'm \<Rightarrow> u32 \<Rightarrow> u64 \<Rightarrow> 'm \<times> ('e + unit)" where
  "write_u32 G m v a = gm_write G m a (le_bytes 4 (unat v))"

section \<open>Laws\<close>

definition all_in :: "(nat \<Rightarrow> bool) \<Rightarrow> nat \<Rightarrow> nat \<Rightarrow> bool" where
  "all_in rng a n \<longleftrightarrow> (\<forall>i<n. rng (a + i))"

definition bytes_at :: "(nat \<Rightarrow> u8) \<Rightarrow> nat \<Rightarrow> nat \<Rightarrow> bytes" where
  "bytes_at b a n = map (\<lambda>i. b (a + i)) [0..<n]"

definition upd_bytes :: "(nat \<Rightarrow> u8) \<Rightarrow> nat \<Rightarrow> bytes \<Rightarrow> nat \<Rightarrow> u8" where
  "upd_bytes b a bs = (\<lambda>k. if a \<le> k \<and> k < a + length bs then bs ! (k - a) else b k)"

definition u16_at :: "(nat \<Rightarrow> u8) \<Rightarrow> nat \<Rightarrow> u16" where
  "u16_at b a = of_nat (le_nat (bytes_at b a 2))"

definition u32_at :: "(nat \<Rightarrow> u8) \<Rightarrow> nat \<Rightarrow> u32" where
  "u32_at b a = of_nat (le_nat (bytes_at b a 4))"

lemma length_bytes_at [simp]: "length (bytes_at b a n) = n"
  by (simp add: bytes_at_def)

lemma bytes_at_upd_same [simp]: "length bs = n \<Longrightarrow> bytes_at (upd_bytes b a bs) a n = bs"
  by (auto simp: bytes_at_def upd_bytes_def intro!: nth_equalityI)

lemma bytes_at_upd_other:
  "c + n \<le> a \<or> a + length bs \<le> c \<Longrightarrow> bytes_at (upd_bytes b a bs) c n = bytes_at b c n"
  by (auto simp: bytes_at_def upd_bytes_def intro!: nth_equalityI)

lemma u16_at_upd_same [simp]: "u16_at (upd_bytes b a (le_bytes 2 (unat v))) a = v"
  by (simp add: u16_at_def)

lemma u32_at_upd_same [simp]: "u32_at (upd_bytes b a (le_bytes 4 (unat v))) a = v"
  by (simp add: u32_at_def)

lemma u16_at_upd_other:
  "c + 2 \<le> a \<or> a + length bs \<le> c \<Longrightarrow> u16_at (upd_bytes b a bs) c = u16_at b c"
  by (simp add: u16_at_def bytes_at_upd_other)

lemma u32_at_upd_other:
  "c + 4 \<le> a \<or> a + length bs \<le> c \<Longrightarrow> u32_at (upd_bytes b a bs) c = u32_at b c"
  by (simp add: u32_at_def bytes_at_upd_other)

lemma all_in_sub: "all_in rng a n \<Longrightarrow> a \<le> c \<Longrightarrow> c + k \<le> a + n \<Longrightarrow> all_in rng c k"
  unfolding all_in_def
  by (metis add.assoc add_less_cancel_left le_add_diff_inverse nat_add_left_cancel_less
      order_less_le_trans)

locale guest_memory =
  fixes G :: "('m, 'e) guest_mem"
    and in_rng :: "'m \<Rightarrow> nat \<Rightarrow> bool"
    and byte :: "'m \<Rightarrow> nat \<Rightarrow> u8"
  assumes in_rng_bound: "in_rng m k \<Longrightarrow> k < 2 ^ 64"
    and address_in_range: "gm_address_in_range G m a \<longleftrightarrow> in_rng m (unat a)"
    and checked_offset: "gm_checked_offset G m a off =
      (case add_c a off of None \<Rightarrow> None | Some c \<Rightarrow> if in_rng m (unat c) then Some c else None)"
    and read_ok: "all_in (in_rng m) (unat a) n \<Longrightarrow>
      gm_read G m a n = Inr (bytes_at (byte m) (unat a) n)"
    and read_err: "\<not> all_in (in_rng m) (unat a) n \<Longrightarrow> \<exists>err. gm_read G m a n = Inl err"
    and write_ok: "all_in (in_rng m) (unat a) (length bs) \<Longrightarrow>
      \<exists>m'. gm_write G m a bs = (m', Inr ()) \<and> byte m' = upd_bytes (byte m) (unat a) bs"
    and write_err: "\<not> all_in (in_rng m) (unat a) (length bs) \<Longrightarrow>
      \<exists>m' err. gm_write G m a bs = (m', Inl err)"
    and write_frame: "gm_write G m a bs = (m', r) \<Longrightarrow>
      in_rng m' = in_rng m \<and> (\<forall>k. k < unat a \<or> unat a + length bs \<le> k \<longrightarrow> byte m' k = byte m k)"
    and addr_add: "ga_checked_add G = add_c" "ga_unchecked_add G = add_c"
begin

lemma read_u16_ok:
  "all_in (in_rng m) (unat a) 2 \<Longrightarrow> read_u16 G m a = Inr (u16_at (byte m) (unat a))"
  by (simp add: read_u16_def read_ok u16_at_def)

lemma read_u32_ok:
  "all_in (in_rng m) (unat a) 4 \<Longrightarrow> read_u32 G m a = Inr (u32_at (byte m) (unat a))"
  by (simp add: read_u32_def read_ok u32_at_def)

lemma write_u16_ok:
  assumes "all_in (in_rng m) (unat a) 2"
  shows "\<exists>m'. write_u16 G m v a = (m', Inr ()) \<and> in_rng m' = in_rng m \<and>
    byte m' = upd_bytes (byte m) (unat a) (le_bytes 2 (unat v))"
  using write_ok [of m a "le_bytes 2 (unat v)"] write_frame assms
  unfolding write_u16_def by fastforce

lemma write_u32_ok:
  assumes "all_in (in_rng m) (unat a) 4"
  shows "\<exists>m'. write_u32 G m v a = (m', Inr ()) \<and> in_rng m' = in_rng m \<and>
    byte m' = upd_bytes (byte m) (unat a) (le_bytes 4 (unat v))"
  using write_ok [of m a "le_bytes 4 (unat v)"] write_frame assms
  unfolding write_u32_def by fastforce

text \<open>Two addresses of mapped memory never overflow an unchecked addition.\<close>

lemma unchecked_add_ok:
  assumes "all_in (in_rng m) (unat a) n" "unat d < n"
  shows "ga_unchecked_add G a d = Some (a + d) \<and> unat (a + d) = unat a + unat d"
proof -
  have "in_rng m (unat a + unat d)" using assms by (simp add: all_in_def)
  then have "unat a + unat d < 2 ^ LENGTH(64)" using in_rng_bound by simp
  then show ?thesis
    using addr_add(2) unat_add_c [of a d "a + d"] by (simp add: add_c_def)
qed

end

section \<open>Reference memory\<close>

text \<open>Address ranges \<open>[start, end)\<close> below \<open>2 ^ 64\<close> and the bytes at every address.\<close>

record ref_mem =
  rm_ranges :: "(nat \<times> nat) list"
  rm_bytes :: "nat \<Rightarrow> u8"

definition ref_in :: "ref_mem \<Rightarrow> nat \<Rightarrow> bool" where
  "ref_in m k \<longleftrightarrow> k < 2 ^ 64 \<and> list_ex (\<lambda>(lo, hi). lo \<le> k \<and> k < hi) (rm_ranges m)"

definition ref_all_in :: "ref_mem \<Rightarrow> nat \<Rightarrow> nat \<Rightarrow> bool" where
  "ref_all_in m a n \<longleftrightarrow> list_all (\<lambda>i. ref_in m (a + i)) [0..<n]"

definition ref_gm_err :: "'e \<Rightarrow> (ref_mem, 'e) guest_mem" where
  "ref_gm_err err = \<lparr>
     gm_address_in_range = (\<lambda>m a. ref_in m (unat a)),
     gm_checked_offset = (\<lambda>m a off.
       case add_c a off of None \<Rightarrow> None | Some c \<Rightarrow> if ref_in m (unat c) then Some c else None),
     gm_read = (\<lambda>m a n. if ref_all_in m (unat a) n then Inr (bytes_at (rm_bytes m) (unat a) n) else Inl err),
     gm_write = (\<lambda>m a bs. if ref_all_in m (unat a) (length bs)
       then (m\<lparr>rm_bytes := upd_bytes (rm_bytes m) (unat a) bs\<rparr>, Inr ()) else (m, Inl err)),
     ga_checked_add = add_c,
     ga_unchecked_add = add_c \<rparr>"

abbreviation ref_gm :: "(ref_mem, unit) guest_mem" where
  "ref_gm \<equiv> ref_gm_err ()"

lemma ref_all_in_iff: "ref_all_in m a n \<longleftrightarrow> all_in (ref_in m) a n"
  by (auto simp: ref_all_in_def all_in_def list_all_iff)

lemma ref_gm_guest_memory: "guest_memory (ref_gm_err err) ref_in rm_bytes"
  by unfold_locales
    (auto simp: ref_gm_err_def ref_all_in_iff ref_in_def upd_bytes_def fun_eq_iff split: if_splits)

interpretation refm: guest_memory ref_gm ref_in rm_bytes
  by (rule ref_gm_guest_memory)

end
