(* ===== verification/Virtio_Queue.thy ===== *)
theory Virtio_Queue
  imports Guest_Memory
begin

text \<open>
  The split virtqueue of \<open>src/firecracker/src/devices/src/virtio/queue.rs\<close>: descriptor chains,
  the available and used rings, notification suppression, and the saved queue state of
  \<open>devices/src/virtio/persist.rs\<close>. Guest memory is the interface of \<open>Guest_Memory\<close>. A definition
  that reads memory twice with a fence in between takes a function \<open>drv\<close>: what the driver does
  to the memory between the two reads.
\<close>

section \<open>Descriptors\<close>

definition VIRTQ_DESC_F_NEXT :: u16 where "VIRTQ_DESC_F_NEXT = 0x1"
definition VIRTQ_DESC_F_WRITE :: u16 where "VIRTQ_DESC_F_WRITE = 0x2"

datatype 'e QueueError = DescIndexOutOfBounds u16 | UsedRing 'e

record Descriptor =
  d_addr :: u64
  d_len :: u32
  d_flags :: u16
  d_next :: u16

text \<open>\<^verbatim>\<open>#[repr(C)]\<close>: the fields in declaration order, without padding.\<close>

definition Descriptor_of_bytes :: "bytes \<Rightarrow> Descriptor" where
  "Descriptor_of_bytes bs = \<lparr>
     d_addr = of_nat (le_nat (take 8 bs)),
     d_len = of_nat (le_nat (take 4 (drop 8 bs))),
     d_flags = of_nat (le_nat (take 2 (drop 12 bs))),
     d_next = of_nat (le_nat (take 2 (drop 14 bs))) \<rparr>"

record DescriptorChain =
  dc_desc_table :: u64
  dc_queue_size :: u16
  dc_ttl :: u16
  dc_index :: u16
  dc_addr :: u64
  dc_len :: u32
  dc_flags :: u16
  dc_next :: u16

definition has_next :: "DescriptorChain \<Rightarrow> bool" where
  "has_next c \<longleftrightarrow> dc_flags c AND VIRTQ_DESC_F_NEXT \<noteq> 0 \<and> dc_ttl c > 1"

definition is_write_only :: "DescriptorChain \<Rightarrow> bool" where
  "is_write_only c \<longleftrightarrow> dc_flags c AND VIRTQ_DESC_F_WRITE \<noteq> 0"

definition chain_is_valid :: "DescriptorChain \<Rightarrow> bool" where
  "chain_is_valid c \<longleftrightarrow> \<not> has_next c \<or> dc_next c < dc_queue_size c"

definition checked_new :: "('m, 'e) guest_mem \<Rightarrow> 'm \<Rightarrow> u64 \<Rightarrow> u16 \<Rightarrow> u16 \<Rightarrow> DescriptorChain option" where
  "checked_new G m desc_table queue_size index =
     (if index \<ge> queue_size then None else do {
        desc_head \<leftarrow> gm_checked_offset G m desc_table (ucast index * 16);
        _ \<leftarrow> gm_checked_offset G m desc_head 16;
        (case gm_read G m desc_head 16 of
           Inl _ \<Rightarrow> None
         | Inr bs \<Rightarrow>
             let desc = Descriptor_of_bytes bs;
                 chain = \<lparr> dc_desc_table = desc_table, dc_queue_size = queue_size, dc_ttl = queue_size,
                           dc_index = index, dc_addr = d_addr desc, dc_len = d_len desc,
                           dc_flags = d_flags desc, dc_next = d_next desc \<rparr>
             in if chain_is_valid chain then Some chain else None)
      })"

definition next_descriptor :: "('m, 'e) guest_mem \<Rightarrow> 'm \<Rightarrow> DescriptorChain \<Rightarrow> DescriptorChain option" where
  "next_descriptor G m c =
     (if has_next c
      then map_option (\<lambda>d. d\<lparr>dc_ttl := dc_ttl c - 1\<rparr>) (checked_new G m (dc_desc_table c) (dc_queue_size c) (dc_next c))
      else None)"

section \<open>Queues\<close>

record Queue =
  max_size :: u16
  q_size :: u16
  ready :: bool
  desc_table :: u64
  avail_ring :: u64
  used_ring :: u64
  next_avail :: u16
  next_used :: u16
  uses_notif_suppression :: bool
  num_added :: u16

definition Queue_new :: "u16 \<Rightarrow> Queue" where
  "Queue_new n = \<lparr> max_size = n, q_size = 0, ready = False, desc_table = 0, avail_ring = 0, used_ring = 0,
     next_avail = 0, next_used = 0, uses_notif_suppression = False, num_added = 0 \<rparr>"

definition actual_size :: "Queue \<Rightarrow> u16" where
  "actual_size q = min (q_size q) (max_size q)"

text \<open>\<^verbatim>\<open>a % b\<close> panics when \<open>b\<close> is zero.\<close>

definition rem_c :: "'a::len word \<Rightarrow> 'a word \<Rightarrow> 'a word option" where
  "rem_c a b = (if b = 0 then None else Some (a mod b))"

definition avail_idx :: "('m, 'e) guest_mem \<Rightarrow> Queue \<Rightarrow> 'm \<Rightarrow> u16 option" where
  "avail_idx G q m = do {
     addr \<leftarrow> ga_unchecked_add G (avail_ring q) 2;
     unwrap (read_u16 G m addr)
   }"

definition queue_len :: "('m, 'e) guest_mem \<Rightarrow> Queue \<Rightarrow> 'm \<Rightarrow> u16 option" where
  "queue_len G q m = do { i \<leftarrow> avail_idx G q m; Some (i - next_avail q) }"

definition is_empty :: "('m, 'e) guest_mem \<Rightarrow> Queue \<Rightarrow> 'm \<Rightarrow> bool option" where
  "is_empty G q m = do { n \<leftarrow> queue_len G q m; Some (n = 0) }"

definition out_of_bounds :: "('m, 'e) guest_mem \<Rightarrow> 'm \<Rightarrow> u64 \<Rightarrow> u64 \<Rightarrow> bool" where
  "out_of_bounds G m a n \<longleftrightarrow>
     (case ga_checked_add G a n of None \<Rightarrow> True | Some v \<Rightarrow> \<not> gm_address_in_range G m v)"

definition queue_is_valid :: "('m, 'e) guest_mem \<Rightarrow> Queue \<Rightarrow> 'm \<Rightarrow> bool option" where
  "queue_is_valid G q m =
     (let queue_size = ucast (actual_size q) :: u64;
          desc_table_size = 16 * queue_size;
          avail_ring_size = 6 + 2 * queue_size;
          used_ring_size = 6 + 8 * queue_size
      in if \<not> ready q then Some False
         else if q_size q > max_size q \<or> q_size q = 0 \<or> q_size q AND (q_size q - 1) \<noteq> 0 then Some False
         else if out_of_bounds G m (desc_table q) desc_table_size then Some False
         else if out_of_bounds G m (avail_ring q) avail_ring_size then Some False
         else if out_of_bounds G m (used_ring q) used_ring_size then Some False
         else if desc_table q AND 0xf \<noteq> 0 then Some False
         else if avail_ring q AND 0x1 \<noteq> 0 then Some False
         else if used_ring q AND 0x3 \<noteq> 0 then Some False
         else do {
           n \<leftarrow> queue_len G q m;
           Some (\<not> n > max_size q)
         })"

definition do_pop_unchecked :: "('m, 'e) guest_mem \<Rightarrow> Queue \<Rightarrow> 'm \<Rightarrow> (DescriptorChain option \<times> Queue) option" where
  "do_pop_unchecked G q m = do {
     r \<leftarrow> rem_c (next_avail q) (actual_size q);
     r2 \<leftarrow> mul_c 2 r;
     index_offset \<leftarrow> add_c 4 r2;
     addr \<leftarrow> ga_unchecked_add G (avail_ring q) (ucast index_offset);
     desc_index \<leftarrow> unwrap (read_u16 G m addr);
     Some (case checked_new G m (desc_table q) (actual_size q) desc_index of
             None \<Rightarrow> (None, q)
           | Some dc \<Rightarrow> (Some dc, q\<lparr>next_avail := next_avail q + 1\<rparr>))
   }"

definition queue_pop :: "('m, 'e) guest_mem \<Rightarrow> Queue \<Rightarrow> 'm \<Rightarrow> (DescriptorChain option \<times> Queue) option" where
  "queue_pop G q m = do {
     n \<leftarrow> queue_len G q m;
     if n = 0 then Some (None, q) else do_pop_unchecked G q m
   }"

definition undo_pop :: "Queue \<Rightarrow> Queue" where
  "undo_pop q = q\<lparr>next_avail := next_avail q - 1\<rparr>"

definition add_used :: "('m, 'e) guest_mem \<Rightarrow> Queue \<Rightarrow> 'm \<Rightarrow> u16 \<Rightarrow> u32 \<Rightarrow>
    (Queue \<times> 'm \<times> ('e QueueError + unit)) option" where
  "add_used G q m desc_index n =
     (if desc_index \<ge> actual_size q then Some (q, m, Inl (DescIndexOutOfBounds desc_index))
      else do {
        r \<leftarrow> rem_c (next_used q) (actual_size q);
        used_elem \<leftarrow> ga_unchecked_add G (used_ring q) (4 + ucast r * 8);
        (case write_u32 G m (ucast desc_index) used_elem of
           (m1, Inl err) \<Rightarrow> Some (q, m1, Inl (UsedRing err))
         | (m1, Inr _) \<Rightarrow> do {
             len_addr \<leftarrow> ga_unchecked_add G used_elem 4;
             (case write_u32 G m1 n len_addr of
                (m2, Inl err) \<Rightarrow> Some (q, m2, Inl (UsedRing err))
              | (m2, Inr _) \<Rightarrow> do {
                  let q' = q\<lparr>num_added := num_added q + 1, next_used := next_used q + 1\<rparr>;
                  next_used_addr \<leftarrow> ga_unchecked_add G (used_ring q) 2;
                  (let (m3, res) = write_u16 G m2 (next_used q') next_used_addr
                   in Some (q', m3, map_sum UsedRing id res))
                })
           })
      })"

definition used_event :: "('m, 'e) guest_mem \<Rightarrow> Queue \<Rightarrow> 'm \<Rightarrow> u16 option" where
  "used_event G q m = do {
     s2 \<leftarrow> mul_c 2 (actual_size q);
     off \<leftarrow> add_c 4 s2;
     addr \<leftarrow> ga_unchecked_add G (avail_ring q) (ucast off);
     unwrap (read_u16 G m addr)
   }"

definition set_avail_event :: "('m, 'e) guest_mem \<Rightarrow> Queue \<Rightarrow> u16 \<Rightarrow> 'm \<Rightarrow> 'm option" where
  "set_avail_event G q val m = do {
     s8 \<leftarrow> mul_c 8 (actual_size q);
     off \<leftarrow> add_c 4 s8;
     addr \<leftarrow> ga_unchecked_add G (used_ring q) (ucast off);
     (case write_u16 G m val addr of (m', Inl _) \<Rightarrow> None | (m', Inr _) \<Rightarrow> Some m')
   }"

definition try_enable_notification ::
    "('m, 'e) guest_mem \<Rightarrow> ('m \<Rightarrow> 'm) \<Rightarrow> Queue \<Rightarrow> 'm \<Rightarrow> (bool \<times> 'm) option" where
  "try_enable_notification G drv q m =
     (if \<not> uses_notif_suppression q then Some (True, m)
      else do {
        n \<leftarrow> queue_len G q m;
        if n \<noteq> 0 then Some (False, m)
        else do {
          m1 \<leftarrow> set_avail_event G q (next_avail q) m;
          let m2 = drv m1;
          i \<leftarrow> avail_idx G q m2;
          Some (next_avail q = i, m2)
        }
      })"

definition pop_or_enable_notification ::
    "('m, 'e) guest_mem \<Rightarrow> ('m \<Rightarrow> 'm) \<Rightarrow> Queue \<Rightarrow> 'm \<Rightarrow> (DescriptorChain option \<times> Queue \<times> 'm) option" where
  "pop_or_enable_notification G drv q m =
     (if \<not> uses_notif_suppression q then do {
        (dc, q') \<leftarrow> queue_pop G q m;
        Some (dc, q', m)
      } else do {
        (enabled, m') \<leftarrow> try_enable_notification G drv q m;
        if enabled then Some (None, q, m')
        else do {
          (dc, q') \<leftarrow> do_pop_unchecked G q m';
          Some (dc, q', m')
        }
      })"

definition enable_notif_suppression :: "Queue \<Rightarrow> Queue" where
  "enable_notif_suppression q = q\<lparr>uses_notif_suppression := True\<rparr>"

definition prepare_kick :: "('m, 'e) guest_mem \<Rightarrow> Queue \<Rightarrow> 'm \<Rightarrow> (bool \<times> Queue) option" where
  "prepare_kick G q m =
     (if \<not> uses_notif_suppression q then Some (True, q)
      else do {
        let new = next_used q;
        let old = next_used q - num_added q;
        ue \<leftarrow> used_event G q m;
        Some (new - ue - 1 < new - old, q\<lparr>num_added := 0\<rparr>)
      })"

section \<open>Saved state\<close>

record QueueState =
  st_max_size :: u16
  st_size :: u16
  st_ready :: bool
  st_desc_table :: u64
  st_avail_ring :: u64
  st_used_ring :: u64
  st_next_avail :: u16
  st_next_used :: u16
  st_num_added :: u16

definition queue_save :: "Queue \<Rightarrow> QueueState" where
  "queue_save q = \<lparr> st_max_size = max_size q, st_size = q_size q, st_ready = ready q,
     st_desc_table = desc_table q, st_avail_ring = avail_ring q, st_used_ring = used_ring q,
     st_next_avail = next_avail q, st_next_used = next_used q, st_num_added = num_added q \<rparr>"

definition queue_restore :: "QueueState \<Rightarrow> Queue" where
  "queue_restore s = \<lparr> max_size = st_max_size s, q_size = st_size s, ready = st_ready s,
     desc_table = st_desc_table s, avail_ring = st_avail_ring s, used_ring = st_used_ring s,
     next_avail = st_next_avail s, next_used = st_next_used s, uses_notif_suppression = False,
     num_added = st_num_added s \<rparr>"

section \<open>Well-formed queues\<close>

text \<open>
  A queue whose three rings lie in guest memory. The bound on the size is the one of the 16-bit
  ring offsets that the code computes; the devices use queues of 256 entries.
\<close>

definition queue_sized :: "Queue \<Rightarrow> bool" where
  "queue_sized q \<longleftrightarrow> q_size q \<noteq> 0 \<and> q_size q \<le> max_size q \<and> max_size q \<le> 8191"

definition queue_mapped :: "(nat \<Rightarrow> bool) \<Rightarrow> Queue \<Rightarrow> bool" where
  "queue_mapped rng q \<longleftrightarrow> queue_sized q \<and>
     all_in rng (unat (desc_table q)) (16 * unat (q_size q)) \<and>
     all_in rng (unat (avail_ring q)) (6 + 2 * unat (q_size q)) \<and>
     all_in rng (unat (used_ring q)) (6 + 8 * unat (q_size q))"

definition contiguous :: "(nat \<Rightarrow> bool) \<Rightarrow> bool" where
  "contiguous rng \<longleftrightarrow> (\<forall>k j. rng k \<longrightarrow> j \<le> k \<longrightarrow> rng j)"

definition pow2 :: "u16 \<Rightarrow> bool" where
  "pow2 n \<longleftrightarrow> n \<noteq> 0 \<and> n AND (n - 1) = 0"

lemma nat_pow2:
  "n > 0 \<Longrightarrow> n AND (n - 1) = 0 \<Longrightarrow> \<exists>k. n = 2 ^ k" for n :: nat
proof (induction n rule: less_induct)
  case (less n)
  show ?case
  proof (cases "even n")
    case True
    then obtain m where m: "n = 2 * m" by blast
    with less.prems have m0: "m > 0" by simp
    have "n - 1 = 2 * (m - 1) + 1" using m m0 by simp
    then have "n AND (n - 1) = 2 * (m AND (m - 1))"
      using m by (simp add: and_nat_rec [of "2 * m"])
    with less m m0 obtain k where "m = 2 ^ k" by fastforce
    with m show ?thesis by (metis power_Suc)
  next
    case False
    then obtain m where m: "n = 2 * m + 1" by (meson oddE)
    then have "n AND (n - 1) = 2 * m" by (simp add: and_nat_rec [of "Suc (2 * m)"])
    with less.prems have "m = 0" by simp
    with m show ?thesis by (metis mult_0_right add_0 power_0)
  qed
qed

lemma pow2_dvd:
  assumes "pow2 n" shows "unat n dvd 2 ^ 16"
proof -
  from assms have n: "n \<noteq> 0" "unat n > 0" by (simp_all add: pow2_def unat_gt_0)
  have "unat (n AND (n - 1)) = unat n AND (unat n - 1)"
    using n(1) by (simp add: unsigned_and_eq unat_minus_one)
  with assms n obtain k where k: "unat n = 2 ^ k"
    using nat_pow2 [of "unat n"] by (auto simp: pow2_def)
  have "unat n < 2 ^ 16" using unsigned_less [of n, where ?'a = nat] by simp
  with k have "k < 16" by (metis power_less_imp_less_exp one_less_numeral_iff semiring_norm(76))
  then have "(2::nat) ^ k dvd 2 ^ 16" by (intro le_imp_power_dvd) simp
  then show ?thesis by (simp only: k)
qed

lemma unat_u16_add: "unat (a + of_nat k :: u16) = (unat a + k) mod 2 ^ 16"
  by (simp add: unat_word_ariths unat_of_nat mod_add_right_eq)

lemma pow2_ring_index:
  fixes a :: u16
  assumes "pow2 n"
  shows "unat (a + of_nat k) mod unat n = (unat a + k) mod unat n"
  using pow2_dvd [OF assms] by (simp only: unat_u16_add mod_mod_cancel)

lemma actual_size_sized [simp]: "queue_sized q \<Longrightarrow> actual_size q = q_size q"
  by (simp add: actual_size_def queue_sized_def min_def)

lemma queue_sizedD:
  assumes "queue_sized q"
  shows "0 < unat (q_size q) \<and> unat (q_size q) \<le> 8191"
proof -
  have "unat (q_size q) \<le> unat (max_size q)" "unat (max_size q) \<le> unat (8191 :: u16)"
    using assms by (auto simp: queue_sized_def word_le_nat_alt)
  with assms show ?thesis by (simp add: queue_sized_def unat_gt_0)
qed

lemma queue_mapped_upd [simp]:
  "queue_mapped rng (q\<lparr>next_avail := a\<rparr>) = queue_mapped rng q"
  "queue_mapped rng (q\<lparr>num_added := b\<rparr>) = queue_mapped rng q"
  "queue_mapped rng (q\<lparr>next_used := c\<rparr>) = queue_mapped rng q"
  by (simp_all add: queue_mapped_def queue_sized_def)

section \<open>Ring contents\<close>

text \<open>The fields of the rings, as the driver sees them in the bytes of guest memory.\<close>

definition avail_idx_at :: "(nat \<Rightarrow> u8) \<Rightarrow> Queue \<Rightarrow> u16" where
  "avail_idx_at b q = u16_at b (unat (avail_ring q) + 2)"

definition avail_entry :: "(nat \<Rightarrow> u8) \<Rightarrow> Queue \<Rightarrow> u16 \<Rightarrow> u16" where
  "avail_entry b q i = u16_at b (unat (avail_ring q) + (4 + 2 * (unat i mod unat (q_size q))))"

definition used_event_at :: "(nat \<Rightarrow> u8) \<Rightarrow> Queue \<Rightarrow> u16" where
  "used_event_at b q = u16_at b (unat (avail_ring q) + (4 + 2 * unat (q_size q)))"

definition used_slot :: "Queue \<Rightarrow> u16 \<Rightarrow> nat" where
  "used_slot q i = unat (used_ring q) + (4 + 8 * (unat i mod unat (q_size q)))"

definition used_entry :: "(nat \<Rightarrow> u8) \<Rightarrow> Queue \<Rightarrow> u16 \<Rightarrow> u32 \<times> u32" where
  "used_entry b q i = (u32_at b (used_slot q i), u32_at b (used_slot q i + 4))"

definition used_idx_at :: "(nat \<Rightarrow> u8) \<Rightarrow> Queue \<Rightarrow> u16" where
  "used_idx_at b q = u16_at b (unat (used_ring q) + 2)"

definition avail_event_at :: "(nat \<Rightarrow> u8) \<Rightarrow> Queue \<Rightarrow> u16" where
  "avail_event_at b q = u16_at b (unat (used_ring q) + (4 + 8 * unat (q_size q)))"

text \<open>The chains the driver made available and the device has not popped, oldest first.\<close>

definition pending :: "(nat \<Rightarrow> u8) \<Rightarrow> Queue \<Rightarrow> u16 list" where
  "pending b q = map (\<lambda>k. avail_entry b q (next_avail q + of_nat k)) [0..<unat (avail_idx_at b q - next_avail q)]"

lemma ring_offset:
  fixes n r :: u16 and c :: nat
  assumes "n \<noteq> 0" "unat n \<le> 8191" "c = unat r mod unat n"
  shows "rem_c r n = Some (of_nat c)" "c < unat n"
    "mul_c 2 (of_nat c :: u16) = Some (of_nat (2 * c))"
    "add_c 4 (of_nat (2 * c) :: u16) = Some (of_nat (4 + 2 * c))"
    "unat (ucast (of_nat (4 + 2 * c) :: u16) :: u64) = 4 + 2 * c"
    "unat (4 + ucast (of_nat c :: u16) * 8 :: u64) = 4 + 8 * c"
proof -
  show c: "c < unat n" using assms by (simp add: unat_gt_0)
  then have cb: "c < 2 ^ 16" "2 * c < 2 ^ 16" "4 + 2 * c < 2 ^ 16" using assms by simp_all
  show "rem_c r n = Some (of_nat c)"
    using assms by (simp add: rem_c_def unat_mod [symmetric])
  show "mul_c 2 (of_nat c :: u16) = Some (of_nat (2 * c))"
    using cb by (simp add: mul_c_def)
  show "add_c 4 (of_nat (2 * c) :: u16) = Some (of_nat (4 + 2 * c))"
    using add_c_of_nat [of 4 "2 * c", where ?'a = 16] cb by simp
  have "unat (ucast (of_nat (4 + 2 * c) :: u16) :: u64) = unat (of_nat (4 + 2 * c) :: u16)"
    by (rule unat_ucast_up) simp
  also have "\<dots> = 4 + 2 * c" by (rule unat_of_nat_small) (use cb in simp)
  finally show "unat (ucast (of_nat (4 + 2 * c) :: u16) :: u64) = 4 + 2 * c" .
  have "unat (ucast (of_nat c :: u16) :: u64) = c"
    using cb by (subst unat_ucast_up) simp_all
  then show "unat (4 + ucast (of_nat c :: u16) * 8 :: u64) = 4 + 8 * c"
    using cb by (simp add: unat_word_ariths)
qed

lemma end_offset:
  fixes n :: u16
  assumes "unat n \<le> 8191"
  shows "mul_c 2 n = Some (2 * n)" "add_c 4 (2 * n) = Some (4 + 2 * n)"
    "unat (ucast (4 + 2 * n) :: u64) = 4 + 2 * unat n"
    "mul_c 8 n = Some (8 * n)" "add_c 4 (8 * n) = Some (4 + 8 * n)"
    "unat (ucast (4 + 8 * n) :: u64) = 4 + 8 * unat n"
  using assms by (simp_all add: mul_c_def add_c_def unat_word_ariths unat_ucast_up)

section \<open>Behaviour over guest memory\<close>

context guest_memory
begin

lemma mapped_access:
  assumes "all_in (in_rng m) (unat a) n" "unat d + k \<le> n" "0 < k"
  shows "ga_unchecked_add G a d = Some (a + d)" "unat (a + d) = unat a + unat d"
    "all_in (in_rng m) (unat a + unat d) k"
  using unchecked_add_ok [OF assms(1), of d] all_in_sub [OF assms(1), of "unat a + unat d" k] assms
  by auto

lemma avail_idx_ok:
  assumes "queue_mapped (in_rng m) q"
  shows "avail_idx G q m = Some (avail_idx_at (byte m) q)"
proof -
  have "all_in (in_rng m) (unat (avail_ring q)) (6 + 2 * unat (q_size q))"
    using assms by (simp add: queue_mapped_def)
  from mapped_access [OF this, of 2 2] show ?thesis
    by (simp add: avail_idx_def avail_idx_at_def read_u16_ok)
qed

lemma queue_len_ok:
  "queue_mapped (in_rng m) q \<Longrightarrow> queue_len G q m = Some (avail_idx_at (byte m) q - next_avail q)"
  by (simp add: queue_len_def avail_idx_ok)

lemma do_pop_unchecked_ok:
  assumes "queue_mapped (in_rng m) q"
  shows "do_pop_unchecked G q m = Some
    (case checked_new G m (desc_table q) (q_size q) (avail_entry (byte m) q (next_avail q)) of
       None \<Rightarrow> (None, q) | Some dc \<Rightarrow> (Some dc, q\<lparr>next_avail := next_avail q + 1\<rparr>))"
proof -
  define c where "c = unat (next_avail q) mod unat (q_size q)"
  from assms have sz: "queue_sized q"
    and av: "all_in (in_rng m) (unat (avail_ring q)) (6 + 2 * unat (q_size q))"
    by (simp_all add: queue_mapped_def)
  note off = ring_offset [OF _ _ c_def]
  from sz queue_sizedD [OF sz] have n: "q_size q \<noteq> 0" "unat (q_size q) \<le> 8191"
    by (auto simp: queue_sized_def)
  note off = ring_offset [OF n c_def]
  have "unat (ucast (of_nat (4 + 2 * c) :: u16) :: u64) + 2 \<le> 6 + 2 * unat (q_size q)"
    unfolding off(5) using off(2) by simp
  note acc = mapped_access [OF av this, simplified off(5)]
  show ?thesis
    unfolding do_pop_unchecked_def actual_size_sized [OF sz] off(1,3,4) Option.bind_lunit
    using acc by (simp add: read_u16_ok avail_entry_def c_def)
qed

lemma used_event_ok:
  assumes "queue_mapped (in_rng m) q"
  shows "used_event G q m = Some (used_event_at (byte m) q)"
proof -
  from assms have sz: "queue_sized q"
    and av: "all_in (in_rng m) (unat (avail_ring q)) (6 + 2 * unat (q_size q))"
    by (simp_all add: queue_mapped_def)
  from queue_sizedD [OF sz] have n: "unat (q_size q) \<le> 8191" by simp
  note off = end_offset [OF n]
  have "unat (ucast (4 + 2 * q_size q) :: u64) + 2 \<le> 6 + 2 * unat (q_size q)"
    unfolding off(3) by simp
  note acc = mapped_access [OF av this, simplified off(3)]
  show ?thesis
    unfolding used_event_def actual_size_sized [OF sz] off(1,2) Option.bind_lunit
    using acc by (simp add: read_u16_ok used_event_at_def)
qed

lemma set_avail_event_ok:
  assumes "queue_mapped (in_rng m) q"
  shows "\<exists>m'. set_avail_event G q v m = Some m' \<and> in_rng m' = in_rng m \<and>
    byte m' = upd_bytes (byte m) (unat (used_ring q) + (4 + 8 * unat (q_size q))) (le_bytes 2 (unat v))"
proof -
  from assms have sz: "queue_sized q"
    and us: "all_in (in_rng m) (unat (used_ring q)) (6 + 8 * unat (q_size q))"
    by (simp_all add: queue_mapped_def)
  from queue_sizedD [OF sz] have n: "unat (q_size q) \<le> 8191" by simp
  note off = end_offset [OF n]
  have "unat (ucast (4 + 8 * q_size q) :: u64) + 2 \<le> 6 + 8 * unat (q_size q)"
    unfolding off(6) by simp
  note acc = mapped_access [OF us this, simplified off(6)]
  obtain m' where "write_u16 G m v (used_ring q + ucast (4 + 8 * q_size q)) = (m', Inr ())"
    "in_rng m' = in_rng m"
    "byte m' = upd_bytes (byte m) (unat (used_ring q) + (4 + 8 * unat (q_size q))) (le_bytes 2 (unat v))"
    using write_u16_ok [of m "used_ring q + ucast (4 + 8 * q_size q)" v] acc by auto
  then show ?thesis
    unfolding set_avail_event_def actual_size_sized [OF sz] off(4,5) Option.bind_lunit
    using acc by simp
qed

text \<open>A successful \<^verbatim>\<open>add_used\<close> writes the element, then the index.\<close>

lemma add_used_ok:
  assumes "queue_mapped (in_rng m) q" "desc_index < q_size q"
  shows "\<exists>m'. add_used G q m desc_index n =
      Some (q\<lparr>num_added := num_added q + 1, next_used := next_used q + 1\<rparr>, m', Inr ()) \<and>
    in_rng m' = in_rng m \<and>
    byte m' = upd_bytes (upd_bytes (upd_bytes (byte m)
        (used_slot q (next_used q)) (le_bytes 4 (unat desc_index)))
        (used_slot q (next_used q) + 4) (le_bytes 4 (unat n)))
        (unat (used_ring q) + 2) (le_bytes 2 (unat (next_used q + 1)))"
proof -
  define c where "c = unat (next_used q) mod unat (q_size q)"
  define e where "e = used_ring q + (4 + ucast (of_nat c :: u16) * 8)"
  from assms have sz: "queue_sized q"
    and us: "all_in (in_rng m) (unat (used_ring q)) (6 + 8 * unat (q_size q))"
    by (simp_all add: queue_mapped_def)
  from sz queue_sizedD [OF sz] have n: "q_size q \<noteq> 0" "unat (q_size q) \<le> 8191"
    by (auto simp: queue_sized_def)
  note off = ring_offset [OF n c_def]
  have "unat (4 + ucast (of_nat c :: u16) * 8 :: u64) + 8 \<le> 6 + 8 * unat (q_size q)"
    unfolding off(6) using off(2) by simp
  note acc = mapped_access [OF us this, folded e_def, simplified off(6)]
  have e: "ga_unchecked_add G (used_ring q) (4 + ucast (of_nat c :: u16) * 8) = Some e"
    "unat e = used_slot q (next_used q)" "all_in (in_rng m) (unat e) 8"
    using acc by (simp_all add: used_slot_def c_def)
  have u: "unat (ucast desc_index :: u32) = unat desc_index" by (simp add: unat_ucast_up)
  have "all_in (in_rng m) (unat e) 4" using e(3) by (auto simp: all_in_def)
  with write_u32_ok [of m e "ucast desc_index"] u obtain m1
    where m1: "write_u32 G m (ucast desc_index) e = (m1, Inr ())" "in_rng m1 = in_rng m"
      "byte m1 = upd_bytes (byte m) (unat e) (le_bytes 4 (unat desc_index))" by auto
  note acc4 = mapped_access [OF e(3), of 4 4, simplified]
  with write_u32_ok [of m1 "e + 4" n] m1 obtain m2
    where m2: "write_u32 G m1 n (e + 4) = (m2, Inr ())" "in_rng m2 = in_rng m"
      "byte m2 = upd_bytes (byte m1) (unat e + 4) (le_bytes 4 (unat n))" by auto
  note acc2 = mapped_access [OF us, of 2 2, simplified]
  with write_u16_ok [of m2 "used_ring q + 2" "next_used q + 1"] m2 obtain m3
    where m3: "write_u16 G m2 (next_used q + 1) (used_ring q + 2) = (m3, Inr ())" "in_rng m3 = in_rng m"
      "byte m3 = upd_bytes (byte m2) (unat (used_ring q) + 2) (le_bytes 2 (unat (next_used q + 1)))" by auto
  have "\<not> desc_index \<ge> q_size q" using assms(2) by simp
  then show ?thesis
    unfolding add_used_def actual_size_sized [OF sz] off(1) Option.bind_lunit e(1)
    using m1 m2 m3 acc4(1) acc2(1) e(2) by simp
qed

end

section \<open>Runs of a device\<close>

text \<open>
  What happens to an activated queue: the driver changes guest memory (never its layout), and the
  device pops, puts back, completes and notifies in any order.
\<close>

inductive queue_step :: "('m, 'e) guest_mem \<Rightarrow> ('m \<Rightarrow> nat \<Rightarrow> bool) \<Rightarrow> Queue \<times> 'm \<Rightarrow> Queue \<times> 'm \<Rightarrow> bool"
  for G in_rng where
  driver: "in_rng m' = in_rng m \<Longrightarrow> queue_step G in_rng (q, m) (q, m')"
| pop: "queue_pop G q m = Some (dc, q') \<Longrightarrow> queue_step G in_rng (q, m) (q', m)"
| pop_enable: "\<forall>x. in_rng (drv x) = in_rng x \<Longrightarrow>
    pop_or_enable_notification G drv q m = Some (dc, q', m') \<Longrightarrow> queue_step G in_rng (q, m) (q', m')"
| undo: "queue_step G in_rng (q, m) (undo_pop q, m)"
| used: "add_used G q m i n = Some (q', m', r) \<Longrightarrow> queue_step G in_rng (q, m) (q', m')"
| kick: "prepare_kick G q m = Some (b, q') \<Longrightarrow> queue_step G in_rng (q, m) (q', m)"

definition queue_ops_ok :: "('m, 'e) guest_mem \<Rightarrow> ('m \<Rightarrow> 'm) \<Rightarrow> Queue \<Rightarrow> 'm \<Rightarrow> bool" where
  "queue_ops_ok G drv q m \<longleftrightarrow>
     queue_is_valid G q m \<noteq> None \<and> queue_pop G q m \<noteq> None \<and>
     pop_or_enable_notification G drv q m \<noteq> None \<and> try_enable_notification G drv q m \<noteq> None \<and>
     prepare_kick G q m \<noteq> None \<and> (\<forall>i n. add_used G q m i n \<noteq> None)"

text \<open>The rings of a queue, which no operation changes.\<close>

definition same_rings :: "Queue \<Rightarrow> Queue \<Rightarrow> bool" where
  "same_rings q q' \<longleftrightarrow> max_size q' = max_size q \<and> q_size q' = q_size q \<and> ready q' = ready q \<and>
     desc_table q' = desc_table q \<and> avail_ring q' = avail_ring q \<and> used_ring q' = used_ring q"

lemma same_rings_refl [simp]: "same_rings q q"
  by (simp add: same_rings_def)

lemma same_rings_mapped: "same_rings q q' \<Longrightarrow> queue_mapped rng q' = queue_mapped rng q"
  by (simp add: same_rings_def queue_mapped_def queue_sized_def)

lemma do_pop_unchecked_rings:
  "do_pop_unchecked G q m = Some (dc, q') \<Longrightarrow> same_rings q q'"
  by (auto simp: do_pop_unchecked_def bind_eq_Some_conv same_rings_def split: option.splits)

lemma queue_pop_rings: "queue_pop G q m = Some (dc, q') \<Longrightarrow> same_rings q q'"
  by (auto simp: queue_pop_def bind_eq_Some_conv dest: do_pop_unchecked_rings split: if_splits)

lemma pop_or_enable_rings:
  "pop_or_enable_notification G drv q m = Some (dc, q', m') \<Longrightarrow> same_rings q q'"
  by (auto simp: pop_or_enable_notification_def bind_eq_Some_conv
      dest: do_pop_unchecked_rings queue_pop_rings split: if_splits)

lemma add_used_rings: "add_used G q m i n = Some (q', m', r) \<Longrightarrow> same_rings q q'"
  by (auto simp: add_used_def same_rings_def Let_def elim!: bindE
      split: if_split_asm prod.split_asm sum.split_asm)

lemma prepare_kick_rings: "prepare_kick G q m = Some (b, q') \<Longrightarrow> same_rings q q'"
  by (auto simp: prepare_kick_def bind_eq_Some_conv same_rings_def Let_def split: if_splits)

context guest_memory
begin

lemma write_u16_range: "write_u16 G m v a = (m', r) \<Longrightarrow> in_rng m' = in_rng m"
  unfolding write_u16_def by (drule write_frame) simp

lemma write_u32_range: "write_u32 G m v a = (m', r) \<Longrightarrow> in_rng m' = in_rng m"
  unfolding write_u32_def by (drule write_frame) simp

lemma add_used_range: "add_used G q m i n = Some (q', m', r) \<Longrightarrow> in_rng m' = in_rng m"
  by (auto simp: add_used_def Let_def elim!: bindE dest!: write_u16_range write_u32_range
      split: if_split_asm prod.split_asm sum.split_asm)

lemma set_avail_event_range: "set_avail_event G q v m = Some m' \<Longrightarrow> in_rng m' = in_rng m"
  by (clarsimp simp: set_avail_event_def bind_eq_Some_conv)
    (auto dest!: write_u16_range split: prod.split_asm sum.split_asm)

lemma try_enable_range:
  "\<forall>x. in_rng (drv x) = in_rng x \<Longrightarrow> try_enable_notification G drv q m = Some (b, m') \<Longrightarrow>
   in_rng m' = in_rng m"
  by (auto simp: try_enable_notification_def bind_eq_Some_conv Let_def
      dest!: set_avail_event_range split: if_splits)

lemma pop_or_enable_range:
  "\<forall>x. in_rng (drv x) = in_rng x \<Longrightarrow> pop_or_enable_notification G drv q m = Some (dc, q', m') \<Longrightarrow>
   in_rng m' = in_rng m"
  by (auto simp: pop_or_enable_notification_def bind_eq_Some_conv
      dest: try_enable_range split: if_splits)

lemma queue_step_frame:
  assumes "queue_step G in_rng (q, m) (q', m')"
  shows "in_rng m' = in_rng m \<and> same_rings q q'"
  using assms
  by (cases rule: queue_step.cases)
    (auto dest: pop_or_enable_range add_used_range pop_or_enable_rings add_used_rings
      prepare_kick_rings queue_pop_rings simp: undo_pop_def same_rings_def)

lemma queue_steps_frame:
  "(queue_step G in_rng)\<^sup>*\<^sup>* s t \<Longrightarrow>
   in_rng (snd t) = in_rng (snd s) \<and> queue_mapped (in_rng (snd t)) (fst t) = queue_mapped (in_rng (snd s)) (fst s)"
proof (induction rule: rtranclp_induct)
  case (step t u)
  then show ?case
    using queue_step_frame [of "fst t" "snd t" "fst u" "snd u"] same_rings_mapped by fastforce
qed simp

lemma try_enable_ok:
  assumes "queue_mapped (in_rng m) q" "\<forall>x. in_rng (drv x) = in_rng x"
  shows "\<exists>b m'. try_enable_notification G drv q m = Some (b, m')"
proof -
  from set_avail_event_ok [OF assms(1)] obtain m1
    where m1: "set_avail_event G q (next_avail q) m = Some m1" "in_rng m1 = in_rng m" by blast
  then have "queue_mapped (in_rng (drv m1)) q" using assms by simp
  then show ?thesis
    using m1 by (cases "uses_notif_suppression q")
      (auto simp: try_enable_notification_def queue_len_ok [OF assms(1)] avail_idx_ok Let_def)
qed

lemma mapped_ops_ok:
  assumes "queue_mapped (in_rng m) q" "\<forall>x. in_rng (drv x) = in_rng x"
  shows "queue_ops_ok G drv q m"
proof -
  note len = queue_len_ok [OF assms(1)] and dp = do_pop_unchecked_ok [OF assms(1)]
  have "queue_is_valid G q m \<noteq> None" by (simp add: queue_is_valid_def Let_def len del: not_None_eq)
  moreover have pop: "queue_pop G q m \<noteq> None" by (simp add: queue_pop_def len dp del: not_None_eq)
  moreover obtain b m' where en: "try_enable_notification G drv q m = Some (b, m')"
    using try_enable_ok [OF assms] by blast
  moreover have "queue_mapped (in_rng m') q"
    using try_enable_range [OF assms(2) en] assms(1) by simp
  then have "pop_or_enable_notification G drv q m \<noteq> None"
    using pop by (auto simp: pop_or_enable_notification_def en do_pop_unchecked_ok split: option.split)
  moreover have "prepare_kick G q m \<noteq> None"
    by (simp add: prepare_kick_def used_event_ok [OF assms(1)] Let_def del: not_None_eq)
  moreover have "add_used G q m i n \<noteq> None" for i n
  proof (cases "i < q_size q")
    case True
    with add_used_ok [OF assms(1)] show ?thesis by fastforce
  next
    case False
    then have "q_size q \<le> i" by simp
    with assms(1) show ?thesis by (simp add: add_used_def queue_mapped_def)
  qed
  ultimately show ?thesis unfolding queue_ops_ok_def by simp
qed

text \<open>In memory without holes, the checks of \<^verbatim>\<open>is_valid\<close> put the rings into it.\<close>

lemma in_bounds_all_in:
  assumes "contiguous (in_rng m)" "\<not> out_of_bounds G m a n"
  shows "all_in (in_rng m) (unat a) (unat n)"
proof -
  from assms(2) obtain v where v: "add_c a n = Some v" "in_rng m (unat v)"
    by (auto simp: out_of_bounds_def addr_add address_in_range split: option.splits)
  from unat_add_c [OF v(1)] have "unat v = unat a + unat n" .
  with assms(1) v(2) show ?thesis
    unfolding all_in_def contiguous_def by (metis add_le_cancel_left less_or_eq_imp_le)
qed

lemma checked_mapped:
  assumes "contiguous (in_rng m)" "max_size q \<le> 8191" "queue_is_valid G q m \<noteq> Some False"
  shows "queue_mapped (in_rng m) q \<and> pow2 (q_size q)"
proof -
  have sz: "queue_sized q" and p: "pow2 (q_size q)"
    using assms by (auto simp: queue_is_valid_def Let_def queue_sized_def pow2_def split: if_splits)
  from queue_sizedD [OF sz] have n: "unat (ucast (q_size q) :: u64) = unat (q_size q)" "unat (q_size q) \<le> 8191"
    by (simp_all add: unat_ucast_up)
  have "\<not> out_of_bounds G m (desc_table q) (16 * ucast (q_size q))"
    "\<not> out_of_bounds G m (avail_ring q) (6 + 2 * ucast (q_size q))"
    "\<not> out_of_bounds G m (used_ring q) (6 + 8 * ucast (q_size q))"
    using assms(3) sz by (auto simp: queue_is_valid_def Let_def split: if_splits)
  moreover have "unat (16 * ucast (q_size q) :: u64) = 16 * unat (q_size q)"
    "unat (6 + 2 * ucast (q_size q) :: u64) = 6 + 2 * unat (q_size q)"
    "unat (6 + 8 * ucast (q_size q) :: u64) = 6 + 8 * unat (q_size q)"
    using n by (simp_all add: unat_word_ariths)
  ultimately show ?thesis
    using in_bounds_all_in [OF assms(1)] sz p unfolding queue_mapped_def by metis
qed

lemma valid_mapped:
  assumes "contiguous (in_rng m)" "max_size q \<le> 8191" "queue_is_valid G q m = Some True"
  shows "queue_mapped (in_rng m) q \<and> pow2 (q_size q)"
  using checked_mapped [OF assms(1,2)] assms(3) by simp

lemma queue_is_valid_returns:
  assumes "contiguous (in_rng m)" "max_size q \<le> 8191"
  shows "queue_is_valid G q m \<noteq> None"
proof
  assume n: "queue_is_valid G q m = None"
  then have "queue_mapped (in_rng m) q" using checked_mapped [OF assms] by simp
  from n queue_len_ok [OF this] show False by (simp add: queue_is_valid_def Let_def split: if_split_asm)
qed

end

section \<open>Properties\<close>

text \<open>A queue of two entries in a memory of 4 KiB, used by the witnesses.\<close>

definition ex_mem :: ref_mem where
  "ex_mem = \<lparr> rm_ranges = [(0, 4096)], rm_bytes = (\<lambda>_. 0)(0x202 := 1, 0x108 := 16, 0x10C := 1) \<rparr>"

definition ex_queue :: Queue where
  "ex_queue = \<lparr> max_size = 2, q_size = 2, ready = True, desc_table = 0x100, avail_ring = 0x200, used_ring = 0x300,
     next_avail = 0, next_used = 0, uses_notif_suppression = True, num_added = 0 \<rparr>"

lemma ex_mem_in: "ref_in ex_mem k \<longleftrightarrow> k < 4096"
  by (auto simp: ref_in_def ex_mem_def)

lemma ex_mem_contiguous: "contiguous (ref_in ex_mem)"
  by (simp add: contiguous_def ex_mem_in)

lemma ex_queue_valid: "queue_is_valid ref_gm ex_queue ex_mem = Some True"
  by (simp add: queue_is_valid_def ex_queue_def actual_size_def out_of_bounds_def ref_gm_err_def add_c_def
      queue_len_def avail_idx_def read_u16_def ref_all_in_def ex_mem_in Let_def upt_rec bytes_at_def)
    (simp add: ex_mem_def)

lemma ex_queue_mapped: "queue_mapped (ref_in ex_mem) ex_queue"
  using refm.valid_mapped [OF ex_mem_contiguous _ ex_queue_valid] by (simp add: ex_queue_def)

text \<open>
  C8. Safety of an activated queue. When \<^verbatim>\<open>is_valid\<close> accepted a queue in guest memory without
  holes, then after any sequence of driver and device steps no operation of the queue panics:
  every \<^verbatim>\<open>unwrap\<close> of a memory access succeeds and no ring offset overflows, whatever the driver
  has written into the rings.
\<close>

theorem queue_never_panics:
  assumes "guest_memory G in_rng byte"
    and "contiguous (in_rng m)" and "max_size q \<le> 8191" and "queue_is_valid G q m = Some True"
    and "(queue_step G in_rng)\<^sup>*\<^sup>* (q, m) (q', m')" and "\<forall>x. in_rng (drv x) = in_rng x"
  shows "queue_ops_ok G drv q' m'"
  using guest_memory.mapped_ops_ok [OF assms(1) _ assms(6)]
    guest_memory.valid_mapped [OF assms(1-4)] guest_memory.queue_steps_frame [OF assms(1,5)]
  by auto

theorem queue_never_panics_witness:
  "queue_is_valid ref_gm ex_queue ex_mem = Some True \<and>
   queue_ops_ok ref_gm id (undo_pop ex_queue) ex_mem"
proof -
  have "(queue_step ref_gm ref_in)\<^sup>*\<^sup>* (ex_queue, ex_mem) (undo_pop ex_queue, ex_mem)"
    by (rule r_into_rtranclp) (rule queue_step.undo)
  then have "queue_ops_ok ref_gm id (undo_pop ex_queue) ex_mem"
    by (intro queue_never_panics [OF refm.guest_memory_axioms ex_mem_contiguous _ ex_queue_valid])
      (simp_all add: ex_queue_def)
  with ex_queue_valid show ?thesis by simp
qed

text \<open>
  C9. The available ring is a FIFO queue. \<^verbatim>\<open>pop\<close> returns nothing exactly when no chain is
  pending or the oldest one is malformed; otherwise it returns the chain of the oldest entry and
  the younger entries stay pending, in order. \<^verbatim>\<open>undo_pop\<close> puts the entry back.
\<close>

theorem pop_fifo:
  assumes "guest_memory G in_rng byte" and "queue_mapped (in_rng m) q"
  shows "\<exists>r q'. queue_pop G q m = Some (r, q') \<and>
    (case pending (byte m) q of
       [] \<Rightarrow> r = None \<and> q' = q
     | i # rest \<Rightarrow> r = checked_new G m (desc_table q) (q_size q) i \<and>
         (if r = None then q' = q else pending (byte m) q' = rest \<and> undo_pop q' = q))"
proof -
  define n where "n = unat (avail_idx_at (byte m) q - next_avail q)"
  note len = guest_memory.queue_len_ok [OF assms] and dp = guest_memory.do_pop_unchecked_ok [OF assms]
  show ?thesis
  proof (cases n)
    case 0
    then have "avail_idx_at (byte m) q - next_avail q = 0" by (simp add: n_def unat_eq_0)
    then show ?thesis using len by (simp add: queue_pop_def pending_def)
  next
    case (Suc k)
    let ?q = "q\<lparr>next_avail := next_avail q + 1\<rparr>"
    have nz: "avail_idx_at (byte m) q - next_avail q \<noteq> 0" using Suc unat_eq_0 unfolding n_def by fastforce
    have k: "unat (avail_idx_at (byte m) q - (next_avail q + 1)) = k"
      using Suc unat_minus_one [OF nz] by (simp add: n_def algebra_simps)
    have p: "pending (byte m) q = avail_entry (byte m) q (next_avail q) #
        map (\<lambda>j. avail_entry (byte m) q (next_avail q + of_nat j)) [1..<Suc k]"
      using Suc unfolding pending_def n_def [symmetric] by (simp add: upt_conv_Cons del: upt_Suc)
    have "pending (byte m) ?q = map (\<lambda>j. avail_entry (byte m) q (next_avail q + of_nat j)) (map Suc [0..<k])"
      unfolding pending_def using k by (simp add: avail_idx_at_def avail_entry_def add.assoc)
    then have p': "pending (byte m) ?q = map (\<lambda>j. avail_entry (byte m) q (next_avail q + of_nat j)) [1..<Suc k]"
      by (simp only: map_Suc_upt One_nat_def)
    show ?thesis
      using nz p p' by (auto simp: queue_pop_def len dp undo_pop_def split: option.splits)
  qed
qed

theorem pop_fifo_witness:
  "pending (rm_bytes ex_mem) ex_queue = [0] \<and>
   (\<exists>c q'. queue_pop ref_gm ex_queue ex_mem = Some (Some c, q') \<and> dc_index c = 0 \<and> dc_len c = 16 \<and>
      has_next c \<and> pending (rm_bytes ex_mem) q' = [] \<and> undo_pop q' = ex_queue)"
proof -
  have p: "pending (rm_bytes ex_mem) ex_queue = [0]"
    by (simp add: pending_def avail_idx_at_def u16_at_def bytes_at_def upt_rec avail_entry_def)
      (simp add: ex_mem_def ex_queue_def)
  have "\<exists>c. checked_new ref_gm ex_mem (desc_table ex_queue) (q_size ex_queue) 0 = Some c \<and>
      dc_index c = 0 \<and> dc_len c = 16 \<and> has_next c"
    by (simp add: checked_new_def ref_gm_err_def add_c_def ex_mem_in ex_queue_def ref_all_in_def bytes_at_def
        upt_rec Descriptor_of_bytes_def chain_is_valid_def has_next_def VIRTQ_DESC_F_NEXT_def Let_def)
      (simp add: ex_mem_def)
  with p pop_fifo [OF refm.guest_memory_axioms ex_queue_mapped] show ?thesis
    by (auto split: if_splits)
qed

text \<open>Completing a list of chains, in order.\<close>

fun add_used_all :: "('m, 'e) guest_mem \<Rightarrow> Queue \<Rightarrow> 'm \<Rightarrow> (u16 \<times> u32) list \<Rightarrow> (Queue \<times> 'm) option" where
  "add_used_all G q m [] = Some (q, m)"
| "add_used_all G q m ((i, n) # es) =
     (case add_used G q m i n of
        Some (q', m', Inr _) \<Rightarrow> add_used_all G q' m' es
      | _ \<Rightarrow> None)"

lemma add_used_all_append:
  "add_used_all G q m (es @ fs) = do { (q', m') \<leftarrow> add_used_all G q m es; add_used_all G q' m' fs }"
  by (induction G q m es rule: add_used_all.induct) (auto split: option.splits sum.splits)

lemma mod_add_inj:
  fixes a i j n :: nat
  assumes "i < n" "j < n" "(a + i) mod n = (a + j) mod n"
  shows "i = j"
proof -
  have z: "(a + (n - a mod n)) mod n = 0"
    using assms by (metis gr_implies_not_zero le_add_diff_inverse less_or_eq_imp_le
        mod_add_left_eq mod_less_divisor mod_self neq0_conv)
  have "x mod n = ((a + x) mod n + (n - a mod n)) mod n" for x
  proof -
    have "((a + x) mod n + (n - a mod n)) mod n = (x + (a + (n - a mod n))) mod n"
      by (subst mod_add_left_eq) (simp add: ac_simps)
    also have "\<dots> = (x + (a + (n - a mod n)) mod n) mod n" by (simp only: mod_add_right_eq)
    finally show ?thesis using z by simp
  qed
  with assms have "i mod n = j mod n" by metis
  with assms show ?thesis by simp
qed

lemma used_slot_disjoint:
  assumes "pow2 (q_size q)" "i < unat (q_size q)" "j < unat (q_size q)" "i \<noteq> j"
  shows "used_slot q (a + of_nat i) + 8 \<le> used_slot q (a + of_nat j) \<or>
    used_slot q (a + of_nat j) + 8 \<le> used_slot q (a + of_nat i)"
proof -
  have "(unat a + i) mod unat (q_size q) \<noteq> (unat a + j) mod unat (q_size q)"
    using mod_add_inj [of i "unat (q_size q)" j "unat a"] assms by blast
  then show ?thesis unfolding used_slot_def pow2_ring_index [OF assms(1)] by linarith
qed

lemma used_slot_bounds:
  assumes "q_size q \<noteq> 0"
  shows "unat (used_ring q) + 4 \<le> used_slot q i \<and>
    used_slot q i + 8 \<le> unat (used_ring q) + (4 + 8 * unat (q_size q))"
proof -
  have "unat i mod unat (q_size q) < unat (q_size q)" using assms by (simp add: unat_gt_0)
  then show ?thesis by (simp add: used_slot_def)
qed

lemma used_at_upd [simp]:
  "used_slot (q\<lparr>num_added := x, next_used := y\<rparr>) = used_slot q"
  "used_idx_at b (q\<lparr>num_added := x, next_used := y\<rparr>) = used_idx_at b q"
  "used_entry b (q\<lparr>num_added := x, next_used := y\<rparr>) = used_entry b q"
  by (auto simp: used_slot_def used_idx_at_def used_entry_def fun_eq_iff)

text \<open>What the driver reads of the used ring after one more completion.\<close>

lemma used_ring_after:
  fixes b b' :: "nat \<Rightarrow> u8"
  assumes "b' = upd_bytes (upd_bytes (upd_bytes b
      (used_slot q u) (le_bytes 4 (unat (i :: u16)))) (used_slot q u + 4) (le_bytes 4 (unat n)))
      (unat (used_ring q) + 2) (le_bytes 2 (unat v))" "q_size q \<noteq> 0"
  shows "used_idx_at b' q = v" "used_entry b' q u = (ucast i, n)"
    "used_slot q w + 8 \<le> used_slot q u \<or> used_slot q u + 8 \<le> used_slot q w \<Longrightarrow> used_entry b' q w = used_entry b q w"
    "k < unat (used_ring q) + 2 \<or> unat (used_ring q) + (4 + 8 * unat (q_size q)) \<le> k \<Longrightarrow> b' k = b k"
proof -
  note bu = used_slot_bounds [OF assms(2), of u] and bw = used_slot_bounds [OF assms(2), of w]
  have i: "le_bytes 4 (unat i) = le_bytes 4 (unat (ucast i :: u32))" by (simp add: unat_ucast_up)
  show "used_idx_at b' q = v" unfolding used_idx_at_def assms(1) by simp
  show "used_entry b' q u = (ucast i, n)"
    unfolding used_entry_def assms(1) i using bu by (simp add: u32_at_upd_other)
  show "used_slot q w + 8 \<le> used_slot q u \<or> used_slot q u + 8 \<le> used_slot q w \<Longrightarrow> used_entry b' q w = used_entry b q w"
    unfolding used_entry_def assms(1) using bu bw by (auto simp: u32_at_upd_other)
  show "k < unat (used_ring q) + 2 \<or> unat (used_ring q) + (4 + 8 * unat (q_size q)) \<le> k \<Longrightarrow> b' k = b k"
    unfolding assms(1) upd_bytes_def using bu by auto
qed

text \<open>
  C10. The used ring delivers completions in order. Up to one ring's worth of completions of valid
  chains all succeed; afterwards the driver finds every one of them at its place after the old
  index, in order and with its length, the published index counts them all, and memory outside
  the used ring is untouched.
\<close>

theorem used_ring_fifo:
  assumes "guest_memory G in_rng byte" and "queue_mapped (in_rng m) q" and "pow2 (q_size q)"
    and "length es \<le> unat (q_size q)" and "list_all (\<lambda>(i, n). i < q_size q) es" and "es \<noteq> []"
  shows "\<exists>q' m'. add_used_all G q m es = Some (q', m') \<and>
    next_used q' = next_used q + of_nat (length es) \<and> used_idx_at (byte m') q = next_used q' \<and>
    map (\<lambda>k. used_entry (byte m') q (next_used q + of_nat k)) [0..<length es] = map (\<lambda>(i, n). (ucast i, n)) es \<and>
    (\<forall>k. k < unat (used_ring q) + 2 \<or> unat (used_ring q) + (4 + 8 * unat (q_size q)) \<le> k \<longrightarrow> byte m' k = byte m k)"
proof -
  have qz: "q_size q \<noteq> 0" using assms(3) by (simp add: pow2_def)
  have "\<exists>q' m' x. add_used_all G q m es = Some (q', m') \<and>
      q' = q\<lparr>num_added := x, next_used := next_used q + of_nat (length es)\<rparr> \<and> in_rng m' = in_rng m \<and>
      (es \<noteq> [] \<longrightarrow> used_idx_at (byte m') q = next_used q') \<and>
      (\<forall>k<length es. used_entry (byte m') q (next_used q + of_nat k) = (\<lambda>(i, n). (ucast i, n)) (es ! k)) \<and>
      (\<forall>k. k < unat (used_ring q) + 2 \<or> unat (used_ring q) + (4 + 8 * unat (q_size q)) \<le> k \<longrightarrow> byte m' k = byte m k)"
    using assms(4,5)
  proof (induction es rule: rev_induct)
    case Nil
    show ?case by (auto intro: exI [of _ "num_added q"])
  next
    case (snoc e es)
    obtain i n where e: "e = (i, n)" by (cases e)
    from snoc obtain q1 m1 x where ih: "add_used_all G q m es = Some (q1, m1)"
      "q1 = q\<lparr>num_added := x, next_used := next_used q + of_nat (length es)\<rparr>" "in_rng m1 = in_rng m"
      "\<forall>k<length es. used_entry (byte m1) q (next_used q + of_nat k) = (\<lambda>(i, n). (ucast i, n)) (es ! k)"
      "\<forall>k. k < unat (used_ring q) + 2 \<or> unat (used_ring q) + (4 + 8 * unat (q_size q)) \<le> k \<longrightarrow> byte m1 k = byte m k"
      by auto
    let ?u = "next_used q + of_nat (length es)"
    have "queue_mapped (in_rng m1) q1" "i < q_size q1"
      using ih(2,3) assms(2) snoc.prems(2) e by simp_all
    from guest_memory.add_used_ok [OF assms(1) this, of n] obtain m2
      where m2: "add_used G q1 m1 i n = Some (q1\<lparr>num_added := num_added q1 + 1, next_used := next_used q1 + 1\<rparr>, m2, Inr ())"
        "in_rng m2 = in_rng m1"
        and b2: "byte m2 = upd_bytes (upd_bytes (upd_bytes (byte m1) (used_slot q ?u) (le_bytes 4 (unat i)))
          (used_slot q ?u + 4) (le_bytes 4 (unat n))) (unat (used_ring q) + 2) (le_bytes 2 (unat (?u + 1)))"
      using ih(2) by auto
    note aft = used_ring_after [OF b2 qz]
    have "used_entry (byte m2) q (next_used q + of_nat k) = used_entry (byte m1) q (next_used q + of_nat k)"
      if "k < length es" for k
      using that snoc.prems(1) used_slot_disjoint [OF assms(3), of k "length es" "next_used q"]
      by (intro aft(3)) simp
    then have ent: "used_entry (byte m2) q (next_used q + of_nat k) = (\<lambda>(i, n). (ucast i, n)) ((es @ [e]) ! k)"
      if "k < length (es @ [e])" for k
      using that ih(4) aft(2) e by (cases "k = length es") (auto simp: nth_append)
    let ?q2 = "q\<lparr>num_added := x + 1, next_used := next_used q + of_nat (length (es @ [e]))\<rparr>"
    have u: "?u + 1 = next_used q + of_nat (length (es @ [e]))" by simp
    have "add_used_all G q m (es @ [e]) = Some (?q2, m2)"
      using ih(1,2) m2(1) e u by (simp add: add_used_all_append)
    moreover have "used_idx_at (byte m2) q = next_used ?q2" using aft(1) u by simp
    moreover have "in_rng m2 = in_rng m" using ih(3) m2(2) by simp
    ultimately show ?case using ent aft(4) ih(5) by auto
  qed
  then obtain q' m' x where r: "add_used_all G q m es = Some (q', m')"
    "q' = q\<lparr>num_added := x, next_used := next_used q + of_nat (length es)\<rparr>"
    "used_idx_at (byte m') q = next_used q'"
    "\<forall>k<length es. used_entry (byte m') q (next_used q + of_nat k) = (\<lambda>(i, n). (ucast i, n)) (es ! k)"
    "\<forall>k. k < unat (used_ring q) + 2 \<or> unat (used_ring q) + (4 + 8 * unat (q_size q)) \<le> k \<longrightarrow> byte m' k = byte m k"
    using assms(6) by blast
  have "map (\<lambda>k. used_entry (byte m') q (next_used q + of_nat k)) [0..<length es] = map (\<lambda>(i, n). (ucast i, n)) es"
    by (rule nth_equalityI) (simp_all add: r(4))
  moreover have "next_used q' = next_used q + of_nat (length es)" by (simp add: r(2))
  ultimately show ?thesis using r(1,3,5) by blast
qed

theorem used_ring_fifo_witness:
  "\<exists>q' m'. add_used_all ref_gm ex_queue ex_mem [(1, 7), (0, 9)] = Some (q', m') \<and> next_used q' = 2 \<and>
     used_idx_at (rm_bytes m') ex_queue = 2 \<and>
     map (\<lambda>k. used_entry (rm_bytes m') ex_queue (of_nat k)) [0..<2] = [(1, 7), (0, 9)]"
  using used_ring_fifo [OF refm.guest_memory_axioms ex_queue_mapped, of "[(1, 7), (0, 9)]"]
  by (auto simp: ex_queue_def pow2_def upt_rec)

lemma kick_window:
  fixes new n ue :: "'a::len word"
  shows "new - ue - 1 < n \<longleftrightarrow> (\<exists>k < unat n. ue = new - n + of_nat k)"
proof -
  define d where "d = new - ue - 1"
  have "unat d < unat n \<longleftrightarrow> (\<exists>k < unat n. ue = new - n + of_nat k)"
  proof
    assume lt: "unat d < unat n"
    let ?k = "unat n - 1 - unat d"
    have "of_nat ?k = n - 1 - d" using lt by (simp add: of_nat_diff)
    then have "ue = new - n + of_nat ?k" by (simp add: d_def)
    moreover have "?k < unat n" using lt by simp
    ultimately show "\<exists>k < unat n. ue = new - n + of_nat k" by blast
  next
    assume "\<exists>k < unat n. ue = new - n + of_nat k"
    then obtain k where k: "k < unat n" "ue = new - n + of_nat k" by blast
    have "d = of_nat (unat n - 1 - k)" using k by (simp add: d_def of_nat_diff)
    moreover have "unat n < 2 ^ LENGTH('a)" by simp
    then have "unat n - 1 - k < 2 ^ LENGTH('a)" by (simp add: less_imp_diff_less)
    ultimately have "unat d = unat n - 1 - k" by (simp add: unat_of_nat)
    with k show "unat d < unat n" by linarith
  qed
  then show ?thesis by (simp add: d_def word_less_nat_alt)
qed

text \<open>
  C11. Interrupt suppression. With the event index negotiated, \<^verbatim>\<open>prepare_kick\<close> asks for an
  interrupt exactly when the driver's \<^verbatim>\<open>used_event\<close> is one of the entries completed since the
  last call, modulo the wrap-around of the 16-bit index, and starts a new window.
\<close>

theorem prepare_kick_window:
  assumes "guest_memory G in_rng byte" and "queue_mapped (in_rng m) q" and "uses_notif_suppression q"
  shows "prepare_kick G q m = Some
    (\<exists>k < unat (num_added q). used_event_at (byte m) q = next_used q - num_added q + of_nat k, q\<lparr>num_added := 0\<rparr>)"
  using assms(3) guest_memory.used_event_ok [OF assms(1,2)] by (simp add: prepare_kick_def kick_window)

theorem prepare_kick_window_witness:
  "prepare_kick ref_gm (ex_queue\<lparr>next_used := 1, num_added := 2\<rparr>) ex_mem =
     Some (True, ex_queue\<lparr>next_used := 1\<rparr>)"
proof -
  let ?q = "ex_queue\<lparr>next_used := 1, num_added := 2\<rparr>"
  have "used_event_at (rm_bytes ex_mem) ?q = 0"
    by (simp add: used_event_at_def u16_at_def bytes_at_def ex_queue_def ex_mem_def upt_rec)
  then have "\<exists>k < unat (num_added ?q). used_event_at (rm_bytes ex_mem) ?q = next_used ?q - num_added ?q + of_nat k"
    by (intro exI [of _ 1]) simp
  then show ?thesis
    using prepare_kick_window [OF refm.guest_memory_axioms, of ex_mem ?q] ex_queue_mapped
    by (simp add: ex_queue_def queue_mapped_def queue_sized_def)
qed

text \<open>
  The driver's side of notification suppression (\<^verbatim>\<open>vring_need_event\<close> of the virtio
  specification): publishing \<open>k\<close> entries at index \<open>old\<close>, does it notify the device?
\<close>

definition driver_notifies :: "u16 \<Rightarrow> u16 \<Rightarrow> u16 \<Rightarrow> bool" where
  "driver_notifies event old k \<longleftrightarrow> (old + k) - event - 1 < (old + k) - old"

text \<open>
  C12. No notification is lost. Whatever the driver does meanwhile (short of writing the
  device-owned \<^verbatim>\<open>avail_event\<close> field), when \<^verbatim>\<open>try_enable_notification\<close> reports success the ring is
  empty and the driver will notify the device whenever it publishes more entries; when it reports
  failure there is a chain to pop.
\<close>

theorem notification_not_lost:
  assumes "guest_memory G in_rng byte" and "queue_mapped (in_rng m) q" and "uses_notif_suppression q"
    and "\<forall>x. in_rng (drv x) = in_rng x"
    and "\<forall>x. avail_event_at (byte (drv x)) q = avail_event_at (byte x) q"
  shows "\<exists>b m'. try_enable_notification G drv q m = Some (b, m') \<and>
    (if b then pending (byte m') q = [] \<and>
       (\<forall>k. k \<noteq> 0 \<longrightarrow> driver_notifies (avail_event_at (byte m') q) (avail_idx_at (byte m') q) k)
     else pending (byte m') q \<noteq> [])"
proof -
  obtain m1 where m1: "set_avail_event G q (next_avail q) m = Some m1" "in_rng m1 = in_rng m"
    "byte m1 = upd_bytes (byte m) (unat (used_ring q) + (4 + 8 * unat (q_size q))) (le_bytes 2 (unat (next_avail q)))"
    using guest_memory.set_avail_event_ok [OF assms(1,2)] by blast
  have ev: "avail_event_at (byte (drv m1)) q = next_avail q"
    using assms(5) m1(3) by (simp add: avail_event_at_def)
  have "queue_mapped (in_rng (drv m1)) q" using assms(2,4) m1(2) by simp
  note idx = guest_memory.avail_idx_ok [OF assms(1) this]
  have pend: "pending b q = [] \<longleftrightarrow> avail_idx_at b q = next_avail q" for b
    by (simp add: pending_def unat_eq_0)
  show ?thesis
  proof (cases "avail_idx_at (byte m) q = next_avail q")
    case True
    have "k - 1 < k" if "k \<noteq> 0" for k :: u16
      using that by (simp add: word_less_nat_alt unat_minus_one unat_gt_0)
    then show ?thesis
      using True assms(3) m1(1) idx ev guest_memory.queue_len_ok [OF assms(1,2)]
      by (auto simp: try_enable_notification_def pend Let_def driver_notifies_def)
  next
    case False
    then show ?thesis
      using assms(3) guest_memory.queue_len_ok [OF assms(1,2)]
      by (auto simp: try_enable_notification_def pend)
  qed
qed

theorem notification_not_lost_witness:
  "\<exists>b m'. try_enable_notification ref_gm id (ex_queue\<lparr>next_avail := 1\<rparr>) ex_mem = Some (b, m') \<and>
     (if b then pending (rm_bytes m') (ex_queue\<lparr>next_avail := 1\<rparr>) = [] \<and>
       (\<forall>k. k \<noteq> 0 \<longrightarrow> driver_notifies (avail_event_at (rm_bytes m') (ex_queue\<lparr>next_avail := 1\<rparr>))
          (avail_idx_at (rm_bytes m') (ex_queue\<lparr>next_avail := 1\<rparr>)) k)
      else pending (rm_bytes m') (ex_queue\<lparr>next_avail := 1\<rparr>) \<noteq> [])"
proof (rule notification_not_lost [OF refm.guest_memory_axioms])
  show "queue_mapped (ref_in ex_mem) (ex_queue\<lparr>next_avail := 1\<rparr>)" using ex_queue_mapped by simp
  show "uses_notif_suppression (ex_queue\<lparr>next_avail := 1\<rparr>)" by (simp add: ex_queue_def)
qed simp_all

text \<open>The descriptors a device visits when it follows \<^verbatim>\<open>next_descriptor\<close> to the end.\<close>

function chain_walk :: "('m, 'e) guest_mem \<Rightarrow> 'm \<Rightarrow> DescriptorChain \<Rightarrow> DescriptorChain list" where
  "chain_walk G m c = c # (case next_descriptor G m c of None \<Rightarrow> [] | Some d \<Rightarrow> chain_walk G m d)"
  by auto

lemma checked_newD:
  assumes "checked_new G m table n i = Some c"
  shows "dc_ttl c = n \<and> dc_queue_size c = n \<and> dc_index c = i \<and> i < n \<and> dc_desc_table c = table"
  using assms unfolding checked_new_def
  by (auto simp: Let_def elim!: bindE split: if_split_asm sum.split_asm)

lemma next_descriptorD:
  assumes "next_descriptor G m c = Some d"
  shows "unat (dc_ttl d) < unat (dc_ttl c)" "0 < unat (dc_ttl d)" "dc_index d = dc_next c"
    "dc_index d < dc_queue_size d" "dc_queue_size d = dc_queue_size c"
proof -
  from assms have "dc_ttl c > 1" "dc_ttl d = dc_ttl c - 1"
    by (auto simp: next_descriptor_def has_next_def split: if_splits)
  moreover from this have "dc_ttl c \<noteq> 0" by auto
  ultimately show "unat (dc_ttl d) < unat (dc_ttl c)" "0 < unat (dc_ttl d)"
    by (simp_all add: unat_minus_one word_less_nat_alt)
  show "dc_index d = dc_next c" "dc_index d < dc_queue_size d" "dc_queue_size d = dc_queue_size c"
    using assms by (auto simp: next_descriptor_def dest!: checked_newD split: if_splits)
qed

termination chain_walk
  by (relation "measure (\<lambda>(G, m, c). unat (dc_ttl c))") (auto dest: next_descriptorD(1))

declare chain_walk.simps [simp del]

lemma chain_walk_props:
  "0 < unat (dc_ttl c) \<Longrightarrow> dc_index c < dc_queue_size c \<Longrightarrow>
   length (chain_walk G m c) \<le> unat (dc_ttl c) \<and>
   list_all (\<lambda>d. dc_index d < dc_queue_size c) (chain_walk G m c) \<and>
   successively (\<lambda>d e. dc_index e = dc_next d) (chain_walk G m c) \<and>
   next_descriptor G m (last (chain_walk G m c)) = None"
proof (induction G m c rule: chain_walk.induct)
  case (1 G m c)
  show ?case
  proof (cases "next_descriptor G m c")
    case None
    then show ?thesis using 1 by (simp add: chain_walk.simps [of G m c])
  next
    case (Some d)
    note d = next_descriptorD [OF Some]
    obtain ds where ds: "chain_walk G m d = d # ds" using chain_walk.simps [of G m d] by blast
    show ?thesis
      using 1(1) [OF Some d(2,4)] d 1 Some by (simp add: chain_walk.simps [of G m c] ds)
  qed
qed

text \<open>
  C13. Descriptor chains always end. Following a chain from its head visits at most as many
  descriptors as the queue has entries, each of them inside the descriptor table and each the
  successor of the one before, even when the driver linked the descriptors into a cycle.
\<close>

theorem descriptor_chain_bounded:
  assumes "checked_new G m table n i = Some c"
  shows "length (chain_walk G m c) \<le> unat n \<and> list_all (\<lambda>d. dc_index d < n) (chain_walk G m c) \<and>
    successively (\<lambda>d e. dc_index e = dc_next d) (chain_walk G m c) \<and>
    next_descriptor G m (last (chain_walk G m c)) = None"
proof -
  from checked_newD [OF assms] have "dc_ttl c = n" "dc_queue_size c = n" "dc_index c = i" "i < n"
    by simp_all
  moreover from this have "0 < unat n" by (auto simp: unat_gt_0)
  ultimately show ?thesis using chain_walk_props [of c G m] by simp
qed

theorem descriptor_chain_bounded_witness:
  "\<exists>c. checked_new ref_gm ex_mem 0x100 2 0 = Some c \<and> dc_next c = 0 \<and>
     length (chain_walk ref_gm ex_mem c) \<le> 2 \<and> next_descriptor ref_gm ex_mem c \<noteq> None"
proof -
  have "\<exists>c. checked_new ref_gm ex_mem 0x100 2 0 = Some c \<and> dc_next c = 0 \<and> has_next c"
    by (simp add: checked_new_def ref_gm_err_def add_c_def ex_mem_in ref_all_in_def bytes_at_def upt_rec
        Descriptor_of_bytes_def chain_is_valid_def has_next_def VIRTQ_DESC_F_NEXT_def Let_def)
      (simp add: ex_mem_def)
  then obtain c where c: "checked_new ref_gm ex_mem 0x100 2 0 = Some c" "dc_next c = 0" "has_next c" by blast
  from checked_newD [OF c(1)] c have "next_descriptor ref_gm ex_mem c \<noteq> None"
    by (simp add: next_descriptor_def)
  with c descriptor_chain_bounded [OF c(1)] show ?thesis by auto
qed

text \<open>
  Guest memory has a hole (the MMIO gap) as soon as it exceeds 3.25 GiB. There \<^verbatim>\<open>is_valid\<close> checks
  the end of each ring only: a driver that puts the start of the available ring into the hole makes
  the check itself panic.
\<close>

definition hole_mem :: ref_mem where
  "hole_mem = \<lparr> rm_ranges = [(0, 0x800), (0x1000, 0x2000)], rm_bytes = (\<lambda>_. 0) \<rparr>"

lemma is_valid_panics_in_hole:
  "queue_is_valid ref_gm (ex_queue\<lparr>max_size := 16, q_size := 16, avail_ring := 0xFF0\<rparr>) hole_mem = None"
  by (simp add: queue_is_valid_def ex_queue_def actual_size_def out_of_bounds_def ref_gm_err_def add_c_def
      queue_len_def avail_idx_def read_u16_def ref_all_in_def ref_in_def hole_mem_def Let_def upt_rec)

end
