(* ===== verification/Vsock_Txbuf.thy ===== *)
theory Vsock_Txbuf
  imports Prelude
begin

text \<open>
  The transmit ring buffer of a vsock connection,
  \<open>src/firecracker/src/devices/src/virtio/vsock/csm/txbuf.rs\<close>, with the constants and the error
  type of \<open>csm/mod.rs\<close>. The host side stream is a parameter: the \<^verbatim>\<open>write\<close> function of
  \<^verbatim>\<open>std::io::Write\<close>, whose contract is the locale \<open>stream_write\<close>. The buffer refines a
  queue of bytes: \<open>contents\<close> is what was pushed and not yet flushed.
\<close>

section \<open>Definitions\<close>

definition CONN_TX_BUF_SIZE :: u32 where "CONN_TX_BUF_SIZE = 64 * 1024"
definition CONN_CREDIT_UPDATE_THRESHOLD :: u32 where "CONN_CREDIT_UPDATE_THRESHOLD = 4 * 1024"
definition CONN_REQUEST_TIMEOUT_MS :: nat where "CONN_REQUEST_TIMEOUT_MS = 2000"
definition CONN_SHUTDOWN_TIMEOUT_MS :: nat where "CONN_SHUTDOWN_TIMEOUT_MS = 2000"

text \<open>The kinds of \<^verbatim>\<open>std::io::Error\<close> that the code tells apart; \<open>OsError\<close> is every other one.\<close>

datatype ErrorKind = WouldBlock | Other | OsError nat

datatype CsmError = TxBufFull | TxBufFlush ErrorKind | StreamWrite ErrorKind

text \<open>\<^verbatim>\<open>Write::write\<close>: the number of bytes taken, or an error, and the stream afterwards.\<close>

type_synonym 's writer = "'s \<Rightarrow> bytes \<Rightarrow> (ErrorKind + nat) \<times> 's"

record TxBuf =
  tb_data :: "bytes option"
  tb_head :: u32
  tb_tail :: u32

definition TxBuf_SIZE :: nat where
  "TxBuf_SIZE = unat CONN_TX_BUF_SIZE"

definition TxBuf_new :: TxBuf where
  "TxBuf_new = \<lparr> tb_data = None, tb_head = 0, tb_tail = 0 \<rparr>"

definition TxBuf_len :: "TxBuf \<Rightarrow> nat" where
  "TxBuf_len t = unat (tb_head t - tb_tail t)"

definition TxBuf_is_empty :: "TxBuf \<Rightarrow> bool" where
  "TxBuf_is_empty t \<longleftrightarrow> TxBuf_len t = 0"

definition TxBuf_push :: "TxBuf \<Rightarrow> bytes \<Rightarrow> ((CsmError + unit) \<times> TxBuf) option" where
  "TxBuf_push t src =
     (if TxBuf_len t + length src > TxBuf_SIZE then Some (Inl TxBufFull, t)
      else do {
        let data = (case tb_data t of Some d \<Rightarrow> d | None \<Rightarrow> replicate TxBuf_SIZE 0);
        let head_ofs = unat (tb_head t) mod TxBuf_SIZE;
        let n = min (TxBuf_SIZE - head_ofs) (length src);
        data1 \<leftarrow> copy_to data head_ofs (take n src);
        data2 \<leftarrow> (if n < length src then copy_to data1 0 (drop n src) else Some data1);
        Some (Inr (), t\<lparr> tb_data := Some data2, tb_head := tb_head t + of_nat (length src) \<rparr>)
      })"

partial_function (option) TxBuf_flush_to ::
    "'s writer \<Rightarrow> TxBuf \<Rightarrow> 's \<Rightarrow> ((CsmError + nat) \<times> TxBuf \<times> 's) option" where
  "TxBuf_flush_to w t s =
     (if TxBuf_is_empty t then Some (Inr 0, t, s)
      else do {
        let tail_ofs = unat (tb_tail t) mod TxBuf_SIZE;
        let len_to_write = min (TxBuf_SIZE - tail_ofs) (TxBuf_len t);
        data \<leftarrow> tb_data t;
        chunk \<leftarrow> subslice data tail_ofs (tail_ofs + len_to_write);
        (case w s chunk of
           (Inl err, s1) \<Rightarrow> Some (Inl (TxBufFlush err), t, s1)
         | (Inr written, s1) \<Rightarrow> do {
             let t1 = t\<lparr> tb_tail := tb_tail t + of_nat written \<rparr>;
             if written < len_to_write then Some (Inr written, t1, s1)
             else do {
               (res, t2, s2) \<leftarrow> TxBuf_flush_to w t1 s1;
               Some (Inr (written + (case res of Inl _ \<Rightarrow> 0 | Inr k \<Rightarrow> k)), t2, s2)
             }
           })
      })"

text \<open>\<^verbatim>\<open>impl Write for TxBuf\<close>.\<close>

definition TxBuf_write :: "TxBuf \<Rightarrow> bytes \<Rightarrow> ((ErrorKind + nat) \<times> TxBuf) option" where
  "TxBuf_write t buf = do {
     (res, t') \<leftarrow> TxBuf_push t buf;
     Some (map_sum (\<lambda>_. Other) (\<lambda>_. length buf) res, t')
   }"

section \<open>Abstraction and invariant\<close>

definition tb_wf :: "TxBuf \<Rightarrow> bool" where
  "tb_wf t \<longleftrightarrow> TxBuf_len t \<le> TxBuf_SIZE \<and>
     (case tb_data t of None \<Rightarrow> TxBuf_len t = 0 | Some d \<Rightarrow> length d = TxBuf_SIZE)"

text \<open>The \<open>n\<close> bytes of a ring that follow the position \<open>p\<close>.\<close>

definition ring :: "bytes \<Rightarrow> nat \<Rightarrow> nat \<Rightarrow> bytes" where
  "ring d p n = map (\<lambda>i. d ! ((p + i) mod TxBuf_SIZE)) [0..<n]"

definition contents :: "TxBuf \<Rightarrow> bytes" where
  "contents t = (case tb_data t of None \<Rightarrow> [] | Some d \<Rightarrow> ring d (unat (tb_tail t)) (TxBuf_len t))"

lemma TxBuf_SIZE_val: "TxBuf_SIZE = 65536"
  by (simp add: TxBuf_SIZE_def CONN_TX_BUF_SIZE_def)

lemma TxBuf_SIZE_pos [simp]: "0 < TxBuf_SIZE"
  by (simp add: TxBuf_SIZE_val)

lemma length_ring [simp]: "length (ring d p n) = n"
  by (simp add: ring_def)

lemma ring_nth [simp]: "i < n \<Longrightarrow> ring d p n ! i = d ! ((p + i) mod TxBuf_SIZE)"
  by (simp add: ring_def)

lemma ring_add: "ring d p (m + n) = ring d p m @ ring d (p + m) n"
  by (rule nth_equalityI) (auto simp: nth_append algebra_simps)

lemma ring_mod: "p mod TxBuf_SIZE = q mod TxBuf_SIZE \<Longrightarrow> ring d p n = ring d q n"
  by (auto simp: ring_def intro!: map_cong) (metis mod_add_left_eq)

lemma length_contents: "tb_wf t \<Longrightarrow> length (contents t) = TxBuf_len t"
  by (auto simp: contents_def tb_wf_def split: option.splits)

lemma TxBuf_new_wf [simp]: "tb_wf TxBuf_new" "contents TxBuf_new = []"
  by (simp_all add: TxBuf_new_def tb_wf_def TxBuf_len_def contents_def)

text \<open>The buffer size divides the range of the wrapping offsets, so positions survive a wrap.\<close>

lemma unat_add_mod_SIZE:
  "unat (a + of_nat n :: u32) mod TxBuf_SIZE = (unat a + n) mod TxBuf_SIZE"
proof -
  have "unat (a + of_nat n :: u32) = (unat a + n) mod 4294967296"
    by (simp add: unat_word_ariths unat_of_nat mod_simps)
  moreover have "TxBuf_SIZE dvd 4294967296" by (simp add: TxBuf_SIZE_val)
  ultimately show ?thesis by (simp only: mod_mod_cancel)
qed

lemma unat_diff_add:
  fixes h t :: u32
  assumes "unat (h - t) + n < 2 ^ 32"
  shows "unat (h + of_nat n - t) = unat (h - t) + n"
proof -
  have "h + of_nat n - t = (h - t) + of_nat n" by simp
  then have "unat (h + of_nat n - t) = (unat (h - t) + n) mod 2 ^ 32"
    by (simp only: unat_word_ariths) (simp add: unat_of_nat mod_simps)
  then show ?thesis using assms by simp
qed

lemma unat_diff_sub:
  fixes h t :: u32
  assumes "n \<le> unat (h - t)"
  shows "unat (h - (t + of_nat n)) = unat (h - t) - n"
proof -
  have lt: "unat (h - t) < 2 ^ 32" using unsigned_less [of "h - t"] by simp
  have "unat (of_nat n :: u32) = n" using assms lt by (simp add: unat_of_nat)
  moreover have "h - (t + of_nat n) = (h - t) - of_nat n" by simp
  moreover have "(of_nat n :: u32) \<le> h - t"
    using assms lt calculation(1) by (simp add: word_le_nat_alt)
  ultimately show ?thesis by (simp only: unat_sub)
qed

lemma len_advance_head:
  "TxBuf_len t + n < 2 ^ 32 \<Longrightarrow>
   TxBuf_len (t\<lparr>tb_data := d, tb_head := tb_head t + of_nat n\<rparr>) = TxBuf_len t + n"
  by (simp add: TxBuf_len_def unat_diff_add)

lemma len_advance_tail:
  "n \<le> TxBuf_len t \<Longrightarrow> TxBuf_len (t\<lparr>tb_tail := tb_tail t + of_nat n\<rparr>) = TxBuf_len t - n"
  by (simp add: TxBuf_len_def unat_diff_sub)

lemma head_pos: "unat (tb_head t) mod TxBuf_SIZE = (unat (tb_tail t) + TxBuf_len t) mod TxBuf_SIZE"
  using unat_add_mod_SIZE [of "tb_tail t" "TxBuf_len t"] by (simp add: TxBuf_len_def)

section \<open>Push\<close>

lemma wrap_pos:
  assumes "i < TxBuf_SIZE"
  shows "(p + i) mod TxBuf_SIZE =
   (if p mod TxBuf_SIZE + i < TxBuf_SIZE then p mod TxBuf_SIZE + i else p mod TxBuf_SIZE + i - TxBuf_SIZE)"
proof -
  have "p mod TxBuf_SIZE + i - TxBuf_SIZE < TxBuf_SIZE"
    using assms mod_less_divisor [OF TxBuf_SIZE_pos, of p] by linarith
  then show ?thesis
    by (simp add: mod_add_left_eq [of p TxBuf_SIZE i, symmetric] le_mod_geq del: mod_add_left_eq)
qed

text \<open>The two copies of a push write the bytes of the source one after the other on the ring.\<close>

definition ring_copied :: "bytes \<Rightarrow> nat \<Rightarrow> bytes \<Rightarrow> bytes \<Rightarrow> bool" where
  "ring_copied d p ys d' \<longleftrightarrow> length d' = TxBuf_SIZE \<and>
     (\<forall>i<TxBuf_SIZE. d' ! ((p + i) mod TxBuf_SIZE) =
        (if i < length ys then ys ! i else d ! ((p + i) mod TxBuf_SIZE)))"

lemma push_copies:
  assumes "length d = TxBuf_SIZE" "length src \<le> TxBuf_SIZE"
    and ofs: "ofs = p mod TxBuf_SIZE" and n: "n = min (TxBuf_SIZE - ofs) (length src)"
  obtains d1 d2 where "copy_to d ofs (take n src) = Some d1"
    "(if n < length src then copy_to d1 0 (drop n src) else Some d1) = Some d2"
    "ring_copied d p src d2"
proof -
  have o: "ofs < TxBuf_SIZE" by (simp add: ofs)
  have nle: "ofs + n \<le> TxBuf_SIZE" "n \<le> length src" using o n by auto
  obtain d1 where d1: "copy_to d ofs (take n src) = Some d1"
    using copy_to_ok [of ofs "take n src" d] assms(1) nle by auto
  have l1: "length d1 = TxBuf_SIZE" using copy_to_nth(1) [OF d1] assms by simp
  have "length src - n \<le> TxBuf_SIZE" using assms(2) by simp
  then obtain d2 where d2: "(if n < length src then copy_to d1 0 (drop n src) else Some d1) = Some d2"
    using copy_to_ok [of 0 "drop n src" d1] l1 by (cases "n < length src") auto
  have nth1: "j < TxBuf_SIZE \<Longrightarrow> d1 ! j = (if ofs \<le> j \<and> j < ofs + n then src ! (j - ofs) else d ! j)" for j
    using copy_to_nth(2) [OF d1, of j] assms(1) nle by auto
  have "ring_copied d p src d2"
  proof (cases "n < length src")
    case True
    then have w: "n = TxBuf_SIZE - ofs" using n by simp
    have c2: "copy_to d1 0 (drop n src) = Some d2" using d2 True by simp
    show ?thesis
      using copy_to_nth [OF c2] l1 nth1 w o assms(2) True
      by (auto simp: ring_copied_def wrap_pos ofs [symmetric])
  next
    case False
    then have "d2 = d1" "n = length src" using d2 n by auto
    then show ?thesis using l1 nth1 n o by (auto simp: ring_copied_def wrap_pos ofs [symmetric])
  qed
  with d1 d2 show ?thesis by (rule that)
qed

lemma ring_ring_copied:
  assumes "ring_copied d (p + n) ys d'" "n + length ys \<le> TxBuf_SIZE"
  shows "ring d' p (n + length ys) = ring d p n @ ys"
proof -
  have "ring d' (p + n) (length ys) = ys"
    using assms by (intro nth_equalityI) (auto simp: ring_copied_def)
  moreover have "ring d' p n = ring d p n"
  proof (rule nth_equalityI)
    fix i assume "i < length (ring d' p n)"
    then have i: "i < n" by simp
    let ?k = "TxBuf_SIZE - n + i"
    have "?k < TxBuf_SIZE" "\<not> ?k < length ys" using i assms(2) by auto
    moreover have "p + n + ?k = p + i + TxBuf_SIZE" using i assms(2) by simp
    then have "(p + n + ?k) mod TxBuf_SIZE = (p + i) mod TxBuf_SIZE" by (simp only: mod_add_self2)
    ultimately have "d' ! ((p + i) mod TxBuf_SIZE) = d ! ((p + i) mod TxBuf_SIZE)"
      using assms(1) unfolding ring_copied_def by metis
    then show "ring d' p n ! i = ring d p n ! i" using i by simp
  qed simp
  ultimately show ?thesis by (simp add: ring_add)
qed

lemma ring_copied_mod: "p mod TxBuf_SIZE = q mod TxBuf_SIZE \<Longrightarrow> ring_copied d p ys d' = ring_copied d q ys d'"
  unfolding ring_copied_def by (metis mod_add_left_eq)

lemma TxBuf_push_full: "TxBuf_len t + length src > TxBuf_SIZE \<Longrightarrow> TxBuf_push t src = Some (Inl TxBufFull, t)"
  by (simp add: TxBuf_push_def)

lemma TxBuf_push_ok:
  assumes wf: "tb_wf t" and room: "TxBuf_len t + length src \<le> TxBuf_SIZE"
  obtains t' where "TxBuf_push t src = Some (Inr (), t')" "tb_wf t'" "contents t' = contents t @ src"
proof -
  define d where "d = (case tb_data t of Some d \<Rightarrow> d | None \<Rightarrow> replicate TxBuf_SIZE 0)"
  have len: "length d = TxBuf_SIZE" using wf by (auto simp: d_def tb_wf_def split: option.splits)
  obtain d1 d2 where c: "copy_to d (unat (tb_head t) mod TxBuf_SIZE)
        (take (min (TxBuf_SIZE - unat (tb_head t) mod TxBuf_SIZE) (length src)) src) = Some d1"
      "(if min (TxBuf_SIZE - unat (tb_head t) mod TxBuf_SIZE) (length src) < length src
        then copy_to d1 0 (drop (min (TxBuf_SIZE - unat (tb_head t) mod TxBuf_SIZE) (length src)) src)
        else Some d1) = Some d2"
      "ring_copied d (unat (tb_head t)) src d2"
    using push_copies [OF len _ refl refl, of src "unat (tb_head t)"] room by auto
  define t' where "t' = t\<lparr>tb_data := Some d2, tb_head := tb_head t + of_nat (length src)\<rparr>"
  have p: "TxBuf_push t src = Some (Inr (), t')"
    using room c by (simp add: TxBuf_push_def t'_def d_def [symmetric] Let_def)
  have l': "TxBuf_len t' = TxBuf_len t + length src"
    unfolding t'_def by (rule len_advance_head) (use room in \<open>simp add: TxBuf_SIZE_val\<close>)
  have "ring_copied d (unat (tb_tail t) + TxBuf_len t) src d2"
    using c(3) ring_copied_mod [OF head_pos] by blast
  then have "ring d2 (unat (tb_tail t)) (TxBuf_len t + length src) =
      ring d (unat (tb_tail t)) (TxBuf_len t) @ src"
    using room by (rule ring_ring_copied)
  moreover have "contents t = ring d (unat (tb_tail t)) (TxBuf_len t)"
    using wf by (auto simp: contents_def d_def tb_wf_def ring_def split: option.splits)
  ultimately have "contents t' = contents t @ src" using l' by (simp add: contents_def t'_def)
  moreover have "tb_wf t'" using l' room c(3) by (simp add: tb_wf_def t'_def ring_copied_def)
  ultimately show ?thesis using p that by blast
qed

section \<open>Flush\<close>

text \<open>What a flush may do: move a prefix of the contents to the stream, and report its length.\<close>

definition flushed :: "('s \<Rightarrow> bytes) \<Rightarrow> TxBuf \<Rightarrow> 's \<Rightarrow> (CsmError + nat) \<Rightarrow> TxBuf \<Rightarrow> 's \<Rightarrow> bool" where
  "flushed out t s r t' s' \<longleftrightarrow> tb_wf t' \<and>
     (case r of Inl e \<Rightarrow> (\<exists>k. e = TxBufFlush k) \<and> contents t' = contents t \<and> out s' = out s
      | Inr k \<Rightarrow> k \<le> length (contents t) \<and> contents t' = drop k (contents t) \<and>
          out s' = out s @ take k (contents t))"

text \<open>
  The contract of \<^verbatim>\<open>Write::write\<close>: a success takes a prefix of the bytes, a failure takes none.
  \<open>out\<close> is what the stream has taken so far.
\<close>

locale stream_write =
  fixes w :: "'s writer" and out :: "'s \<Rightarrow> bytes"
  assumes write_ok: "w s bs = (Inr n, s') \<Longrightarrow> n \<le> length bs \<and> out s' = out s @ take n bs"
    and write_err: "w s bs = (Inl e, s') \<Longrightarrow> out s' = out s"
begin

lemma flush_chunk:
  assumes wf: "tb_wf t" and ne: "\<not> TxBuf_is_empty t"
    and ofs: "ofs = unat (tb_tail t) mod TxBuf_SIZE" and n: "n = min (TxBuf_SIZE - ofs) (TxBuf_len t)"
  obtains d where "tb_data t = Some d" "subslice d ofs (ofs + n) = Some (take n (contents t))" "0 < n"
proof -
  obtain d where d: "tb_data t = Some d" and l: "length d = TxBuf_SIZE"
    using wf ne by (auto simp: tb_wf_def TxBuf_is_empty_def split: option.splits)
  have o: "ofs < TxBuf_SIZE" by (simp add: ofs)
  have "take n (drop ofs d) = take n (contents t)"
  proof (rule nth_equalityI)
    show "length (take n (drop ofs d)) = length (take n (contents t))"
      using l n o d by (simp add: contents_def)
    fix i assume "i < length (take n (drop ofs d))"
    then have i: "i < n" "ofs + i < TxBuf_SIZE" using l by auto
    then have "(unat (tb_tail t) + i) mod TxBuf_SIZE = ofs + i" by (simp add: wrap_pos ofs)
    then show "take n (drop ofs d) ! i = take n (contents t) ! i"
      using i l n d o by (simp add: contents_def)
  qed
  then show ?thesis
    using that [OF d] l n o ne by (simp add: subslice_def TxBuf_is_empty_def)
qed

lemma advance_tail:
  assumes wf: "tb_wf t" and "k \<le> TxBuf_len t"
  defines "t' \<equiv> t\<lparr>tb_tail := tb_tail t + of_nat k\<rparr>"
  shows "tb_wf t'" "contents t' = drop k (contents t)" "TxBuf_len t' = TxBuf_len t - k"
proof -
  show l: "TxBuf_len t' = TxBuf_len t - k" using assms by (simp add: len_advance_tail)
  then show "tb_wf t'" using wf by (auto simp: tb_wf_def t'_def split: option.splits)
  show "contents t' = drop k (contents t)"
  proof (cases "tb_data t")
    case (Some d)
    have "ring d (unat (tb_tail t')) (TxBuf_len t - k) = ring d (unat (tb_tail t) + k) (TxBuf_len t - k)"
      by (rule ring_mod) (simp add: t'_def unat_add_mod_SIZE)
    moreover have "ring d (unat (tb_tail t)) (TxBuf_len t) =
        ring d (unat (tb_tail t)) k @ ring d (unat (tb_tail t) + k) (TxBuf_len t - k)"
      using ring_add [of d "unat (tb_tail t)" k "TxBuf_len t - k"] assms(2) by simp
    moreover have "tb_data t' = Some d" using Some by (simp add: t'_def)
    ultimately show ?thesis using Some l by (simp add: contents_def)
  qed (simp add: contents_def t'_def)
qed

text \<open>A flush always returns.\<close>

lemma flush_to_ok:
  assumes "tb_wf t"
  shows "\<exists>r t' s'. TxBuf_flush_to w t s = Some (r, t', s') \<and> flushed out t s r t' s'"
  using assms
proof (induction "TxBuf_len t" arbitrary: t s rule: less_induct)
  case less
  show ?case
  proof (cases "TxBuf_is_empty t")
    case True
    then show ?thesis using less.prems by (simp add: TxBuf_flush_to.simps flushed_def)
  next
    case False
    define ofs where "ofs = unat (tb_tail t) mod TxBuf_SIZE"
    define n where "n = min (TxBuf_SIZE - ofs) (TxBuf_len t)"
    obtain d where d: "tb_data t = Some d" "subslice d ofs (ofs + n) = Some (take n (contents t))"
      and n0: "0 < n"
      using flush_chunk [OF less.prems False ofs_def n_def] .
    have nl: "n \<le> TxBuf_len t" by (simp add: n_def)
    have lc: "length (contents t) = TxBuf_len t" using less.prems by (rule length_contents)
    obtain x s1 where w: "w s (take n (contents t)) = (x, s1)" by fastforce
    note step = TxBuf_flush_to.simps [of w t s, folded ofs_def, folded n_def]
    show ?thesis
    proof (cases x)
      case (Inl e)
      then show ?thesis
        using step False d w write_err [of s "take n (contents t)" e s1] less.prems
        by (simp add: Let_def ofs_def [symmetric] n_def [symmetric] flushed_def)
    next
      case (Inr k)
      have k: "k \<le> n" "out s1 = out s @ take k (contents t)"
        using write_ok [of s "take n (contents t)" k s1] w Inr nl lc by (auto simp: min_absorb1)
      define t1 where "t1 = t\<lparr>tb_tail := tb_tail t + of_nat k\<rparr>"
      have t1: "tb_wf t1" "contents t1 = drop k (contents t)" "TxBuf_len t1 = TxBuf_len t - k"
        using advance_tail [OF less.prems, of k] k nl by (simp_all add: t1_def)
      show ?thesis
      proof (cases "k < n")
        case True
        then show ?thesis
          using step False d w Inr k t1 nl lc
          by (simp add: Let_def ofs_def [symmetric] n_def [symmetric] t1_def [symmetric] flushed_def)
      next
        case False2: False
        obtain r t2 s2 where r: "TxBuf_flush_to w t1 s1 = Some (r, t2, s2)" "flushed out t1 s1 r t2 s2"
          using less.hyps [of t1 s1] t1 n0 nl False2 by auto
        define k2 where "k2 = (case r of Inl _ \<Rightarrow> 0 | Inr j \<Rightarrow> j)"
        have "TxBuf_flush_to w t s = Some (Inr (k + k2), t2, s2)"
          using step False False2 d w Inr r
          by (simp add: Let_def ofs_def [symmetric] n_def [symmetric] t1_def [symmetric] k2_def)
        moreover have "flushed out t s (Inr (k + k2)) t2 s2"
          using r(2) k t1 nl lc unfolding k2_def flushed_def
          by (auto simp: take_add add.commute split: sum.splits)
        ultimately show ?thesis by blast
      qed
    qed
  qed
qed

lemma flush_to_Some:
  assumes "tb_wf t" "TxBuf_flush_to w t s = Some (r, t', s')"
  shows "flushed out t s r t' s'"
  using flush_to_ok [OF assms(1), of s] assms(2) by auto

end

section \<open>Sequences of pushes and flushes\<close>

datatype txop = Push bytes | Flush

text \<open>Runs a sequence of operations and collects the slices that were accepted.\<close>

fun txbuf_run :: "'s writer \<Rightarrow> txop list \<Rightarrow> TxBuf \<Rightarrow> 's \<Rightarrow> (bytes list \<times> TxBuf \<times> 's) option" where
  "txbuf_run w [] t s = Some ([], t, s)"
| "txbuf_run w (Push src # ops) t s = do {
     (r, t1) \<leftarrow> TxBuf_push t src;
     (acc, t2, s2) \<leftarrow> txbuf_run w ops t1 s;
     Some ((case r of Inr _ \<Rightarrow> [src] | Inl _ \<Rightarrow> []) @ acc, t2, s2)
   }"
| "txbuf_run w (Flush # ops) t s = do {
     (r, t1, s1) \<leftarrow> TxBuf_flush_to w t s;
     txbuf_run w ops t1 s1
   }"

context stream_write
begin

lemma txbuf_run_fifo:
  assumes "tb_wf t"
  shows "\<exists>acc t' s'. txbuf_run w ops t s = Some (acc, t', s') \<and> tb_wf t' \<and>
    out s' @ contents t' = out s @ contents t @ concat acc"
  using assms
proof (induction ops arbitrary: t s)
  case (Cons op ops)
  show ?case
  proof (cases op)
    case (Push src)
    show ?thesis
    proof (cases "TxBuf_len t + length src \<le> TxBuf_SIZE")
      case True
      then obtain t1 where "TxBuf_push t src = Some (Inr (), t1)" "tb_wf t1" "contents t1 = contents t @ src"
        using TxBuf_push_ok Cons.prems by blast
      then show ?thesis using Cons.IH [of t1 s] Push by fastforce
    next
      case False
      then have "TxBuf_push t src = Some (Inl TxBufFull, t)" by (simp add: TxBuf_push_full)
      then show ?thesis using Cons.IH [of t s] Cons.prems Push by fastforce
    qed
  next
    case Flush
    obtain r t1 s1 where f: "TxBuf_flush_to w t s = Some (r, t1, s1)" "flushed out t s r t1 s1"
      using flush_to_ok Cons.prems by blast
    then have "tb_wf t1" and m: "out s1 @ contents t1 = out s @ contents t"
      by (auto simp: flushed_def split: sum.splits)
    then obtain acc t' s' where "txbuf_run w ops t1 s1 = Some (acc, t', s')" "tb_wf t'"
        "out s' @ contents t' = out s1 @ contents t1 @ concat acc"
      using Cons.IH by blast
    moreover have "out s1 @ contents t1 @ concat acc = out s @ contents t @ concat acc"
      using m by (simp flip: append_assoc)
    ultimately show ?thesis using f(1) Flush by simp
  qed
qed simp

end

section \<open>Reference stream\<close>

text \<open>
  A stream with a limited capacity that may fail once, and a queue of bytes to read.
\<close>

record ref_stream =
  rs_out :: bytes
  rs_cap :: nat
  rs_err :: "ErrorKind option"
  rs_in :: bytes

definition ref_write :: "ref_stream writer" where
  "ref_write s bs = (case rs_err s of
     Some e \<Rightarrow> (Inl e, s\<lparr>rs_err := None\<rparr>)
   | None \<Rightarrow> let n = min (rs_cap s - length (rs_out s)) (length bs) in
       (Inr n, s\<lparr>rs_out := rs_out s @ take n bs\<rparr>))"

interpretation refs: stream_write ref_write rs_out
  by unfold_locales (auto simp: ref_write_def Let_def split: option.splits)

section \<open>Properties\<close>

text \<open>
  C21. The transmit buffer is a lossless FIFO. Starting from a new buffer, no sequence of pushes
  and flushes panics or fails to return, whatever the stream does within the contract of
  \<^verbatim>\<open>Write\<close>; what the stream received followed by what the buffer still holds is exactly the
  concatenation of the accepted slices, in order; at most 64 KiB are buffered; and a push is
  accepted exactly when it fits, leaving the buffer unchanged otherwise.
\<close>

theorem txbuf_lossless_fifo:
  assumes "stream_write w out"
  shows "\<exists>acc t' s'. txbuf_run w ops TxBuf_new s = Some (acc, t', s') \<and>
    out s' @ contents t' = out s @ concat acc \<and> length (contents t') \<le> 65536 \<and>
    (\<forall>src. \<exists>r t2. TxBuf_push t' src = Some (r, t2) \<and>
       (r, contents t2) = (if length (contents t') + length src \<le> 65536
          then (Inr (), contents t' @ src) else (Inl TxBufFull, contents t')))"
proof -
  obtain acc t' s' where r: "txbuf_run w ops TxBuf_new s = Some (acc, t', s')" "tb_wf t'"
      "out s' @ contents t' = out s @ concat acc"
    using stream_write.txbuf_run_fifo [OF assms TxBuf_new_wf(1), of ops s] by auto
  have l: "length (contents t') = TxBuf_len t'" using r(2) by (rule length_contents)
  have "\<exists>r t2. TxBuf_push t' src = Some (r, t2) \<and>
       (r, contents t2) = (if length (contents t') + length src \<le> 65536
          then (Inr (), contents t' @ src) else (Inl TxBufFull, contents t'))" for src
    using TxBuf_push_ok [OF r(2), of src] TxBuf_push_full [of t' src] l
    by (fastforce simp: TxBuf_SIZE_val)
  moreover have "length (contents t') \<le> 65536"
    using r(2) l by (simp add: tb_wf_def TxBuf_SIZE_val)
  ultimately show ?thesis using r by blast
qed

theorem txbuf_lossless_fifo_witness:
  "\<exists>acc t' s'. txbuf_run ref_write [Push [1, 2], Flush, Push [3]] TxBuf_new
       \<lparr>rs_out = [], rs_cap = 1, rs_err = None, rs_in = []\<rparr> = Some (acc, t', s') \<and>
     rs_out s' @ contents t' = concat acc"
  using txbuf_lossless_fifo [OF refs.stream_write_axioms, of "[Push [1, 2], Flush, Push [3]]"
      "\<lparr>rs_out = [], rs_cap = 1, rs_err = None, rs_in = []\<rparr>"] by auto

end
