(* ===== verification/Vsock_Packet.thy ===== *)
theory Vsock_Packet
  imports Virtio_Queue Vsock_Txbuf
begin

text \<open>
  Vsock packets over descriptor chains, \<open>src/firecracker/src/devices/src/virtio/vsock/packet.rs\<close>,
  and the constants and errors of \<open>vsock/mod.rs\<close>. The memory region methods of the
  \<^verbatim>\<open>vm-memory\<close> crate that only this code calls are the record \<open>guest_regions\<close>; the locale
  \<open>guest_region_memory\<close> states what they promise, and \<open>refr\<close> interprets it on the reference
  memory of \<open>Guest_Memory\<close>.
\<close>

section \<open>Constants and errors\<close>

definition NUM_QUEUES :: nat where "NUM_QUEUES = 3"
definition QUEUE_SIZE :: u16 where "QUEUE_SIZE = 256"
definition MAX_PKT_BUF_SIZE :: nat where "MAX_PKT_BUF_SIZE = 64 * 1024"
definition VIRTIO_F_IN_ORDER :: nat where "VIRTIO_F_IN_ORDER = 35"
definition VIRTIO_F_VERSION_1 :: nat where "VIRTIO_F_VERSION_1 = 32"
definition VIRTIO_ID_VSOCK :: u32 where "VIRTIO_ID_VSOCK = 19"
definition VSOCK_OP_REQUEST :: u16 where "VSOCK_OP_REQUEST = 1"
definition VSOCK_OP_RESPONSE :: u16 where "VSOCK_OP_RESPONSE = 2"
definition VSOCK_OP_RST :: u16 where "VSOCK_OP_RST = 3"
definition VSOCK_OP_SHUTDOWN :: u16 where "VSOCK_OP_SHUTDOWN = 4"
definition VSOCK_OP_RW :: u16 where "VSOCK_OP_RW = 5"
definition VSOCK_OP_CREDIT_UPDATE :: u16 where "VSOCK_OP_CREDIT_UPDATE = 6"
definition VSOCK_OP_CREDIT_REQUEST :: u16 where "VSOCK_OP_CREDIT_REQUEST = 7"
definition VSOCK_FLAGS_SHUTDOWN_RCV :: u32 where "VSOCK_FLAGS_SHUTDOWN_RCV = 1"
definition VSOCK_FLAGS_SHUTDOWN_SEND :: u32 where "VSOCK_FLAGS_SHUTDOWN_SEND = 2"
definition VSOCK_TYPE_STREAM :: u16 where "VSOCK_TYPE_STREAM = 1"
definition VSOCK_HOST_CID :: u64 where "VSOCK_HOST_CID = 2"
definition VSOCK_PKT_HDR_SIZE :: nat where "VSOCK_PKT_HDR_SIZE = 44"

lemmas vsock_op_defs = VSOCK_OP_REQUEST_def VSOCK_OP_RESPONSE_def VSOCK_OP_RST_def
  VSOCK_OP_SHUTDOWN_def VSOCK_OP_RW_def VSOCK_OP_CREDIT_UPDATE_def VSOCK_OP_CREDIT_REQUEST_def

text \<open>
  The errors of guest memory accesses: an I/O error of the stream that took part in the access,
  or any other one.
\<close>

datatype 'e GuestMemoryError = IOError ErrorKind | GmOther 'e

text \<open>The payloads of the last two constructors are not inspected by the vsock code.\<close>

datatype 'e VsockError =
    BufDescTooSmall
  | BufDescMissing
  | EmptyQueue
  | EventFdError ErrorKind
  | GuestMemoryMmap "'e GuestMemoryError"
  | GuestMemoryBounds
  | HdrDescTooSmall u32
  | InvalidPktLen u32
  | NoData
  | PktBufMissing
  | UnreadableDescriptor
  | UnwritableDescriptor
  | VirtioState
  | VsockUdsBackend

section \<open>Guest memory regions\<close>

text \<open>\<^verbatim>\<open>Read::read\<close> with a buffer of the given size: the bytes read, or an error.\<close>

type_synonym 's reader = "'s \<Rightarrow> nat \<Rightarrow> (ErrorKind + bytes) \<times> 's"

text \<open>
  \<^verbatim>\<open>GuestMemory::check_range\<close>, \<^verbatim>\<open>to_region_addr\<close>, \<^verbatim>\<open>GuestMemoryRegion::checked_offset\<close>, and
  \<^verbatim>\<open>read_from\<close> and \<^verbatim>\<open>write_to\<close> of a region; the last is generic in the destination and is
  used at two types.
\<close>

record ('m, 'r, 'e, 's) guest_regions =
  gr_check_range :: "'m \<Rightarrow> u64 \<Rightarrow> nat \<Rightarrow> bool"
  gr_to_region_addr :: "'m \<Rightarrow> u64 \<Rightarrow> ('r \<times> u64) option"
  gr_checked_offset :: "'m \<Rightarrow> 'r \<Rightarrow> u64 \<Rightarrow> nat \<Rightarrow> u64 option"
  gr_read_from :: "'m \<Rightarrow> 'r \<Rightarrow> u64 \<Rightarrow> 's reader \<Rightarrow> 's \<Rightarrow> nat \<Rightarrow> ('e GuestMemoryError + nat) \<times> 'm \<times> 's"
  gr_write_to_stream :: "'m \<Rightarrow> 'r \<Rightarrow> u64 \<Rightarrow> 's writer \<Rightarrow> 's \<Rightarrow> nat \<Rightarrow> ('e GuestMemoryError + nat) \<times> 's"
  gr_write_to_txbuf :: "'m \<Rightarrow> 'r \<Rightarrow> u64 \<Rightarrow> (TxBuf \<Rightarrow> bytes \<Rightarrow> ((ErrorKind + nat) \<times> TxBuf) option) \<Rightarrow>
     TxBuf \<Rightarrow> nat \<Rightarrow> (('e GuestMemoryError + nat) \<times> TxBuf) option"

type_synonym ('m, 'e) gmem = "('m, 'e GuestMemoryError) guest_mem"

section \<open>Packet header\<close>

record VsockPacketHeader =
  h_src_cid :: u64
  h_dst_cid :: u64
  h_src_port :: u32
  h_dst_port :: u32
  h_len :: u32
  h_type :: u16
  h_op :: u16
  h_flags :: u32
  h_buf_alloc :: u32
  h_fwd_cnt :: u32

definition VsockPacketHeader_default :: VsockPacketHeader where
  "VsockPacketHeader_default = \<lparr> h_src_cid = 0, h_dst_cid = 0, h_src_port = 0, h_dst_port = 0,
     h_len = 0, h_type = 0, h_op = 0, h_flags = 0, h_buf_alloc = 0, h_fwd_cnt = 0 \<rparr>"

text \<open>\<^verbatim>\<open>#[repr(packed)]\<close> and \<^verbatim>\<open>ByteValued\<close>: the fields in order, in the byte order of the host.\<close>

definition hdr_bytes :: "VsockPacketHeader \<Rightarrow> bytes" where
  "hdr_bytes h = le_bytes 8 (unat (h_src_cid h)) @ le_bytes 8 (unat (h_dst_cid h)) @
     le_bytes 4 (unat (h_src_port h)) @ le_bytes 4 (unat (h_dst_port h)) @ le_bytes 4 (unat (h_len h)) @
     le_bytes 2 (unat (h_type h)) @ le_bytes 2 (unat (h_op h)) @ le_bytes 4 (unat (h_flags h)) @
     le_bytes 4 (unat (h_buf_alloc h)) @ le_bytes 4 (unat (h_fwd_cnt h))"

definition hdr_of_bytes :: "bytes \<Rightarrow> VsockPacketHeader" where
  "hdr_of_bytes bs = \<lparr>
     h_src_cid = of_nat (le_nat (take 8 bs)),
     h_dst_cid = of_nat (le_nat (take 8 (drop 8 bs))),
     h_src_port = of_nat (le_nat (take 4 (drop 16 bs))),
     h_dst_port = of_nat (le_nat (take 4 (drop 20 bs))),
     h_len = of_nat (le_nat (take 4 (drop 24 bs))),
     h_type = of_nat (le_nat (take 2 (drop 28 bs))),
     h_op = of_nat (le_nat (take 2 (drop 30 bs))),
     h_flags = of_nat (le_nat (take 4 (drop 32 bs))),
     h_buf_alloc = of_nat (le_nat (take 4 (drop 36 bs))),
     h_fwd_cnt = of_nat (le_nat (take 4 (drop 40 bs))) \<rparr>"

section \<open>Packets\<close>

record VsockPacket =
  hdr_addr :: u64
  hdr :: VsockPacketHeader
  buf_addr :: "u64 option"
  buf_size :: nat

definition check_desc_write_only :: "DescriptorChain \<Rightarrow> bool \<Rightarrow> 'e VsockError + unit" where
  "check_desc_write_only desc expected_write_only =
     (if is_write_only desc \<noteq> expected_write_only
      then (if is_write_only desc then Inl UnreadableDescriptor else Inl UnwritableDescriptor)
      else Inr ())"

text \<open>The \<^verbatim>\<open>?\<close> operator.\<close>

fun try_s :: "'e + 'a \<Rightarrow> ('a \<Rightarrow> 'e + 'b) \<Rightarrow> 'e + 'b" where
  "try_s (Inl e) f = Inl e"
| "try_s (Inr x) f = f x"

definition check_hdr_desc :: "('m, 'r, 'e, 's) guest_regions \<Rightarrow> 'm \<Rightarrow> DescriptorChain \<Rightarrow> bool \<Rightarrow>
    'e VsockError + unit" where
  "check_hdr_desc R m hdr_desc expected_write_only =
     try_s (check_desc_write_only hdr_desc expected_write_only) (\<lambda>_.
       if \<not> gr_check_range R m (dc_addr hdr_desc) VSOCK_PKT_HDR_SIZE then Inl GuestMemoryBounds
       else if dc_len hdr_desc < of_nat VSOCK_PKT_HDR_SIZE then Inl (HdrDescTooSmall (dc_len hdr_desc))
       else Inr ())"

definition init_buf :: "('m, 'e) gmem \<Rightarrow> ('m, 'r, 'e, 's) guest_regions \<Rightarrow> 'm \<Rightarrow> VsockPacket \<Rightarrow>
    DescriptorChain \<Rightarrow> bool \<Rightarrow> 'e VsockError + VsockPacket" where
  "init_buf G R m pkt hdr_desc expected_write_only =
     (case next_descriptor G m hdr_desc of
        None \<Rightarrow> Inl BufDescMissing
      | Some buf_desc \<Rightarrow> try_s (check_desc_write_only buf_desc expected_write_only) (\<lambda>_.
          if \<not> gr_check_range R m (dc_addr buf_desc) (unat (dc_len buf_desc)) then Inl GuestMemoryBounds
          else Inr (pkt\<lparr> buf_addr := Some (dc_addr buf_desc), buf_size := unat (dc_len buf_desc) \<rparr>)))"

definition check_len :: "VsockPacket \<Rightarrow> 'e VsockError + unit" where
  "check_len pkt = (if h_len (hdr pkt) > of_nat MAX_PKT_BUF_SIZE
     then Inl (InvalidPktLen (h_len (hdr pkt))) else Inr ())"

definition from_tx_virtq_head :: "('m, 'e) gmem \<Rightarrow> ('m, 'r, 'e, 's) guest_regions \<Rightarrow> 'm \<Rightarrow>
    DescriptorChain \<Rightarrow> 'e VsockError + VsockPacket" where
  "from_tx_virtq_head G R m hdr_desc =
     try_s (check_hdr_desc R m hdr_desc False) (\<lambda>_.
       if \<not> gr_check_range R m (dc_addr hdr_desc) VSOCK_PKT_HDR_SIZE then Inl GuestMemoryBounds
       else try_s (map_sum GuestMemoryMmap hdr_of_bytes (gm_read G m (dc_addr hdr_desc) VSOCK_PKT_HDR_SIZE)) (\<lambda>h.
         let pkt = \<lparr> hdr_addr = dc_addr hdr_desc, hdr = h, buf_addr = None, buf_size = 0 \<rparr> in
         if h_len h = 0 then Inr pkt
         else try_s (check_len pkt) (\<lambda>_.
           try_s (init_buf G R m pkt hdr_desc False) (\<lambda>pkt.
             if buf_size pkt < unat (h_len (hdr pkt)) then Inl BufDescTooSmall else Inr pkt))))"

definition from_rx_virtq_head :: "('m, 'e) gmem \<Rightarrow> ('m, 'r, 'e, 's) guest_regions \<Rightarrow> 'm \<Rightarrow>
    DescriptorChain \<Rightarrow> 'e VsockError + VsockPacket" where
  "from_rx_virtq_head G R m hdr_desc =
     try_s (check_hdr_desc R m hdr_desc True) (\<lambda>_.
       init_buf G R m \<lparr> hdr_addr = dc_addr hdr_desc, hdr = VsockPacketHeader_default,
                         buf_addr = None, buf_size = 0 \<rparr> hdr_desc True)"

definition commit_hdr :: "('m, 'e) gmem \<Rightarrow> 'm \<Rightarrow> VsockPacket \<Rightarrow> 'm \<times> ('e VsockError + unit)" where
  "commit_hdr G m pkt = (case check_len pkt of
     Inl e \<Rightarrow> (m, Inl e)
   | Inr _ \<Rightarrow> (let (m', res) = gm_write G m (hdr_addr pkt) (hdr_bytes (hdr pkt))
              in (m', map_sum GuestMemoryMmap id res)))"

definition buf_region_addr :: "('m, 'e) gmem \<Rightarrow> ('m, 'r, 'e, 's) guest_regions \<Rightarrow> 'm \<Rightarrow> VsockPacket \<Rightarrow>
    nat \<Rightarrow> nat \<Rightarrow> 'e VsockError + ('r \<times> u64)" where
  "buf_region_addr G R m pkt offset cnt =
     (if \<not> (offset \<le> buf_size pkt \<and> cnt \<le> buf_size pkt - offset) then Inl GuestMemoryBounds
      else (case buf_addr pkt of
        None \<Rightarrow> Inl PktBufMissing
      | Some a \<Rightarrow>
          (case do {
              offset_addr \<leftarrow> ga_checked_add G a (of_nat offset);
              (region, region_addr) \<leftarrow> gr_to_region_addr R m offset_addr;
              k \<leftarrow> (if cnt = 0 then None else Some (cnt - 1));
              _ \<leftarrow> gr_checked_offset R m region region_addr k;
              Some (region, region_addr)
            } of
             None \<Rightarrow> Inl GuestMemoryBounds
           | Some ra \<Rightarrow> Inr ra)))"

definition read_at_offset_from :: "('m, 'e) gmem \<Rightarrow> ('m, 'r, 'e, 's) guest_regions \<Rightarrow> 's reader \<Rightarrow> 'm \<Rightarrow>
    VsockPacket \<Rightarrow> nat \<Rightarrow> 's \<Rightarrow> nat \<Rightarrow> ('e VsockError + nat) \<times> 'm \<times> 's" where
  "read_at_offset_from G R rd m pkt offset src cnt =
     (case buf_region_addr G R m pkt offset cnt of
        Inl e \<Rightarrow> (Inl e, m, src)
      | Inr (region, region_addr) \<Rightarrow>
          (let (res, m', src') = gr_read_from R m region region_addr rd src cnt
           in (map_sum GuestMemoryMmap id res, m', src')))"

definition write_from_offset_to_stream :: "('m, 'e) gmem \<Rightarrow> ('m, 'r, 'e, 's) guest_regions \<Rightarrow> 's writer \<Rightarrow>
    'm \<Rightarrow> VsockPacket \<Rightarrow> nat \<Rightarrow> 's \<Rightarrow> nat \<Rightarrow> ('e VsockError + nat) \<times> 's" where
  "write_from_offset_to_stream G R w m pkt offset dst cnt =
     (case buf_region_addr G R m pkt offset cnt of
        Inl e \<Rightarrow> (Inl e, dst)
      | Inr (region, region_addr) \<Rightarrow>
          (let (res, dst') = gr_write_to_stream R m region region_addr w dst cnt
           in (map_sum GuestMemoryMmap id res, dst')))"

definition write_from_offset_to_txbuf :: "('m, 'e) gmem \<Rightarrow> ('m, 'r, 'e, 's) guest_regions \<Rightarrow>
    'm \<Rightarrow> VsockPacket \<Rightarrow> nat \<Rightarrow> TxBuf \<Rightarrow> nat \<Rightarrow> (('e VsockError + nat) \<times> TxBuf) option" where
  "write_from_offset_to_txbuf G R m pkt offset dst cnt =
     (case buf_region_addr G R m pkt offset cnt of
        Inl e \<Rightarrow> Some (Inl e, dst)
      | Inr (region, region_addr) \<Rightarrow> do {
          (res, dst') \<leftarrow> gr_write_to_txbuf R m region region_addr TxBuf_write dst cnt;
          Some (map_sum GuestMemoryMmap id res, dst')
        })"

text \<open>The setters; \<^verbatim>\<open>to_le\<close> is the identity on the little-endian hosts that are supported.\<close>

abbreviation upd_hdr :: "(VsockPacketHeader \<Rightarrow> VsockPacketHeader) \<Rightarrow> VsockPacket \<Rightarrow> VsockPacket" where
  "upd_hdr f pkt \<equiv> pkt\<lparr> hdr := f (hdr pkt) \<rparr>"

definition set_src_cid :: "u64 \<Rightarrow> VsockPacket \<Rightarrow> VsockPacket" where
  "set_src_cid v = upd_hdr (h_src_cid_update (\<lambda>_. v))"

definition set_dst_cid :: "u64 \<Rightarrow> VsockPacket \<Rightarrow> VsockPacket" where
  "set_dst_cid v = upd_hdr (h_dst_cid_update (\<lambda>_. v))"

definition set_src_port :: "u32 \<Rightarrow> VsockPacket \<Rightarrow> VsockPacket" where
  "set_src_port v = upd_hdr (h_src_port_update (\<lambda>_. v))"

definition set_dst_port :: "u32 \<Rightarrow> VsockPacket \<Rightarrow> VsockPacket" where
  "set_dst_port v = upd_hdr (h_dst_port_update (\<lambda>_. v))"

definition set_len :: "u32 \<Rightarrow> VsockPacket \<Rightarrow> VsockPacket" where
  "set_len v = upd_hdr (h_len_update (\<lambda>_. v))"

definition set_type :: "u16 \<Rightarrow> VsockPacket \<Rightarrow> VsockPacket" where
  "set_type v = upd_hdr (h_type_update (\<lambda>_. v))"

definition set_op :: "u16 \<Rightarrow> VsockPacket \<Rightarrow> VsockPacket" where
  "set_op v = upd_hdr (h_op_update (\<lambda>_. v))"

definition set_flags :: "u32 \<Rightarrow> VsockPacket \<Rightarrow> VsockPacket" where
  "set_flags v = upd_hdr (h_flags_update (\<lambda>_. v))"

definition set_flag :: "u32 \<Rightarrow> VsockPacket \<Rightarrow> VsockPacket" where
  "set_flag v pkt = set_flags (h_flags (hdr pkt) OR v) pkt"

definition set_buf_alloc :: "u32 \<Rightarrow> VsockPacket \<Rightarrow> VsockPacket" where
  "set_buf_alloc v = upd_hdr (h_buf_alloc_update (\<lambda>_. v))"

definition set_fwd_cnt :: "u32 \<Rightarrow> VsockPacket \<Rightarrow> VsockPacket" where
  "set_fwd_cnt v = upd_hdr (h_fwd_cnt_update (\<lambda>_. v))"

lemmas pkt_set_defs = set_src_cid_def set_dst_cid_def set_src_port_def set_dst_port_def set_len_def
  set_type_def set_op_def set_flags_def set_flag_def set_buf_alloc_def set_fwd_cnt_def

section \<open>Header codec\<close>

lemma length_hdr_bytes [simp]: "length (hdr_bytes h) = 44"
  by (simp add: hdr_bytes_def)

lemma hdr_of_bytes_hdr_bytes [simp]: "hdr_of_bytes (hdr_bytes h) = h"
  by (simp add: hdr_of_bytes_def hdr_bytes_def)

section \<open>Laws\<close>

text \<open>
  What the documentation of the crate promises: a checked range or offset lies in guest memory,
  and a region copies to and from a stream with one call of \<^verbatim>\<open>read\<close> or \<^verbatim>\<open>write\<close> on the bytes
  at the address, reporting the error of that call as \<^verbatim>\<open>IOError\<close>.
\<close>

locale guest_region_memory = guest_memory G in_rng byte
  for G :: "('m, 'e) gmem" and in_rng byte +
  fixes R :: "('m, 'r, 'e, 's) guest_regions"
  assumes check_range: "0 < n \<Longrightarrow> gr_check_range R m a n \<longleftrightarrow> all_in (in_rng m) (unat a) n"
    and region_in: "gr_to_region_addr R m a = Some (r, ra) \<Longrightarrow> gr_checked_offset R m r ra k = Some c \<Longrightarrow>
      all_in (in_rng m) (unat a) (Suc k)"
    and region_write_stream: "gr_to_region_addr R m a = Some (r, ra) \<Longrightarrow>
      gr_checked_offset R m r ra k = Some c \<Longrightarrow>
      gr_write_to_stream R m r ra w s (Suc k) =
        map_prod (map_sum IOError id) id (w s (bytes_at (byte m) (unat a) (Suc k)))"
    and region_write_txbuf: "gr_to_region_addr R m a = Some (r, ra) \<Longrightarrow>
      gr_checked_offset R m r ra k = Some c \<Longrightarrow>
      gr_write_to_txbuf R m r ra wt t (Suc k) =
        map_option (map_prod (map_sum IOError id) id) (wt t (bytes_at (byte m) (unat a) (Suc k)))"
    and region_read_err: "gr_to_region_addr R m a = Some (r, ra) \<Longrightarrow>
      gr_checked_offset R m r ra k = Some c \<Longrightarrow> rd s (Suc k) = (Inl e, s') \<Longrightarrow>
      gr_read_from R m r ra rd s (Suc k) = (Inl (IOError e), m, s')"
    and region_read_ok: "gr_to_region_addr R m a = Some (r, ra) \<Longrightarrow>
      gr_checked_offset R m r ra k = Some c \<Longrightarrow> rd s (Suc k) = (Inr bs, s') \<Longrightarrow>
      length bs \<le> Suc k \<Longrightarrow>
      \<exists>m'. gr_read_from R m r ra rd s (Suc k) = (Inr (length bs), m', s') \<and>
        in_rng m' = in_rng m \<and> byte m' = upd_bytes (byte m) (unat a) bs"
begin

lemma check_range_in: "gr_check_range R m a n \<Longrightarrow> all_in (in_rng m) (unat a) n"
  by (cases "n = 0") (auto simp: check_range all_in_def)

lemma check_hdr_desc_Inr:
  "check_hdr_desc R m c wr = Inr () \<Longrightarrow>
   is_write_only c = wr \<and> all_in (in_rng m) (unat (dc_addr c)) 44 \<and> dc_len c \<ge> 44"
  using check_range_in [of m "dc_addr c" 44]
  by (auto simp: check_hdr_desc_def check_desc_write_only_def VSOCK_PKT_HDR_SIZE_def not_less
      split: if_split_asm)

lemma init_buf_Inr:
  assumes "init_buf G R m pkt0 c wr = Inr pkt"
  obtains d where "next_descriptor G m c = Some d" "is_write_only d = wr"
    "pkt = pkt0\<lparr>buf_addr := Some (dc_addr d), buf_size := unat (dc_len d)\<rparr>"
    "all_in (in_rng m) (unat (dc_addr d)) (unat (dc_len d))"
  using assms check_range_in
  by (auto simp: init_buf_def check_desc_write_only_def split: if_split_asm option.split_asm)

lemma from_tx_virtq_head_Inr:
  assumes "from_tx_virtq_head G R m c = Inr pkt"
  shows "check_hdr_desc R m c False = Inr ()"
    and "hdr_addr pkt = dc_addr c"
    and "hdr pkt = hdr_of_bytes (bytes_at (byte m) (unat (dc_addr c)) 44)"
    and "h_len (hdr pkt) \<le> 65536"
    and "h_len (hdr pkt) = 0 \<Longrightarrow> buf_addr pkt = None \<and> buf_size pkt = 0"
    and "h_len (hdr pkt) \<noteq> 0 \<Longrightarrow> unat (h_len (hdr pkt)) \<le> buf_size pkt \<and>
      (\<exists>p0. init_buf G R m p0 c False = Inr pkt)"
proof -
  show c: "check_hdr_desc R m c False = Inr ()"
    using assms by (cases "check_hdr_desc R m c False") (auto simp: from_tx_virtq_head_def)
  then have rd: "gm_read G m (dc_addr c) 44 = Inr (bytes_at (byte m) (unat (dc_addr c)) 44)"
    using check_hdr_desc_Inr read_ok by blast
  have g: "gr_check_range R m (dc_addr c) 44"
    using check_hdr_desc_Inr [OF c] by (simp add: check_range)
  define h where "h = hdr_of_bytes (bytes_at (byte m) (unat (dc_addr c)) 44)"
  define p0 where "p0 = \<lparr>hdr_addr = dc_addr c, hdr = h, buf_addr = None, buf_size = 0\<rparr>"
  have e: "(if h_len h = 0 then Inr p0 else try_s (check_len p0) (\<lambda>_. try_s (init_buf G R m p0 c False)
      (\<lambda>q. if buf_size q < unat (h_len (hdr q)) then Inl BufDescTooSmall else Inr q))) = Inr pkt"
    using assms c rd g unfolding h_def p0_def
    by (simp add: from_tx_virtq_head_def VSOCK_PKT_HDR_SIZE_def Let_def split del: if_split)
  have res: "hdr_addr pkt = dc_addr c \<and> hdr pkt = h \<and> h_len h \<le> 65536 \<and>
      (h_len h = 0 \<longrightarrow> buf_addr pkt = None \<and> buf_size pkt = 0) \<and>
      (h_len h \<noteq> 0 \<longrightarrow> unat (h_len h) \<le> buf_size pkt \<and> init_buf G R m p0 c False = Inr pkt)"
  proof (cases "h_len h = 0")
    case True
    then have "pkt = p0" using e by simp
    then show ?thesis using True by (simp add: p0_def)
  next
    case False
    then have l: "h_len h \<le> 65536"
      using e by (auto simp: check_len_def MAX_PKT_BUF_SIZE_def p0_def split: if_split_asm)
    then have "check_len p0 = (Inr () :: 'e VsockError + unit)" by (simp add: check_len_def MAX_PKT_BUF_SIZE_def p0_def)
    then obtain q where q: "init_buf G R m p0 c False = Inr q" "pkt = q" "\<not> buf_size q < unat (h_len (hdr q))"
      using e False by (cases "init_buf G R m p0 c False") (auto split: if_split_asm)
    obtain d :: DescriptorChain where "q = p0\<lparr>buf_addr := Some (dc_addr d), buf_size := unat (dc_len d)\<rparr>"
      using init_buf_Inr [OF q(1)] by blast
    then show ?thesis using q l False by (simp add: p0_def)
  qed
  then show "hdr_addr pkt = dc_addr c" "hdr pkt = hdr_of_bytes (bytes_at (byte m) (unat (dc_addr c)) 44)"
      "h_len (hdr pkt) \<le> 65536"
      "h_len (hdr pkt) = 0 \<Longrightarrow> buf_addr pkt = None \<and> buf_size pkt = 0"
      "h_len (hdr pkt) \<noteq> 0 \<Longrightarrow> unat (h_len (hdr pkt)) \<le> buf_size pkt \<and>
        (\<exists>p0. init_buf G R m p0 c False = Inr pkt)"
    unfolding h_def by auto
qed

lemma commit_hdr_ok:
  assumes "all_in (in_rng m) (unat (hdr_addr pkt)) 44" "h_len (hdr pkt) \<le> 65536"
  shows "\<exists>m'. commit_hdr G m pkt = (m', Inr ()) \<and> in_rng m' = in_rng m \<and>
    byte m' = upd_bytes (byte m) (unat (hdr_addr pkt)) (hdr_bytes (hdr pkt))"
  using write_ok [of m "hdr_addr pkt" "hdr_bytes (hdr pkt)"]
    write_frame [of m "hdr_addr pkt" "hdr_bytes (hdr pkt)"] assms
  by (fastforce simp: commit_hdr_def check_len_def MAX_PKT_BUF_SIZE_def)

end

section \<open>Reference regions\<close>

definition ref_regions :: "(ref_mem, nat \<times> nat, unit, 's) guest_regions" where
  "ref_regions = \<lparr>
     gr_check_range = (\<lambda>m a n. ref_all_in m (unat a) n),
     gr_to_region_addr = (\<lambda>m a. map_option (\<lambda>r. (r, of_nat (unat a - fst r)))
       (find (\<lambda>r. fst r \<le> unat a \<and> unat a < snd r) (rm_ranges m))),
     gr_checked_offset = (\<lambda>m r ra k. if fst r + unat ra + k < min (snd r) (2 ^ 64) \<and> r \<in> set (rm_ranges m)
       then Some (ra + of_nat k) else None),
     gr_read_from = (\<lambda>m r ra rd s n. case rd s n of
         (Inl e, s') \<Rightarrow> (Inl (IOError e), m, s')
       | (Inr bs, s') \<Rightarrow> (Inr (length bs), m\<lparr>rm_bytes := upd_bytes (rm_bytes m) (fst r + unat ra) bs\<rparr>, s')),
     gr_write_to_stream = (\<lambda>m r ra w s n.
       map_prod (map_sum IOError id) id (w s (bytes_at (rm_bytes m) (fst r + unat ra) n))),
     gr_write_to_txbuf = (\<lambda>m r ra wt t n.
       map_option (map_prod (map_sum IOError id) id) (wt t (bytes_at (rm_bytes m) (fst r + unat ra) n))) \<rparr>"

lemma find_SomeD: "find P xs = Some x \<Longrightarrow> x \<in> set xs \<and> P x"
  by (auto simp: find_Some_iff)

lemma ref_region_addr:
  assumes "gr_to_region_addr ref_regions m a = Some (r, ra)"
  shows "fst r + unat ra = unat a"
proof -
  have "fst r \<le> unat a \<and> ra = of_nat (unat a - fst r)"
    using assms by (auto simp: ref_regions_def dest: find_SomeD)
  moreover have "unat a - fst r < 2 ^ 64" using unsigned_less [of a, where ?'a = nat] by simp
  ultimately show ?thesis by (simp del: of_nat_diff)
qed

lemma ref_region_in:
  assumes "gr_to_region_addr ref_regions m a = Some (r, ra)" "gr_checked_offset ref_regions m r ra k = Some c"
  shows "all_in (ref_in m) (unat a) (Suc k)"
proof -
  have "fst r \<le> unat a" "unat a + k < snd r" "unat a + k < 2 ^ 64" "r \<in> set (rm_ranges m)"
    using ref_region_addr [OF assms(1)] assms(2) by (auto simp: ref_regions_def split: if_split_asm)
  then have "ref_in m (unat a + i)" if "i < Suc k" for i
    using that unfolding ref_in_def list_ex_iff by (intro conjI bexI [of _ r]) auto
  then show ?thesis by (simp add: all_in_def)
qed

lemma ref_regions_axioms: "guest_region_memory_axioms ref_in rm_bytes ref_regions"
proof (unfold_locales, goal_cases)
  case (1 n m a)
  then show ?case by (simp add: ref_regions_def ref_all_in_iff)
next
  case (2 m a r ra k c)
  then show ?case by (rule ref_region_in)
next
  case (3 m a r ra k c w s)
  then show ?case using ref_region_addr [of m a r ra] by (simp add: ref_regions_def)
next
  case (4 m a r ra k c wt t)
  then show ?case using ref_region_addr [of m a r ra] by (simp add: ref_regions_def)
next
  case (5 m a r ra k c rd s e s')
  then show ?case by (simp add: ref_regions_def)
next
  case (6 m a r ra k c rd s bs s')
  then show ?case using ref_region_addr [of m a r ra] by (auto simp: ref_regions_def ref_in_def fun_eq_iff)
qed

interpretation refr: guest_region_memory "ref_gm_err (GmOther ())" ref_in rm_bytes ref_regions
  by (rule guest_region_memory.intro [OF ref_gm_guest_memory ref_regions_axioms])

section \<open>An example memory\<close>

definition vs_hdr :: VsockPacketHeader where
  "vs_hdr = \<lparr> h_src_cid = 3, h_dst_cid = 2, h_src_port = 1024, h_dst_port = 52, h_len = 4, h_type = 1,
     h_op = 5, h_flags = 0, h_buf_alloc = 65536, h_fwd_cnt = 0 \<rparr>"

text \<open>A memory with one chain of two descriptors: a header and a data buffer of 64 bytes.\<close>

definition vs_mem :: "u16 \<Rightarrow> ref_mem" where
  "vs_mem wr = \<lparr> rm_ranges = [(0, 4096)],
     rm_bytes = upd_bytes (upd_bytes (upd_bytes (\<lambda>_. 7)
       0 (le_bytes 8 1024 @ le_bytes 4 44 @ le_bytes 2 (unat (VIRTQ_DESC_F_NEXT OR wr)) @ le_bytes 2 1))
       16 (le_bytes 8 2048 @ le_bytes 4 64 @ le_bytes 2 (unat wr) @ le_bytes 2 0))
       1024 (hdr_bytes vs_hdr) \<rparr>"

definition vs_chain :: "u16 \<Rightarrow> DescriptorChain" where
  "vs_chain wr = \<lparr> dc_desc_table = 0, dc_queue_size = 256, dc_ttl = 256, dc_index = 0, dc_addr = 1024,
     dc_len = 44, dc_flags = VIRTQ_DESC_F_NEXT OR wr, dc_next = 1 \<rparr>"

definition vs_pkt :: "VsockPacketHeader \<Rightarrow> VsockPacket" where
  "vs_pkt h = \<lparr> hdr_addr = 1024, hdr = h, buf_addr = Some 2048, buf_size = 64 \<rparr>"

abbreviation vs_gm :: "(ref_mem, unit) gmem" where
  "vs_gm \<equiv> ref_gm_err (GmOther ())"

abbreviation vs_regs :: "(ref_mem, nat \<times> nat, unit, ref_stream) guest_regions" where
  "vs_regs \<equiv> ref_regions"

lemma vs_mem_in [simp]: "ref_in (vs_mem wr) k \<longleftrightarrow> k < 4096"
  by (auto simp: ref_in_def vs_mem_def)

lemma vs_mem_all_in [simp]: "ref_all_in (vs_mem wr) a n \<longleftrightarrow> n = 0 \<or> a + n \<le> 4096"
proof -
  have "(\<forall>i<n. a + i < 4096) \<longleftrightarrow> n = 0 \<or> a + n \<le> 4096"
    by (cases n) (auto dest: spec [of _ "n - 1"])
  then show ?thesis by (simp add: ref_all_in_iff all_in_def)
qed

lemma vs_mem_bytes:
  "bytes_at (rm_bytes (vs_mem wr)) 1024 44 = hdr_bytes vs_hdr"
  "bytes_at (rm_bytes (vs_mem wr)) 16 16 = le_bytes 8 2048 @ le_bytes 4 64 @ le_bytes 2 (unat wr) @ le_bytes 2 0"
  by (simp_all add: vs_mem_def bytes_at_upd_other)

lemma ref_gm_err_simps:
  "gm_address_in_range (ref_gm_err e) m a = ref_in m (unat a)"
  "gm_checked_offset (ref_gm_err e) m a off =
     (case add_c a off of None \<Rightarrow> None | Some c \<Rightarrow> if ref_in m (unat c) then Some c else None)"
  "gm_read (ref_gm_err e) m a n =
     (if ref_all_in m (unat a) n then Inr (bytes_at (rm_bytes m) (unat a) n) else Inl e)"
  "ga_checked_add (ref_gm_err e) = add_c"
  by (simp_all add: ref_gm_err_def)

lemma ref_regions_check_range [simp]: "gr_check_range ref_regions m a n = ref_all_in m (unat a) n"
  by (simp add: ref_regions_def)

lemma vs_chain_simps [simp]:
  "dc_desc_table (vs_chain wr) = 0" "dc_queue_size (vs_chain wr) = 256" "dc_ttl (vs_chain wr) = 256"
  "dc_addr (vs_chain wr) = 1024" "dc_len (vs_chain wr) = 44" "dc_next (vs_chain wr) = 1"
  "dc_flags (vs_chain wr) = VIRTQ_DESC_F_NEXT OR wr"
  by (simp_all add: vs_chain_def)

definition vs_buf_desc :: "u16 \<Rightarrow> DescriptorChain" where
  "vs_buf_desc wr = \<lparr> dc_desc_table = 0, dc_queue_size = 256, dc_ttl = 255, dc_index = 1,
     dc_addr = 2048, dc_len = 64, dc_flags = wr, dc_next = 0\<rparr>"

lemma vs_next: "wr = 0 \<or> wr = 2 \<Longrightarrow> next_descriptor vs_gm (vs_mem wr) (vs_chain wr) = Some (vs_buf_desc wr)"
  by (auto simp: next_descriptor_def has_next_def VIRTQ_DESC_F_NEXT_def checked_new_def vs_buf_desc_def
     ref_gm_err_simps add_c_def vs_mem_bytes Descriptor_of_bytes_def le_nat_le_bytes chain_is_valid_def word_le_nat_alt)

lemmas vs_defs = check_hdr_desc_def check_desc_write_only_def is_write_only_def VIRTQ_DESC_F_WRITE_def
  VIRTQ_DESC_F_NEXT_def VSOCK_PKT_HDR_SIZE_def MAX_PKT_BUF_SIZE_def init_buf_def check_len_def vs_buf_desc_def
  vs_pkt_def ref_gm_err_simps

lemma vs_tx: "from_tx_virtq_head vs_gm ref_regions (vs_mem 0) (vs_chain 0) = Inr (vs_pkt vs_hdr)"
  by (simp add: from_tx_virtq_head_def vs_defs vs_next vs_mem_bytes Let_def) (simp add: vs_hdr_def)

lemma vs_rx: "from_rx_virtq_head vs_gm ref_regions (vs_mem 2) (vs_chain 2) = Inr (vs_pkt VsockPacketHeader_default)"
  by (simp add: from_rx_virtq_head_def vs_defs vs_next)

section \<open>Properties\<close>

text \<open>
  C22. A packet taken from the transmit queue is safe to use. If \<open>from_tx_virtq_head\<close> accepts a
  chain, its descriptors are device-readable, the header lies in guest memory and is the decoded
  bytes found there, the claimed length is at most 64 KiB and at most the length of the data
  buffer, and the whole data buffer lies in guest memory; a packet of length zero has no buffer.
\<close>

theorem tx_packet_checked:
  assumes "guest_region_memory G in_rng byte R" "from_tx_virtq_head G R m c = Inr pkt"
  shows "\<not> is_write_only c \<and> all_in (in_rng m) (unat (dc_addr c)) 44 \<and>
    hdr pkt = hdr_of_bytes (bytes_at (byte m) (unat (dc_addr c)) 44) \<and> unat (h_len (hdr pkt)) \<le> 65536 \<and>
    (if h_len (hdr pkt) = 0 then buf_addr pkt = None \<and> buf_size pkt = 0
     else \<exists>d. next_descriptor G m c = Some d \<and> \<not> is_write_only d \<and> buf_addr pkt = Some (dc_addr d) \<and>
       buf_size pkt = unat (dc_len d) \<and> unat (h_len (hdr pkt)) \<le> buf_size pkt \<and>
       all_in (in_rng m) (unat (dc_addr d)) (buf_size pkt))"
proof -
  note tx = guest_region_memory.from_tx_virtq_head_Inr [OF assms]
  have "unat (h_len (hdr pkt)) \<le> 65536" using tx(4) by (simp add: word_le_nat_alt)
  moreover have "\<exists>d. next_descriptor G m c = Some d \<and> \<not> is_write_only d \<and> buf_addr pkt = Some (dc_addr d) \<and>
       buf_size pkt = unat (dc_len d) \<and> all_in (in_rng m) (unat (dc_addr d)) (buf_size pkt)"
    if "h_len (hdr pkt) \<noteq> 0"
    using tx(6) [OF that] guest_region_memory.init_buf_Inr [OF assms(1), of m _ c False pkt] by fastforce
  ultimately show ?thesis
    using tx guest_region_memory.check_hdr_desc_Inr [OF assms(1) tx(1)] by simp
qed

theorem tx_packet_checked_witness:
  "from_tx_virtq_head vs_gm ref_regions (vs_mem 0) (vs_chain 0) = Inr (vs_pkt vs_hdr) \<and>
   all_in (ref_in (vs_mem 0)) 1024 44 \<and> unat (h_len (hdr (vs_pkt vs_hdr))) = 4"
proof -
  have "unat (h_len (hdr (vs_pkt vs_hdr))) = 4" by (simp add: vs_pkt_def vs_hdr_def)
  then show ?thesis
    using tx_packet_checked [OF refr.guest_region_memory_axioms vs_tx] vs_tx by simp
qed

text \<open>
  C23. The header that the device commits is the header that the driver reads. For a packet
  built on an accepted receive chain, whatever header fields were set since, \<open>commit_hdr\<close>
  succeeds if the length is at most 64 KiB, the 44 bytes at the header address decode to exactly
  these fields, and no other byte of guest memory changes; with a larger length nothing is
  written.
\<close>

theorem rx_header_roundtrip:
  assumes "guest_region_memory G in_rng byte R" "from_rx_virtq_head G R m c = Inr pkt0"
    and "hdr_addr pkt = hdr_addr pkt0" "in_rng m1 = in_rng m"
  shows "is_write_only c \<and> hdr_addr pkt = dc_addr c \<and>
    (if h_len (hdr pkt) \<le> 65536
     then \<exists>m'. commit_hdr G m1 pkt = (m', Inr ()) \<and>
       hdr_of_bytes (bytes_at (byte m') (unat (dc_addr c)) 44) = hdr pkt \<and>
       (\<forall>k. k < unat (dc_addr c) \<or> unat (dc_addr c) + 44 \<le> k \<longrightarrow> byte m' k = byte m1 k)
     else commit_hdr G m1 pkt = (m1, Inl (InvalidPktLen (h_len (hdr pkt)))))"
proof -
  have c: "check_hdr_desc R m c True = Inr ()"
    using assms(2) by (cases "check_hdr_desc R m c True") (auto simp: from_rx_virtq_head_def)
  have "init_buf G R m \<lparr>hdr_addr = dc_addr c, hdr = VsockPacketHeader_default, buf_addr = None,
      buf_size = 0\<rparr> c True = Inr pkt0"
    using assms(2) c by (simp add: from_rx_virtq_head_def)
  then have a: "hdr_addr pkt = dc_addr c"
    using assms(3) by (elim guest_region_memory.init_buf_Inr [OF assms(1)]) simp
  note h = guest_region_memory.check_hdr_desc_Inr [OF assms(1) c]
  have ok: "\<exists>m'. commit_hdr G m1 pkt = (m', Inr ()) \<and>
    byte m' = upd_bytes (byte m1) (unat (hdr_addr pkt)) (hdr_bytes (hdr pkt))" if "h_len (hdr pkt) \<le> 65536"
    using guest_region_memory.commit_hdr_ok [OF assms(1), of m1 pkt] that h a assms(4) by auto
  show ?thesis
  proof (cases "h_len (hdr pkt) \<le> 65536")
    case True
    then obtain m' where "commit_hdr G m1 pkt = (m', Inr ())"
        and m': "byte m' = upd_bytes (byte m1) (unat (dc_addr c)) (hdr_bytes (hdr pkt))"
      using ok a by auto
    moreover have "hdr_of_bytes (bytes_at (byte m') (unat (dc_addr c)) 44) = hdr pkt"
      using m' by simp
    moreover have "k < unat (dc_addr c) \<or> unat (dc_addr c) + 44 \<le> k \<longrightarrow> byte m' k = byte m1 k" for k
      using m' by (auto simp: upd_bytes_def)
    ultimately show ?thesis using True h a by auto
  next
    case False
    then show ?thesis using h a
      by (simp add: commit_hdr_def check_len_def MAX_PKT_BUF_SIZE_def not_le)
  qed
qed

theorem rx_header_roundtrip_witness:
  "\<exists>m'. from_rx_virtq_head vs_gm ref_regions (vs_mem 2) (vs_chain 2) = Inr (vs_pkt VsockPacketHeader_default) \<and>
     commit_hdr vs_gm (vs_mem 2) (vs_pkt vs_hdr) = (m', Inr ()) \<and>
     hdr_of_bytes (bytes_at (rm_bytes m') 1024 44) = vs_hdr"
proof -
  have a: "hdr_addr (vs_pkt vs_hdr) = hdr_addr (vs_pkt VsockPacketHeader_default)"
      "h_len (hdr (vs_pkt vs_hdr)) \<le> 65536" "hdr (vs_pkt vs_hdr) = vs_hdr"
    by (simp_all add: vs_pkt_def vs_hdr_def)
  show ?thesis
    using rx_header_roundtrip [OF refr.guest_region_memory_axioms vs_rx a(1) refl] vs_rx a by auto
qed

end
