(* ===== verification/Vsock_Connection.thy ===== *)
theory Vsock_Connection
  imports Vsock_Packet "HOL-Library.Sublist"
begin

text \<open>
  The vsock connection state machine,
  \<open>src/firecracker/src/devices/src/virtio/vsock/csm/connection.rs\<close> and the state types of
  \<open>csm/mod.rs\<close>. The host stream is the pair of \<^verbatim>\<open>read\<close> and \<^verbatim>\<open>write\<close> functions of the locale
  \<open>host_stream\<close>; an \<^verbatim>\<open>Instant\<close> is a number of milliseconds, and the operations that read the
  clock take its value as the argument \<open>now\<close>. The step relation \<open>conn_reach\<close> runs the operations
  of a connection in any order, with any guest packets, memory contents and stream behaviour.
\<close>

section \<open>States and pending packets\<close>

datatype ConnState =
    LocalInit
  | PeerInit
  | Established
  | LocalClosed
  | PeerClosed bool bool
  | Killed

datatype PendingRx = Request | Response | Rst | Rw | CreditUpdate

primrec PendingRx_discr :: "PendingRx \<Rightarrow> nat" where
  "PendingRx_discr Request = 0"
| "PendingRx_discr Response = 1"
| "PendingRx_discr Rst = 2"
| "PendingRx_discr Rw = 3"
| "PendingRx_discr CreditUpdate = 4"

definition into_mask :: "PendingRx \<Rightarrow> u16" where
  "into_mask it = push_bit (PendingRx_discr it) 1"

record PendingRxSet =
  prs_data :: u16

definition prs_insert :: "PendingRx \<Rightarrow> PendingRxSet \<Rightarrow> PendingRxSet" where
  "prs_insert it p = p\<lparr> prs_data := prs_data p OR into_mask it \<rparr>"

definition prs_contains :: "PendingRx \<Rightarrow> PendingRxSet \<Rightarrow> bool" where
  "prs_contains it p \<longleftrightarrow> prs_data p AND into_mask it \<noteq> 0"

definition prs_remove :: "PendingRx \<Rightarrow> PendingRxSet \<Rightarrow> bool \<times> PendingRxSet" where
  "prs_remove it p = (prs_contains it p, p\<lparr> prs_data := prs_data p AND NOT (into_mask it) \<rparr>)"

definition prs_is_empty :: "PendingRxSet \<Rightarrow> bool" where
  "prs_is_empty p \<longleftrightarrow> prs_data p = 0"

definition prs_from :: "PendingRx \<Rightarrow> PendingRxSet" where
  "prs_from it = \<lparr> prs_data = into_mask it \<rparr>"

text \<open>Epoll event sets, as the bit masks of \<^verbatim>\<open>libc\<close>.\<close>

type_synonym EventSet = u32

definition EventSet_IN :: EventSet where "EventSet_IN = 0x1"
definition EventSet_OUT :: EventSet where "EventSet_OUT = 0x4"

definition es_contains :: "EventSet \<Rightarrow> EventSet \<Rightarrow> bool" where
  "es_contains e f \<longleftrightarrow> e AND f = f"

section \<open>Connections\<close>

record 's VsockConnection =
  c_state :: ConnState
  c_local_cid :: u64
  c_peer_cid :: u64
  c_local_port :: u32
  c_peer_port :: u32
  c_stream :: 's
  c_tx_buf :: TxBuf
  c_fwd_cnt :: u32
  c_peer_buf_alloc :: u32
  c_peer_fwd_cnt :: u32
  c_rx_cnt :: u32
  c_last_fwd_cnt_to_peer :: u32
  c_pending_rx :: PendingRxSet
  c_expiry :: "nat option"

definition new_peer_init :: "'s \<Rightarrow> u64 \<Rightarrow> u64 \<Rightarrow> u32 \<Rightarrow> u32 \<Rightarrow> u32 \<Rightarrow> 's VsockConnection" where
  "new_peer_init stream local_cid peer_cid local_port peer_port peer_buf_alloc =
     \<lparr> c_state = PeerInit, c_local_cid = local_cid, c_peer_cid = peer_cid, c_local_port = local_port,
       c_peer_port = peer_port, c_stream = stream, c_tx_buf = TxBuf_new, c_fwd_cnt = 0,
       c_peer_buf_alloc = peer_buf_alloc, c_peer_fwd_cnt = 0, c_rx_cnt = 0, c_last_fwd_cnt_to_peer = 0,
       c_pending_rx = prs_from Response, c_expiry = None \<rparr>"

definition new_local_init :: "'s \<Rightarrow> u64 \<Rightarrow> u64 \<Rightarrow> u32 \<Rightarrow> u32 \<Rightarrow> 's VsockConnection" where
  "new_local_init stream local_cid peer_cid local_port peer_port =
     \<lparr> c_state = LocalInit, c_local_cid = local_cid, c_peer_cid = peer_cid, c_local_port = local_port,
       c_peer_port = peer_port, c_stream = stream, c_tx_buf = TxBuf_new, c_fwd_cnt = 0,
       c_peer_buf_alloc = 0, c_peer_fwd_cnt = 0, c_rx_cnt = 0, c_last_fwd_cnt_to_peer = 0,
       c_pending_rx = prs_from Request, c_expiry = None \<rparr>"

definition will_expire :: "nat \<Rightarrow> 's VsockConnection \<Rightarrow> bool" where
  "will_expire now c = (case c_expiry c of None \<Rightarrow> False | Some t \<Rightarrow> t > now)"

definition has_expired :: "nat \<Rightarrow> 's VsockConnection \<Rightarrow> bool" where
  "has_expired now c = (case c_expiry c of None \<Rightarrow> False | Some t \<Rightarrow> t \<le> now)"

definition has_pending_rx :: "'s VsockConnection \<Rightarrow> bool" where
  "has_pending_rx c \<longleftrightarrow> \<not> prs_is_empty (c_pending_rx c)"

definition insert_pending :: "PendingRx \<Rightarrow> 's VsockConnection \<Rightarrow> 's VsockConnection" where
  "insert_pending it c = c\<lparr> c_pending_rx := prs_insert it (c_pending_rx c) \<rparr>"

definition take_pending :: "PendingRx \<Rightarrow> 's VsockConnection \<Rightarrow> bool \<times> 's VsockConnection" where
  "take_pending it c = (let (had, p) = prs_remove it (c_pending_rx c) in (had, c\<lparr> c_pending_rx := p \<rparr>))"

definition kill :: "'s VsockConnection \<Rightarrow> 's VsockConnection" where
  "kill c = insert_pending Rst (c\<lparr> c_state := Killed \<rparr>)"

definition peer_needs_credit_update :: "'s VsockConnection \<Rightarrow> bool" where
  "peer_needs_credit_update c \<longleftrightarrow>
     CONN_TX_BUF_SIZE - (c_fwd_cnt c - c_last_fwd_cnt_to_peer c) < CONN_CREDIT_UPDATE_THRESHOLD"

definition peer_avail_credit :: "'s VsockConnection \<Rightarrow> nat" where
  "peer_avail_credit c = unat (c_peer_buf_alloc c - (c_rx_cnt c - c_peer_fwd_cnt c))"

definition need_credit_update_from_peer :: "'s VsockConnection \<Rightarrow> bool" where
  "need_credit_update_from_peer c \<longleftrightarrow> peer_avail_credit c = 0"

definition init_pkt :: "'s VsockConnection \<Rightarrow> VsockPacket \<Rightarrow> VsockPacket" where
  "init_pkt c pkt = set_fwd_cnt (c_fwd_cnt c) (set_buf_alloc CONN_TX_BUF_SIZE (set_type VSOCK_TYPE_STREAM
     (set_dst_port (c_peer_port c) (set_src_port (c_local_port c)
       (set_dst_cid (c_peer_cid c) (set_src_cid (c_local_cid c) pkt))))))"

subsection \<open>Host to guest\<close>

text \<open>
  The branch of \<^verbatim>\<open>recv_pkt\<close> that reads from the stream. The first component of the result is
  false if the stream would have blocked, in which case \<^verbatim>\<open>recv_pkt\<close> goes on.
\<close>

definition recv_rw :: "('m, 'e) gmem \<Rightarrow> ('m, 'r, 'e, 's) guest_regions \<Rightarrow> 's reader \<Rightarrow> nat \<Rightarrow> 'm \<Rightarrow>
    VsockPacket \<Rightarrow> 's VsockConnection \<Rightarrow> bool \<times> VsockPacket \<times> 'm \<times> 's VsockConnection" where
  "recv_rw G R rd now m pkt c =
     (if \<not> (case c_state c of Established \<Rightarrow> True | PeerClosed recv_off _ \<Rightarrow> \<not> recv_off | _ \<Rightarrow> False)
      then (True, set_op VSOCK_OP_RST pkt, m, c)
      else if need_credit_update_from_peer c
      then (True, set_op VSOCK_OP_CREDIT_REQUEST pkt, m, c\<lparr> c_last_fwd_cnt_to_peer := c_fwd_cnt c \<rparr>)
      else
        (let max_len = min (buf_size pkt) (peer_avail_credit c);
             (res, m1, s1) = read_at_offset_from G R rd m pkt 0 (c_stream c) max_len;
             c1 = c\<lparr> c_stream := s1 \<rparr>
         in case res of
           Inr read_cnt \<Rightarrow>
             (let (pkt2, c2) =
                (if read_cnt = 0
                 then (set_flag VSOCK_FLAGS_SHUTDOWN_SEND (set_flag VSOCK_FLAGS_SHUTDOWN_RCV
                         (set_op VSOCK_OP_SHUTDOWN pkt)),
                       c1\<lparr> c_state := LocalClosed, c_expiry := Some (now + CONN_SHUTDOWN_TIMEOUT_MS) \<rparr>)
                 else (set_len (of_nat read_cnt) (set_op VSOCK_OP_RW pkt), c1))
              in (True, pkt2, m1, c2\<lparr> c_rx_cnt := c_rx_cnt c2 + h_len (hdr pkt2),
                                    c_last_fwd_cnt_to_peer := c_fwd_cnt c2 \<rparr>))
         | Inl err \<Rightarrow>
             (if err = GuestMemoryMmap (IOError WouldBlock) then (False, pkt, m1, c1)
              else (True, set_op VSOCK_OP_RST pkt, m1, c1\<lparr> c_last_fwd_cnt_to_peer := c_fwd_cnt c1 \<rparr>))))"

definition conn_recv_pkt :: "('m, 'e) gmem \<Rightarrow> ('m, 'r, 'e, 's) guest_regions \<Rightarrow> 's reader \<Rightarrow> nat \<Rightarrow> 'm \<Rightarrow>
    VsockPacket \<Rightarrow> 's VsockConnection \<Rightarrow> ('e VsockError + unit) \<times> VsockPacket \<times> 'm \<times> 's VsockConnection" where
  "conn_recv_pkt G R rd now m pkt0 c0 =
     (let pkt = init_pkt c0 pkt0;
          (rst, c1) = take_pending Rst c0
      in if rst then (Inr (), set_op VSOCK_OP_RST pkt, m, c1)
      else let (resp, c2) = take_pending Response c1
      in if resp then (Inr (), set_op VSOCK_OP_RESPONSE pkt, m, c2\<lparr> c_state := Established \<rparr>)
      else let (req, c3) = take_pending Request c2
      in if req then (Inr (), set_op VSOCK_OP_REQUEST pkt, m,
                      c3\<lparr> c_expiry := Some (now + CONN_REQUEST_TIMEOUT_MS) \<rparr>)
      else let (rw, c4) = take_pending Rw c3;
               (done, pkt5, m5, c5) = (if rw then recv_rw G R rd now m pkt c4 else (False, pkt, m, c4))
      in if done then (Inr (), pkt5, m5, c5)
      else let (upd, c6) = take_pending CreditUpdate c5
      in if upd \<and> \<not> has_pending_rx c6
         then (Inr (), set_op VSOCK_OP_CREDIT_UPDATE pkt5, m5, c6\<lparr> c_last_fwd_cnt_to_peer := c_fwd_cnt c6 \<rparr>)
         else (Inl NoData, pkt5, m5, c6))"

subsection \<open>Guest to host\<close>

definition send_bytes_raw :: "'s writer \<Rightarrow> bytes \<Rightarrow> 's VsockConnection \<Rightarrow>
    (CsmError + nat) \<times> 's VsockConnection" where
  "send_bytes_raw w buf c = (let (res, s1) = w (c_stream c) buf
     in (map_sum StreamWrite id res, c\<lparr> c_stream := s1 \<rparr>))"

text \<open>The part of \<^verbatim>\<open>send_bytes\<close> after the write to the stream.\<close>

definition send_rest :: "('m, 'e) gmem \<Rightarrow> ('m, 'r, 'e, 's) guest_regions \<Rightarrow> 'm \<Rightarrow> VsockPacket \<Rightarrow>
    nat \<Rightarrow> nat \<Rightarrow> 's VsockConnection \<Rightarrow> (('e VsockError + unit) \<times> 's VsockConnection) option" where
  "send_rest G R m pkt len written c =
     (let c1 = c\<lparr> c_fwd_cnt := c_fwd_cnt c + of_nat written \<rparr>
      in if written < len then do {
           (res, t) \<leftarrow> write_from_offset_to_txbuf G R m pkt written (c_tx_buf c1) (len - written);
           Some (map_sum id (\<lambda>_. ()) res, c1\<lparr> c_tx_buf := t \<rparr>)
         } else Some (Inr (), c1))"

definition send_bytes :: "('m, 'e) gmem \<Rightarrow> ('m, 'r, 'e, 's) guest_regions \<Rightarrow> 's writer \<Rightarrow> 'm \<Rightarrow>
    VsockPacket \<Rightarrow> 's VsockConnection \<Rightarrow> (('e VsockError + unit) \<times> 's VsockConnection) option" where
  "send_bytes G R w m pkt c =
     (let len = unat (h_len (hdr pkt))
      in if \<not> TxBuf_is_empty (c_tx_buf c) then do {
           (res, t) \<leftarrow> write_from_offset_to_txbuf G R m pkt 0 (c_tx_buf c) len;
           Some (map_sum id (\<lambda>_. ()) res, c\<lparr> c_tx_buf := t \<rparr>)
         } else
           (let (res, s1) = write_from_offset_to_stream G R w m pkt 0 (c_stream c) len;
                c1 = c\<lparr> c_stream := s1 \<rparr>
            in case res of
                 Inr cnt \<Rightarrow> send_rest G R m pkt len cnt c1
               | Inl err \<Rightarrow>
                   if err = GuestMemoryMmap (IOError WouldBlock) then send_rest G R m pkt len 0 c1
                   else Some (Inl err, c1)))"

definition conn_send_pkt :: "('m, 'e) gmem \<Rightarrow> ('m, 'r, 'e, 's) guest_regions \<Rightarrow> 's writer \<Rightarrow> nat \<Rightarrow> 'm \<Rightarrow>
    VsockPacket \<Rightarrow> 's VsockConnection \<Rightarrow> (('e VsockError + unit) \<times> 's VsockConnection) option" where
  "conn_send_pkt G R w now m pkt c0 =
     (let c = c0\<lparr> c_peer_buf_alloc := h_buf_alloc (hdr pkt), c_peer_fwd_cnt := h_fwd_cnt (hdr pkt) \<rparr>;
          op = h_op (hdr pkt);
          rcv = h_flags (hdr pkt) AND VSOCK_FLAGS_SHUTDOWN_RCV \<noteq> 0;
          snd = h_flags (hdr pkt) AND VSOCK_FLAGS_SHUTDOWN_SEND \<noteq> 0
      in if (case c_state c of Established \<Rightarrow> True | PeerClosed _ send_off \<Rightarrow> \<not> send_off | _ \<Rightarrow> False) \<and> op = VSOCK_OP_RW
         then if buf_size pkt = 0 then Some (Inr (), c)
              else do {
                (res, c1) \<leftarrow> send_bytes G R w m pkt c;
                case res of
                  Inl _ \<Rightarrow> Some (Inr (), kill c1)
                | Inr _ \<Rightarrow> Some (Inr (), if peer_needs_credit_update c1 then insert_pending CreditUpdate c1 else c1)
              }
         else if c_state c = LocalInit \<and> op = VSOCK_OP_RESPONSE
         then Some (Inr (), c\<lparr> c_expiry := None, c_state := Established \<rparr>)
         else if c_state c = Established \<and> op = VSOCK_OP_SHUTDOWN
         then (let c1 = c\<lparr> c_state := PeerClosed rcv snd \<rparr>
               in Some (Inr (), if rcv \<and> snd
                    then (if TxBuf_is_empty (c_tx_buf c1) then insert_pending Rst c1
                          else c1\<lparr> c_expiry := Some (now + CONN_SHUTDOWN_TIMEOUT_MS) \<rparr>)
                    else c1))
         else (case c_state c of
             PeerClosed recv_off send_off \<Rightarrow>
               if op = VSOCK_OP_SHUTDOWN
               then (let r = recv_off \<or> rcv; s = send_off \<or> snd; c1 = c\<lparr> c_state := PeerClosed r s \<rparr>
                     in Some (Inr (), if r \<and> s \<and> TxBuf_is_empty (c_tx_buf c1) then insert_pending Rst c1 else c1))
               else if \<not> recv_off \<and> op = VSOCK_OP_CREDIT_UPDATE then Some (Inr (), c)
               else if \<not> send_off \<and> op = VSOCK_OP_CREDIT_REQUEST then Some (Inr (), insert_pending CreditUpdate c)
               else Some (Inr (), c)
           | st \<Rightarrow>
               if (st = Established \<or> st = PeerInit) \<and> op = VSOCK_OP_CREDIT_UPDATE then Some (Inr (), c)
               else if (st = Established \<or> st = PeerInit) \<and> op = VSOCK_OP_CREDIT_REQUEST
               then Some (Inr (), insert_pending CreditUpdate c)
               else Some (Inr (), c)))"

subsection \<open>Events\<close>

definition get_polled_evset :: "'s VsockConnection \<Rightarrow> EventSet" where
  "get_polled_evset c =
     (let e = (if \<not> TxBuf_is_empty (c_tx_buf c) then EventSet_OUT else 0)
      in if (case c_state c of Killed \<Rightarrow> True | LocalClosed \<Rightarrow> True | PeerClosed recv_off _ \<Rightarrow> recv_off | _ \<Rightarrow> False)
         then e
         else if need_credit_update_from_peer c then e
         else e OR EventSet_IN)"

definition conn_notify :: "'s writer \<Rightarrow> EventSet \<Rightarrow> 's VsockConnection \<Rightarrow> 's VsockConnection option" where
  "conn_notify w evset c0 =
     (let c = (if es_contains evset EventSet_IN then insert_pending Rw c0 else c0)
      in if es_contains evset EventSet_OUT then
           if TxBuf_is_empty (c_tx_buf c) then Some c
           else do {
             (res, t, s) \<leftarrow> TxBuf_flush_to w (c_tx_buf c) (c_stream c);
             let c1 = c\<lparr> c_tx_buf := t, c_stream := s \<rparr>;
             let (flushed, c2) = (case res of
                Inr n \<Rightarrow> (n, c1)
              | Inl err \<Rightarrow> (0, if err = TxBufFlush WouldBlock then c1 else kill c1));
             let c3 = c2\<lparr> c_fwd_cnt := c_fwd_cnt c2 + of_nat flushed \<rparr>;
             Some (if c_state c3 = PeerClosed True True \<and> TxBuf_is_empty (c_tx_buf c3) then insert_pending Rst c3
                   else if peer_needs_credit_update c3 then insert_pending CreditUpdate c3
                   else c3)
           }
         else Some c)"

section \<open>Pending sets\<close>

lemma into_mask_eq: "into_mask it = 2 ^ PendingRx_discr it"
  by (simp add: into_mask_def push_bit_eq_mult)

lemma PendingRx_discr_inject [simp]: "PendingRx_discr a = PendingRx_discr b \<longleftrightarrow> a = b"
  by (cases a; cases b) simp_all

lemma PendingRx_discr_less: "PendingRx_discr a < 16"
  by (cases a) simp_all

lemma prs_contains_bit: "prs_contains it p \<longleftrightarrow> bit (prs_data p) (PendingRx_discr it)"
  by (simp add: prs_contains_def into_mask_eq and_exp_eq_0_iff_not_bit)

lemma prs_contains_insert [simp]: "prs_contains a (prs_insert b p) \<longleftrightarrow> a = b \<or> prs_contains a p"
  using PendingRx_discr_less [of a]
  by (auto simp: prs_contains_bit prs_insert_def into_mask_eq bit_or_iff bit_exp_iff)

lemma prs_remove_simps [simp]:
  "fst (prs_remove a p) = prs_contains a p"
  "prs_contains b (snd (prs_remove a p)) \<longleftrightarrow> b \<noteq> a \<and> prs_contains b p"
  using PendingRx_discr_less [of b]
  by (auto simp: prs_remove_def prs_contains_bit into_mask_eq bit_and_iff bit_not_iff bit_exp_iff)

lemma prs_contains_from [simp]: "prs_contains a (prs_from b) \<longleftrightarrow> a = b"
  using PendingRx_discr_less [of a] by (auto simp: prs_contains_bit prs_from_def into_mask_eq bit_exp_iff)

lemma take_pending_eq:
  "take_pending it c = (prs_contains it (c_pending_rx c), c\<lparr>c_pending_rx := snd (prs_remove it (c_pending_rx c))\<rparr>)"
  by (simp add: take_pending_def prs_remove_def)

lemma kill_simps [simp]:
  "c_state (kill c) = Killed" "c_stream (kill c) = c_stream c" "c_tx_buf (kill c) = c_tx_buf c"
  "c_fwd_cnt (kill c) = c_fwd_cnt c" "prs_contains it (c_pending_rx (kill c)) \<longleftrightarrow> it = Rst \<or> prs_contains it (c_pending_rx c)"
  by (simp_all add: kill_def insert_pending_def)

lemma insert_pending_simps [simp]:
  "c_state (insert_pending it c) = c_state c" "c_stream (insert_pending it c) = c_stream c"
  "c_tx_buf (insert_pending it c) = c_tx_buf c" "c_fwd_cnt (insert_pending it c) = c_fwd_cnt c"
  "prs_contains a (c_pending_rx (insert_pending it c)) \<longleftrightarrow> a = it \<or> prs_contains a (c_pending_rx c)"
  by (simp_all add: insert_pending_def)

text \<open>
  The branches of \<^verbatim>\<open>recv_pkt\<close>: a pending reset, response or request is announced; otherwise data
  is read when it was indicated, and a credit update goes out when nothing else did.
\<close>

lemma conn_recv_pkt_split [consumes 1, case_names rst response request data]:
  assumes r: "conn_recv_pkt G R rd now m pkt c = (r, pkt', m', c')"
  obtains
    (rst) "prs_contains Rst (c_pending_rx c)" "r = Inr ()" "pkt' = set_op VSOCK_OP_RST (init_pkt c pkt)" "m' = m"
      "c' = snd (take_pending Rst c)"
  | (response) "\<not> prs_contains Rst (c_pending_rx c)" "prs_contains Response (c_pending_rx c)" "r = Inr ()"
      "pkt' = set_op VSOCK_OP_RESPONSE (init_pkt c pkt)" "m' = m"
      "c' = (snd (take_pending Response (snd (take_pending Rst c))))\<lparr> c_state := Established \<rparr>"
  | (request) "\<not> prs_contains Rst (c_pending_rx c)" "\<not> prs_contains Response (c_pending_rx c)"
      "prs_contains Request (c_pending_rx c)" "r = Inr ()"
      "pkt' = set_op VSOCK_OP_REQUEST (init_pkt c pkt)" "m' = m"
      "c' = (snd (take_pending Request (snd (take_pending Response (snd (take_pending Rst c))))))
         \<lparr> c_expiry := Some (now + CONN_REQUEST_TIMEOUT_MS) \<rparr>"
  | (data) p b q c7 where "\<not> prs_contains Rst (c_pending_rx c)" "\<not> prs_contains Response (c_pending_rx c)"
      "\<not> prs_contains Request (c_pending_rx c)"
      "\<And>it. prs_contains it p \<longleftrightarrow> it = CreditUpdate \<and> prs_contains it (c_pending_rx c)"
      "p = snd (prs_remove Rw (snd (prs_remove Request (snd (prs_remove Response (snd (prs_remove Rst (c_pending_rx c))))))))"
      "if prs_contains Rw (c_pending_rx c)
       then recv_rw G R rd now m (init_pkt c pkt) (c\<lparr> c_pending_rx := p \<rparr>) = (b, q, m', c7)
       else (b, q, m', c7) = (False, init_pkt c pkt, m, c\<lparr> c_pending_rx := p \<rparr>)"
      "b \<and> r = Inr () \<and> pkt' = q \<and> c' = c7 \<or>
       \<not> b \<and> r = Inr () \<and> pkt' = set_op VSOCK_OP_CREDIT_UPDATE q \<and>
         c' = (snd (take_pending CreditUpdate c7))\<lparr> c_last_fwd_cnt_to_peer := c_fwd_cnt c7 \<rparr> \<or>
       \<not> b \<and> r = Inl NoData \<and> pkt' = q \<and> c' = snd (take_pending CreditUpdate c7)"
proof -
  let ?in = "\<lambda>it. prs_contains it (c_pending_rx c)"
  consider "?in Rst" | "\<not> ?in Rst" "?in Response" | "\<not> ?in Rst" "\<not> ?in Response" "?in Request"
    | "\<not> ?in Rst" "\<not> ?in Response" "\<not> ?in Request" by blast
  then show ?thesis
  proof cases
    case 1
    then show ?thesis using r rst by (auto simp: conn_recv_pkt_def take_pending_eq Let_def)
  next
    case 2
    then show ?thesis using r response by (auto simp: conn_recv_pkt_def take_pending_eq Let_def)
  next
    case 3
    then show ?thesis using r request by (auto simp: conn_recv_pkt_def take_pending_eq Let_def)
  next
    case 4
    define p where "p = snd (prs_remove Rw (snd (prs_remove Request (snd (prs_remove Response
      (snd (prs_remove Rst (c_pending_rx c))))))))"
    define x where "x = (if ?in Rw then recv_rw G R rd now m (init_pkt c pkt) (c\<lparr> c_pending_rx := p \<rparr>)
      else (False, init_pkt c pkt, m, c\<lparr> c_pending_rx := p \<rparr>))"
    have e: "conn_recv_pkt G R rd now m pkt c = (case x of (done, pkt5, m5, c5) \<Rightarrow>
        if done then (Inr (), pkt5, m5, c5)
        else let (upd, c6) = take_pending CreditUpdate c5
        in if upd \<and> \<not> has_pending_rx c6
           then (Inr (), set_op VSOCK_OP_CREDIT_UPDATE pkt5, m5, c6\<lparr> c_last_fwd_cnt_to_peer := c_fwd_cnt c6 \<rparr>)
           else (Inl NoData, pkt5, m5, c6))"
      using 4 unfolding conn_recv_pkt_def Let_def take_pending_eq x_def p_def by simp
    obtain b q m7 c7 where x7: "x = (b, q, m7, c7)" by (cases x) auto
    have pc: "prs_contains it p \<longleftrightarrow> it = CreditUpdate \<and> ?in it" for it
      using 4 by (cases it) (auto simp: p_def)
    have "m7 = m'" using r unfolding e x7 by (auto simp: take_pending_eq Let_def split: if_split_asm)
    moreover have "b \<and> r = Inr () \<and> pkt' = q \<and> c' = c7 \<or>
       \<not> b \<and> r = Inr () \<and> pkt' = set_op VSOCK_OP_CREDIT_UPDATE q \<and>
         c' = (snd (take_pending CreditUpdate c7))\<lparr> c_last_fwd_cnt_to_peer := c_fwd_cnt c7 \<rparr> \<or>
       \<not> b \<and> r = Inl NoData \<and> pkt' = q \<and> c' = snd (take_pending CreditUpdate c7)"
      using r unfolding e x7 by (auto simp: take_pending_eq Let_def split: if_split_asm)
    ultimately show ?thesis
      using data [OF 4 pc p_def, of b q c7] x7 by (auto simp: x_def split: if_split_asm)
  qed
qed

section \<open>The stream and the environment\<close>

text \<open>\<^verbatim>\<open>Read::read\<close> fills at most the given buffer, and does not write.\<close>

locale host_stream = stream_write w out for w :: "'s writer" and out +
  fixes rd :: "'s reader"
  assumes read_len: "rd s n = (Inr bs, s') \<Longrightarrow> length bs \<le> n"
    and read_out: "rd s n = (r, s') \<Longrightarrow> out s' = out s"

definition pkt_data :: "('m \<Rightarrow> nat \<Rightarrow> u8) \<Rightarrow> 'm \<Rightarrow> VsockPacket \<Rightarrow> nat \<Rightarrow> nat \<Rightarrow> bytes" where
  "pkt_data byte m pkt off n = (case buf_addr pkt of None \<Rightarrow> [] | Some a \<Rightarrow> bytes_at (byte m) (unat a + off) n)"

definition sends_data :: "ConnState \<Rightarrow> bool" where
  "sends_data st = (case st of Established \<Rightarrow> True | PeerClosed _ send_off \<Rightarrow> \<not> send_off | _ \<Rightarrow> False)"

text \<open>The data that a guest packet hands to a connection in a given state.\<close>

definition accepted :: "('m \<Rightarrow> nat \<Rightarrow> u8) \<Rightarrow> 'm \<Rightarrow> VsockPacket \<Rightarrow> ConnState \<Rightarrow> bytes" where
  "accepted byte m pkt st =
     (if sends_data st \<and> h_op (hdr pkt) = VSOCK_OP_RW \<and> buf_size pkt \<noteq> 0
      then pkt_data byte m pkt 0 (unat (h_len (hdr pkt))) else [])"

lemma bytes_at_split: "k \<le> n \<Longrightarrow> bytes_at b a n = bytes_at b a k @ bytes_at b (a + k) (n - k)"
  by (rule nth_equalityI) (auto simp: bytes_at_def nth_append)

lemma pkt_data_split:
  "k \<le> n \<Longrightarrow> pkt_data byte m pkt off n = pkt_data byte m pkt off k @ pkt_data byte m pkt (off + k) (n - k)"
  by (auto simp: pkt_data_def bytes_at_split [of k n] add.assoc split: option.splits)

locale vsock_env = guest_region_memory G in_rng byte R + host_stream w out rd
  for G :: "('m, 'e) gmem" and in_rng byte and R :: "('m, 'r, 'e, 's) guest_regions"
    and w :: "'s writer" and out and rd
begin

lemma buf_region_addr_Inr:
  assumes "buf_region_addr G R m pkt off cnt = Inr (r, ra)" "buf_size pkt < 2 ^ 64"
  obtains a k c where "buf_addr pkt = Some a" "cnt = Suc k" "off + cnt \<le> buf_size pkt"
    "gr_to_region_addr R m (a + of_nat off) = Some (r, ra)" "gr_checked_offset R m r ra k = Some c"
    "unat (a + of_nat off) = unat a + off"
proof -
  have b: "off \<le> buf_size pkt" "cnt \<le> buf_size pkt - off"
    using assms by (auto simp: buf_region_addr_def split: if_split_asm)
  obtain a x c where a: "buf_addr pkt = Some a" "add_c a (of_nat off) = Some x" "cnt \<noteq> 0"
      "gr_to_region_addr R m x = Some (r, ra)" "gr_checked_offset R m r ra (cnt - 1) = Some c"
    using assms(1) unfolding buf_region_addr_def addr_add(1)
    by (auto simp: bind_eq_Some_conv split: if_split_asm option.split_asm)
  moreover have "x = a + of_nat off" "unat x = unat a + off"
    using a(2) unat_add_c [OF a(2)] b assms(2) by (auto simp: add_c_Some_iff)
  ultimately show ?thesis using b that [of a "cnt - 1" c] by auto
qed

lemma write_to_stream_cases:
  assumes "write_from_offset_to_stream G R w m pkt off s n = (res, s')" "buf_size pkt < 2 ^ 64"
  shows "(\<exists>e. res = Inl e \<and> s' = s \<and> (e = GuestMemoryBounds \<or> e = PktBufMissing)) \<or>
    0 < n \<and> (\<exists>x. w s (pkt_data byte m pkt off n) = (x, s') \<and> res = map_sum (GuestMemoryMmap \<circ> IOError) id x)"
proof (cases "buf_region_addr G R m pkt off n")
  case (Inl e)
  moreover have "e = GuestMemoryBounds \<or> e = PktBufMissing"
    using Inl by (auto simp: buf_region_addr_def split: if_split_asm option.split_asm)
  ultimately show ?thesis using assms by (auto simp: write_from_offset_to_stream_def)
next
  case (Inr x)
  obtain r ra where x: "x = (r, ra)" by fastforce
  show ?thesis
    using Inr [unfolded x] assms(2)
  proof (rule buf_region_addr_Inr)
    fix a k c
    assume a: "buf_addr pkt = Some a" "n = Suc k"
      "gr_to_region_addr R m (a + of_nat off) = Some (r, ra)" "gr_checked_offset R m r ra k = Some c"
      "unat (a + of_nat off) = unat a + off"
    then have "gr_write_to_stream R m r ra w s n =
        map_prod (map_sum IOError id) id (w s (pkt_data byte m pkt off n))"
      using region_write_stream [OF a(3,4), of w s] by (simp add: pkt_data_def)
    then show ?thesis
      using assms(1) Inr x a(2)
      by (cases "w s (pkt_data byte m pkt off n)"; cases "fst (w s (pkt_data byte m pkt off n))")
        (auto simp: write_from_offset_to_stream_def)
  qed
qed

text \<open>Appending packet data to the transmit buffer: all of it or nothing.\<close>

lemma write_to_txbuf_cases:
  assumes "tb_wf t" "buf_size pkt < 2 ^ 64"
  shows "\<exists>res t'. write_from_offset_to_txbuf G R m pkt off t n = Some (res, t') \<and> tb_wf t' \<and>
    ((\<exists>e. res = Inl e) \<and> t' = t \<and>
       (\<forall>ra. buf_region_addr G R m pkt off n = Inr ra \<longrightarrow> length (contents t) + n > TxBuf_SIZE) \<or>
     res = Inr n \<and> contents t' = contents t @ pkt_data byte m pkt off n)"
proof (cases "buf_region_addr G R m pkt off n")
  case (Inl e)
  then show ?thesis using assms by (simp add: write_from_offset_to_txbuf_def)
next
  case (Inr x)
  obtain r ra where x: "x = (r, ra)" by fastforce
  show ?thesis
    using Inr [unfolded x] assms(2)
  proof (rule buf_region_addr_Inr)
    fix a k c
    assume a: "buf_addr pkt = Some a" "n = Suc k"
      "gr_to_region_addr R m (a + of_nat off) = Some (r, ra)" "gr_checked_offset R m r ra k = Some c"
      "unat (a + of_nat off) = unat a + off"
    let ?d = "pkt_data byte m pkt off n"
    have wr: "gr_write_to_txbuf R m r ra TxBuf_write t n =
        map_option (map_prod (map_sum IOError id) id) (TxBuf_write t ?d)"
      using region_write_txbuf [OF a(3,4), of TxBuf_write t] a by (simp add: pkt_data_def)
    have ld: "length ?d = n" using a by (simp add: pkt_data_def)
    show ?thesis
    proof (cases "TxBuf_len t + length ?d \<le> TxBuf_SIZE")
      case True
      then obtain t' where "TxBuf_push t ?d = Some (Inr (), t')" "tb_wf t'" "contents t' = contents t @ ?d"
        using TxBuf_push_ok [OF assms(1)] by blast
      then show ?thesis using Inr x wr ld
        by (simp add: write_from_offset_to_txbuf_def TxBuf_write_def)
    next
      case False
      then have "TxBuf_push t ?d = Some (Inl TxBufFull, t)" by (simp add: TxBuf_push_full)
      then show ?thesis using Inr x wr ld False assms(1)
        by (simp add: write_from_offset_to_txbuf_def TxBuf_write_def length_contents)
    qed
  qed
qed

text \<open>
  What forwarding a packet does: \<open>k\<close> bytes go to the stream, the rest to the buffer. On an
  error a prefix of the data may have been forwarded.
\<close>

lemma send_rest_cases:
  assumes wf: "tb_wf (c_tx_buf c)" and sz: "buf_size pkt < 2 ^ 64" and k: "k \<le> len"
    and out: "out (c_stream c) = o' @ take k (pkt_data byte m pkt 0 len)" and e: "contents (c_tx_buf c) = []"
  shows "\<exists>r c'. send_rest G R m pkt len k c = Some (r, c') \<and> tb_wf (c_tx_buf c') \<and>
    c_state c' = c_state c \<and> c_pending_rx c' = c_pending_rx c \<and> c_stream c' = c_stream c \<and>
    c_fwd_cnt c' = c_fwd_cnt c + of_nat k \<and>
    prefix (out (c_stream c') @ contents (c_tx_buf c')) (o' @ pkt_data byte m pkt 0 len) \<and>
    (isl r \<or> out (c_stream c') @ contents (c_tx_buf c') = o' @ pkt_data byte m pkt 0 len)"
proof (cases "k < len")
  case True
  let ?d = "pkt_data byte m pkt"
  obtain res t' where t: "write_from_offset_to_txbuf G R m pkt k (c_tx_buf c) (len - k) = Some (res, t')" "tb_wf t'"
      "isl res \<and> t' = c_tx_buf c \<or> res = Inr (len - k) \<and> contents t' = contents (c_tx_buf c) @ ?d k (len - k)"
    using write_to_txbuf_cases [OF wf sz, of m k "len - k"] by fastforce
  have "?d 0 len = ?d 0 k @ ?d k (len - k)" using pkt_data_split [of k len byte m pkt 0] True by simp
  moreover have "take k (?d 0 len) = ?d 0 k \<or> ?d 0 len = []"
    using calculation by (auto simp: pkt_data_def split: option.splits)
  ultimately have d: "?d 0 len = take k (?d 0 len) @ ?d k (len - k)" by auto
  show ?thesis
    using t True out e d take_is_prefix [of k "?d 0 len"]
    by (auto simp: send_rest_def Let_def isl_def)
next
  case False
  then have "take k (pkt_data byte m pkt 0 len) = pkt_data byte m pkt 0 len"
    using k by (auto simp: pkt_data_def split: option.splits)
  then show ?thesis using False out e wf by (simp add: send_rest_def)
qed

lemma send_bytes_cases:
  fixes m :: 'm
  assumes wf: "tb_wf (c_tx_buf c)" and sz: "buf_size pkt < 2 ^ 64"
  defines "d \<equiv> pkt_data byte m pkt 0 (unat (h_len (hdr pkt)))"
  shows "\<exists>r c' k. send_bytes G R w m pkt c = Some (r, c') \<and> tb_wf (c_tx_buf c') \<and>
    c_state c' = c_state c \<and> c_pending_rx c' = c_pending_rx c \<and>
    c_fwd_cnt c' = c_fwd_cnt c + of_nat k \<and> length (out (c_stream c')) = length (out (c_stream c)) + k \<and>
    prefix (out (c_stream c') @ contents (c_tx_buf c')) (out (c_stream c) @ contents (c_tx_buf c) @ d) \<and>
    (isl r \<or> out (c_stream c') @ contents (c_tx_buf c') = out (c_stream c) @ contents (c_tx_buf c) @ d)"
proof (cases "TxBuf_is_empty (c_tx_buf c)")
  case False
  obtain res t' where t: "write_from_offset_to_txbuf G R m pkt 0 (c_tx_buf c) (unat (h_len (hdr pkt))) = Some (res, t')"
      "tb_wf t'" "isl res \<and> t' = c_tx_buf c \<or>
        res = Inr (unat (h_len (hdr pkt))) \<and> contents t' = contents (c_tx_buf c) @ d"
    using write_to_txbuf_cases [OF wf sz, of m 0 "unat (h_len (hdr pkt))"] unfolding d_def by fastforce
  then show ?thesis using False
    by (intro exI [of _ "map_sum id (\<lambda>_. ()) res"] exI [of _ "c\<lparr>c_tx_buf := t'\<rparr>"] exI [of _ 0])
      (auto simp: send_bytes_def Let_def isl_def)
next
  case True
  then have e: "contents (c_tx_buf c) = []" using length_contents [OF wf] by (simp add: TxBuf_is_empty_def)
  define len where "len = unat (h_len (hdr pkt))"
  obtain res s' where r: "write_from_offset_to_stream G R w m pkt 0 (c_stream c) len = (res, s')" by fastforce
  let ?c = "c\<lparr>c_stream := s'\<rparr>"
  have sb: "send_bytes G R w m pkt c = (case res of Inr cnt \<Rightarrow> send_rest G R m pkt len cnt ?c
     | Inl err \<Rightarrow> if err = GuestMemoryMmap (IOError WouldBlock) then send_rest G R m pkt len 0 ?c else Some (Inl err, ?c))"
    using True r by (simp add: send_bytes_def len_def [symmetric] Let_def)
  have rest: ?thesis if "send_bytes G R w m pkt c = send_rest G R m pkt len k ?c" "k \<le> len"
      "out s' = out (c_stream c) @ take k d" "k \<le> length d" for k
    using send_rest_cases [of ?c pkt k len "out (c_stream c)" m] that wf sz e
    by (fastforce simp: d_def len_def)
  have err: ?thesis if "send_bytes G R w m pkt c = Some (Inl x, ?c)" "out s' = out (c_stream c)" for x
    using that wf e by (intro exI [of _ "Inl x"] exI [of _ ?c] exI [of _ 0]) (simp add: isl_def)
  consider (bounds) x where "res = Inl x" "s' = c_stream c" "x = GuestMemoryBounds \<or> x = PktBufMissing"
    | (wrote) x where "w (c_stream c) d = (x, s')" "res = map_sum (GuestMemoryMmap \<circ> IOError) id x"
    using write_to_stream_cases [OF r sz] unfolding d_def len_def by blast
  then show ?thesis
  proof cases
    case bounds
    then show ?thesis using err [of x] sb by auto
  next
    case (wrote x)
    note ww = wrote(1) and res = wrote(2)
    have ld: "length d \<le> len" by (auto simp: d_def len_def pkt_data_def split: option.splits)
    show ?thesis
    proof (cases x)
      case (Inl a)
      then have "out s' = out (c_stream c)" using write_err ww by blast
      then show ?thesis using err [of "GuestMemoryMmap (IOError a)"] rest [of 0] sb res Inl
        by (cases "a = WouldBlock") simp_all
    next
      case (Inr k)
      then have "k \<le> length d" "out s' = out (c_stream c) @ take k d" using write_ok ww by blast+
      then show ?thesis using rest [of k] sb res Inr ld by simp
    qed
  qed
qed

end

section \<open>Runs of a connection\<close>

text \<open>
  \<open>conn_reach G R w rd byte out c acc raw\<close>: the connection \<open>c\<close> is reached from a new one by any
  sequence of operations; \<open>acc\<close> is what its stream should receive: its initial output, the raw
  bytes and the data of the packets the guest sent, in order; \<open>raw\<close> counts those bytes that are
  not packet data. The muxer writes raw bytes only right after the connection was established.
\<close>

inductive conn_reach :: "('m, 'e) gmem \<Rightarrow> ('m, 'r, 'e, 's) guest_regions \<Rightarrow> 's writer \<Rightarrow> 's reader \<Rightarrow>
    ('m \<Rightarrow> nat \<Rightarrow> u8) \<Rightarrow> ('s \<Rightarrow> bytes) \<Rightarrow> 's VsockConnection \<Rightarrow> bytes \<Rightarrow> nat \<Rightarrow> bool"
  for G R w rd byte out where
  peer: "conn_reach G R w rd byte out (new_peer_init s lc pc lp pp ba) (out s) (length (out s))"
| local: "conn_reach G R w rd byte out (new_local_init s lc pc lp pp) (out s) (length (out s))"
| send: "conn_reach G R w rd byte out c acc raw \<Longrightarrow> buf_size pkt < 2 ^ 64 \<Longrightarrow>
    conn_send_pkt G R w now m pkt c = Some (r, c') \<Longrightarrow>
    conn_reach G R w rd byte out c' (acc @ accepted byte m pkt (c_state c)) raw"
| recv: "conn_reach G R w rd byte out c acc raw \<Longrightarrow> buf_size pkt < 2 ^ 64 \<Longrightarrow>
    conn_recv_pkt G R rd now m pkt c = (r, pkt', m', c') \<Longrightarrow>
    conn_reach G R w rd byte out c' acc raw"
| notify: "conn_reach G R w rd byte out c acc raw \<Longrightarrow> conn_notify w evset c = Some c' \<Longrightarrow>
    conn_reach G R w rd byte out c' acc raw"
| killed: "conn_reach G R w rd byte out c acc raw \<Longrightarrow> conn_reach G R w rd byte out (kill c) acc raw"
| raw: "conn_reach G R w rd byte out c acc raw \<Longrightarrow> c_state c = Established \<Longrightarrow> TxBuf_is_empty (c_tx_buf c) \<Longrightarrow>
    send_bytes_raw w buf c = (r, c') \<Longrightarrow> n = (case r of Inl _ \<Rightarrow> 0 | Inr k \<Rightarrow> k) \<Longrightarrow>
    conn_reach G R w rd byte out c' (acc @ take n buf) (raw + n)"

definition conn_inv :: "('s \<Rightarrow> bytes) \<Rightarrow> 's VsockConnection \<Rightarrow> bytes \<Rightarrow> nat \<Rightarrow> bool" where
  "conn_inv out c acc raw \<longleftrightarrow> tb_wf (c_tx_buf c) \<and>
     prefix (out (c_stream c) @ contents (c_tx_buf c)) acc \<and>
     (c_state c \<noteq> Killed \<or> prs_contains Response (c_pending_rx c) \<longrightarrow>
        out (c_stream c) @ contents (c_tx_buf c) = acc) \<and>
     (prs_contains Response (c_pending_rx c) \<longrightarrow> c_state c = PeerInit \<or> c_state c = Killed) \<and>
     raw \<le> length (out (c_stream c)) \<and> c_fwd_cnt c = of_nat (length (out (c_stream c)) - raw)"

text \<open>An operation that only moves bytes from the buffer to the stream.\<close>

definition moves_data :: "('s \<Rightarrow> bytes) \<Rightarrow> 's VsockConnection \<Rightarrow> 's VsockConnection \<Rightarrow> bool" where
  "moves_data out c c' \<longleftrightarrow> tb_wf (c_tx_buf c') \<and>
     out (c_stream c') @ contents (c_tx_buf c') = out (c_stream c) @ contents (c_tx_buf c) \<and>
     (\<exists>k. length (out (c_stream c')) = length (out (c_stream c)) + k \<and> c_fwd_cnt c' = c_fwd_cnt c + of_nat k) \<and>
     (c_state c = Killed \<longrightarrow> c_state c' = Killed \<or> prs_contains Response (c_pending_rx c)) \<and>
     (prs_contains Response (c_pending_rx c') \<longrightarrow> prs_contains Response (c_pending_rx c) \<and>
        (c_state c' = c_state c \<or> c_state c' = Killed))"

lemma conn_inv_moves_data: "conn_inv out c acc raw \<Longrightarrow> moves_data out c c' \<Longrightarrow> conn_inv out c' acc raw"
  unfolding conn_inv_def moves_data_def by (auto simp: of_nat_diff)

lemma conn_invD:
  assumes "conn_inv out c acc raw"
  shows "tb_wf (c_tx_buf c)"
    and "prs_contains Response (c_pending_rx c) \<longrightarrow> c_state c = PeerInit \<or> c_state c = Killed"
  using assms by (auto simp: conn_inv_def)

lemma moves_data_same:
  assumes "tb_wf (c_tx_buf c)" "c_stream c' = c_stream c" "c_tx_buf c' = c_tx_buf c" "c_fwd_cnt c' = c_fwd_cnt c"
    "prs_contains Response (c_pending_rx c') \<Longrightarrow> prs_contains Response (c_pending_rx c)"
    "c_state c' = c_state c \<or> c_state c' = Killed \<or> c_state c \<noteq> Killed \<and> \<not> prs_contains Response (c_pending_rx c')"
  shows "moves_data out c c'"
  using assms by (auto simp: moves_data_def intro: exI [of _ 0])

context vsock_env
begin

lemma conn_send_pkt_cases:
  assumes wf: "tb_wf (c_tx_buf c)" and sz: "buf_size pkt < 2 ^ 64"
    and resp: "prs_contains Response (c_pending_rx c) \<longrightarrow> c_state c = PeerInit \<or> c_state c = Killed"
  shows "\<exists>c'. conn_send_pkt G R w now m pkt c = Some (Inr (), c') \<and>
    (moves_data out c c' \<and> accepted byte m pkt (c_state c) = [] \<or>
     sends_data (c_state c) \<and> \<not> prs_contains Response (c_pending_rx c') \<and> tb_wf (c_tx_buf c') \<and>
     (\<exists>k. length (out (c_stream c')) = length (out (c_stream c)) + k \<and> c_fwd_cnt c' = c_fwd_cnt c + of_nat k) \<and>
     prefix (out (c_stream c') @ contents (c_tx_buf c'))
       (out (c_stream c) @ contents (c_tx_buf c) @ accepted byte m pkt (c_state c)) \<and>
     (c_state c' \<noteq> Killed \<longrightarrow> out (c_stream c') @ contents (c_tx_buf c') =
        out (c_stream c) @ contents (c_tx_buf c) @ accepted byte m pkt (c_state c)))"
proof (cases "sends_data (c_state c) \<and> h_op (hdr pkt) = VSOCK_OP_RW")
  case True
  let ?c = "c\<lparr>c_peer_buf_alloc := h_buf_alloc (hdr pkt), c_peer_fwd_cnt := h_fwd_cnt (hdr pkt)\<rparr>"
  have np: "\<not> prs_contains Response (c_pending_rx c)"
    using True resp by (auto simp: sends_data_def)
  show ?thesis
  proof (cases "buf_size pkt = 0")
    case True2: True
    then have "conn_send_pkt G R w now m pkt c = Some (Inr (), ?c)"
      using True by (simp add: conn_send_pkt_def sends_data_def)
    moreover have "moves_data out c ?c" using wf by (auto intro!: moves_data_same)
    ultimately show ?thesis using True2 by (simp add: accepted_def)
  next
    case False
    obtain r c' k where sb: "send_bytes G R w m pkt ?c = Some (r, c')" "tb_wf (c_tx_buf c')"
        "c_pending_rx c' = c_pending_rx c" "c_state c' = c_state c"
        "c_fwd_cnt c' = c_fwd_cnt c + of_nat k" "length (out (c_stream c')) = length (out (c_stream c)) + k"
        "prefix (out (c_stream c') @ contents (c_tx_buf c'))
           (out (c_stream c) @ contents (c_tx_buf c) @ accepted byte m pkt (c_state c))"
        "isl r \<or> out (c_stream c') @ contents (c_tx_buf c') =
           out (c_stream c) @ contents (c_tx_buf c) @ accepted byte m pkt (c_state c)"
      using send_bytes_cases [of ?c pkt m] wf sz True False by (auto simp: accepted_def)
    have "conn_send_pkt G R w now m pkt c =
        Some (Inr (), case r of Inl _ \<Rightarrow> kill c'
          | Inr _ \<Rightarrow> if peer_needs_credit_update c' then insert_pending CreditUpdate c' else c')"
      using True False sb(1) by (cases r) (simp_all add: conn_send_pkt_def sends_data_def)
    then show ?thesis using sb True np by (cases r) auto
  qed
next
  case False
  then have a: "accepted byte m pkt (c_state c) = []" by (auto simp: accepted_def)
  have "\<exists>c'. conn_send_pkt G R w now m pkt c = Some (Inr (), c') \<and> c_stream c' = c_stream c \<and>
    c_tx_buf c' = c_tx_buf c \<and> c_fwd_cnt c' = c_fwd_cnt c \<and>
    (prs_contains Response (c_pending_rx c') \<longrightarrow> prs_contains Response (c_pending_rx c)) \<and>
    (c_state c' = c_state c \<or> c_state c \<noteq> Killed \<and> c_state c \<noteq> PeerInit)"
    using False by (cases "c_state c") (auto simp: conn_send_pkt_def sends_data_def Let_def)
  then obtain c' where c': "conn_send_pkt G R w now m pkt c = Some (Inr (), c')" "c_stream c' = c_stream c"
    "c_tx_buf c' = c_tx_buf c" "c_fwd_cnt c' = c_fwd_cnt c"
    "prs_contains Response (c_pending_rx c') \<longrightarrow> prs_contains Response (c_pending_rx c)"
    "c_state c' = c_state c \<or> c_state c \<noteq> Killed \<and> c_state c \<noteq> PeerInit" by blast
  then have "moves_data out c c'" using wf resp by (intro moves_data_same) auto
  then show ?thesis using c' a by blast
qed

lemma read_cases:
  assumes "read_at_offset_from G R rd m pkt off s n = (res, m', s')" "buf_size pkt < 2 ^ 64"
  obtains (bounds) e where "res = Inl e" "m' = m" "s' = s" "e = GuestMemoryBounds \<or> e = PktBufMissing"
  | (err) e where "rd s n = (Inl e, s')" "m' = m" "res = Inl (GuestMemoryMmap (IOError e))"
  | (ok) a bs where "rd s n = (Inr bs, s')" "res = Inr (length bs)" "length bs \<le> n" "buf_addr pkt = Some a"
      "off + n \<le> buf_size pkt" "in_rng m' = in_rng m" "byte m' = upd_bytes (byte m) (unat a + off) bs"
proof (cases "buf_region_addr G R m pkt off n")
  case (Inl e)
  moreover have "e = GuestMemoryBounds \<or> e = PktBufMissing"
    using Inl by (auto simp: buf_region_addr_def split: if_split_asm option.split_asm)
  ultimately show ?thesis using assms bounds by (auto simp: read_at_offset_from_def)
next
  case (Inr x)
  obtain r ra where x: "x = (r, ra)" by fastforce
  show ?thesis
    using Inr [unfolded x] assms(2)
  proof (rule buf_region_addr_Inr)
    fix a k c
    assume a: "buf_addr pkt = Some a" "n = Suc k" "off + n \<le> buf_size pkt"
      "gr_to_region_addr R m (a + of_nat off) = Some (r, ra)" "gr_checked_offset R m r ra k = Some c"
      "unat (a + of_nat off) = unat a + off"
    obtain y s1 where y: "rd s (Suc k) = (y, s1)" by fastforce
    show ?thesis
    proof (cases y)
      case (Inl e)
      then show ?thesis
        using err [of e] region_read_err [OF a(4,5), of rd s e s1] y assms(1) Inr x a(2)
        by (simp add: read_at_offset_from_def)
    next
      case (Inr bs)
      have l: "length bs \<le> Suc k" using read_len y Inr by simp
      obtain m1 where "gr_read_from R m r ra rd s (Suc k) = (Inr (length bs), m1, s1)"
          "in_rng m1 = in_rng m" "byte m1 = upd_bytes (byte m) (unat a + off) bs"
        using region_read_ok [OF a(4,5), of rd s bs s1] y Inr l a(6) by auto
      then show ?thesis
        using ok [of bs a] y Inr l a assms(1) \<open>buf_region_addr G R m pkt off n = Inr x\<close> x
        by (simp add: read_at_offset_from_def)
    qed
  qed
qed

lemma recv_rw_moves:
  assumes "recv_rw G R rd now m pkt c = (b, pkt', m', c')" "buf_size pkt < 2 ^ 64"
  shows "out (c_stream c') = out (c_stream c) \<and> c_tx_buf c' = c_tx_buf c \<and> c_fwd_cnt c' = c_fwd_cnt c \<and>
    c_pending_rx c' = c_pending_rx c \<and>
    (c_state c' = c_state c \<or> c_state c \<noteq> Killed \<and> c_state c \<noteq> PeerInit)"
proof -
  obtain res m1 s1 where r: "read_at_offset_from G R rd m pkt 0 (c_stream c)
      (min (buf_size pkt) (peer_avail_credit c)) = (res, m1, s1)"
    by (cases "read_at_offset_from G R rd m pkt 0 (c_stream c) (min (buf_size pkt) (peer_avail_credit c))")
      auto
  have "out s1 = out (c_stream c)"
    using r assms(2) by (rule read_cases) (auto dest: read_out)
  then show ?thesis
    using assms(1) r
    by (cases "c_state c"; cases res) (auto simp: recv_rw_def Let_def split: if_split_asm)
qed

lemma conn_recv_pkt_moves:
  assumes r: "conn_recv_pkt G R rd now m pkt c = (r, pkt', m', c')" and wf: "tb_wf (c_tx_buf c)"
    and sz: "buf_size pkt < 2 ^ 64"
    and resp: "prs_contains Response (c_pending_rx c) \<longrightarrow> c_state c = PeerInit \<or> c_state c = Killed"
  shows "moves_data out c c'"
proof -
  have sz: "buf_size (init_pkt c pkt) < 2 ^ 64" using sz by (simp add: init_pkt_def pkt_set_defs)
  from r show ?thesis
  proof (cases rule: conn_recv_pkt_split)
    case rst
    then show ?thesis using wf by (auto simp: take_pending_eq intro!: moves_data_same)
  next
    case response
    then show ?thesis using wf resp by (auto simp: take_pending_eq moves_data_def intro: exI [of _ 0])
  next
    case request
    then show ?thesis using wf by (auto simp: take_pending_eq intro!: moves_data_same)
  next
    case (data p b q c7)
    have c7: "out (c_stream c7) = out (c_stream c) \<and> c_tx_buf c7 = c_tx_buf c \<and> c_fwd_cnt c7 = c_fwd_cnt c \<and>
        \<not> prs_contains Response (c_pending_rx c7) \<and> (c_state c = Killed \<longrightarrow> c_state c7 = Killed)"
    proof (cases "prs_contains Rw (c_pending_rx c)")
      case True
      then have rw: "recv_rw G R rd now m (init_pkt c pkt) (c\<lparr> c_pending_rx := p \<rparr>) = (b, q, m', c7)"
        using data(6) by simp
      show ?thesis using recv_rw_moves [OF rw sz] data(4) [of Response] by auto
    next
      case False
      then have "c7 = c\<lparr> c_pending_rx := p \<rparr>" using data(6) by simp
      then show ?thesis using data(4) [of Response] by simp
    qed
    from data(7) show ?thesis
      using wf c7 by (elim disjE conjE) (auto simp: take_pending_eq moves_data_def intro: exI [of _ 0])
  qed
qed

lemma conn_notify_moves:
  assumes "tb_wf (c_tx_buf c)"
  shows "\<exists>c'. conn_notify w evset c = Some c' \<and> moves_data out c c'"
proof -
  define c0 where "c0 = (if es_contains evset EventSet_IN then insert_pending Rw c else c)"
  have c0: "c_stream c0 = c_stream c" "c_tx_buf c0 = c_tx_buf c" "c_fwd_cnt c0 = c_fwd_cnt c" "c_state c0 = c_state c"
    "prs_contains Response (c_pending_rx c0) = prs_contains Response (c_pending_rx c)"
    by (auto simp: c0_def)
  show ?thesis
  proof (cases "es_contains evset EventSet_OUT \<and> \<not> TxBuf_is_empty (c_tx_buf c0)")
    case False
    then have "conn_notify w evset c = Some c0" by (auto simp: conn_notify_def c0_def Let_def)
    then show ?thesis using c0 assms by (auto intro!: moves_data_same)
  next
    case True
    obtain res t s where f: "TxBuf_flush_to w (c_tx_buf c0) (c_stream c0) = Some (res, t, s)"
        "flushed out (c_tx_buf c0) (c_stream c0) res t s"
      using flush_to_ok assms c0 by metis
    show ?thesis
    proof (cases res)
      case (Inl e)
      then show ?thesis
        using True f c0
        by (cases "e = TxBufFlush WouldBlock")
          (auto simp: conn_notify_def c0_def [symmetric] flushed_def moves_data_def Let_def intro: exI [of _ 0])
    next
      case (Inr n)
      have "length (out s) = length (out (c_stream c)) + n" "out s @ contents t = out (c_stream c) @ contents (c_tx_buf c)"
        "tb_wf t"
        using f(2) c0 Inr by (auto simp: flushed_def)
      then show ?thesis
        using True f(1) c0 Inr
        by (auto simp: conn_notify_def c0_def [symmetric] moves_data_def Let_def)
    qed
  qed
qed

lemma send_bytes_raw_inv:
  assumes "conn_inv out c acc raw" "c_state c = Established" "TxBuf_is_empty (c_tx_buf c)"
    "send_bytes_raw w buf c = (r, c')" "n = (case r of Inl _ \<Rightarrow> 0 | Inr k \<Rightarrow> k)"
  shows "conn_inv out c' (acc @ take n buf) (raw + n)"
proof -
  obtain x s where x: "w (c_stream c) buf = (x, s)" by fastforce
  have e: "contents (c_tx_buf c) = []"
    using assms(1,3) length_contents by (fastforce simp: conn_inv_def TxBuf_is_empty_def)
  show ?thesis
  proof (cases x)
    case (Inl e)
    then show ?thesis using assms x write_err [of "c_stream c" buf] by (auto simp: send_bytes_raw_def conn_inv_def)
  next
    case (Inr k)
    then show ?thesis using assms x e write_ok [of "c_stream c" buf k s]
      by (auto simp: send_bytes_raw_def conn_inv_def)
  qed
qed

lemma conn_reach_inv:
  "conn_reach G R w rd byte out c acc raw \<Longrightarrow> conn_inv out c acc raw"
proof (induction rule: conn_reach.induct)
  case (send c acc raw pkt now m r c')
  then obtain c'' where "conn_send_pkt G R w now m pkt c = Some (Inr (), c'')" and
    d: "moves_data out c c'' \<and> accepted byte m pkt (c_state c) = [] \<or>
     sends_data (c_state c) \<and> \<not> prs_contains Response (c_pending_rx c'') \<and> tb_wf (c_tx_buf c'') \<and>
     (\<exists>k. length (out (c_stream c'')) = length (out (c_stream c)) + k \<and> c_fwd_cnt c'' = c_fwd_cnt c + of_nat k) \<and>
     prefix (out (c_stream c'') @ contents (c_tx_buf c''))
       (out (c_stream c) @ contents (c_tx_buf c) @ accepted byte m pkt (c_state c)) \<and>
     (c_state c'' \<noteq> Killed \<longrightarrow> out (c_stream c'') @ contents (c_tx_buf c'') =
        out (c_stream c) @ contents (c_tx_buf c) @ accepted byte m pkt (c_state c))"
    using conn_send_pkt_cases [of c pkt now m] conn_invD [OF send.IH] by blast
  then have c'': "c' = c''" using send.hyps by simp
  from d show ?case
  proof
    assume "moves_data out c c'' \<and> accepted byte m pkt (c_state c) = []"
    then show ?case using conn_inv_moves_data send.IH c'' by fastforce
  next
    assume s: "sends_data (c_state c) \<and> \<not> prs_contains Response (c_pending_rx c'') \<and> tb_wf (c_tx_buf c'') \<and>
     (\<exists>k. length (out (c_stream c'')) = length (out (c_stream c)) + k \<and> c_fwd_cnt c'' = c_fwd_cnt c + of_nat k) \<and>
     prefix (out (c_stream c'') @ contents (c_tx_buf c''))
       (out (c_stream c) @ contents (c_tx_buf c) @ accepted byte m pkt (c_state c)) \<and>
     (c_state c'' \<noteq> Killed \<longrightarrow> out (c_stream c'') @ contents (c_tx_buf c'') =
        out (c_stream c) @ contents (c_tx_buf c) @ accepted byte m pkt (c_state c))"
    then have "c_state c \<noteq> Killed" by (auto simp: sends_data_def)
    then have "acc = out (c_stream c) @ contents (c_tx_buf c)" "raw \<le> length (out (c_stream c))"
        "c_fwd_cnt c = of_nat (length (out (c_stream c)) - raw)"
      using send.IH by (auto simp: conn_inv_def)
    then show ?case using s c'' by (auto simp: conn_inv_def of_nat_diff)
  qed
next
  case (recv c acc raw pkt now m r pkt' m' c')
  then show ?case
    using conn_inv_moves_data [OF recv.IH conn_recv_pkt_moves] conn_invD [OF recv.IH] by simp
next
  case (notify c acc raw evset c')
  then show ?case
    using conn_notify_moves [of c evset] conn_inv_moves_data [OF notify.IH, of c'] conn_invD [OF notify.IH] by simp
next
  case (raw c acc raw buf r c' n)
  then show ?case by (blast intro: send_bytes_raw_inv)
qed (auto simp: conn_inv_def new_peer_init_def new_local_init_def)

text \<open>What the data branch of \<^verbatim>\<open>recv_pkt\<close> does when it produces a data packet.\<close>

lemma recv_rw_data:
  assumes "recv_rw G R rd now m pkt c = (True, pkt', m', c')" "buf_size pkt < 2 ^ 64"
    and op: "h_op (hdr pkt') = VSOCK_OP_RW"
  obtains a bs where "rd (c_stream c) (min (buf_size pkt) (peer_avail_credit c)) = (Inr bs, c_stream c')"
    "bs \<noteq> []" "length bs \<le> buf_size pkt" "length bs \<le> peer_avail_credit c" "buf_addr pkt = Some a"
    "byte m' = upd_bytes (byte m) (unat a) bs" "h_len (hdr pkt') = of_nat (length bs)"
    "c_rx_cnt c' = c_rx_cnt c + of_nat (length bs)" "c_peer_buf_alloc c' = c_peer_buf_alloc c"
    "c_peer_fwd_cnt c' = c_peer_fwd_cnt c"
proof -
  obtain res m1 s1 where r: "read_at_offset_from G R rd m pkt 0 (c_stream c)
      (min (buf_size pkt) (peer_avail_credit c)) = (res, m1, s1)"
    by (cases "read_at_offset_from G R rd m pkt 0 (c_stream c) (min (buf_size pkt) (peer_avail_credit c))")
      auto
  have c: "\<exists>n. res = Inr n \<and> n \<noteq> 0 \<and> m' = m1 \<and> c_stream c' = s1 \<and> h_len (hdr pkt') = of_nat n \<and>
      c_rx_cnt c' = c_rx_cnt c + of_nat n \<and> c_peer_buf_alloc c' = c_peer_buf_alloc c \<and>
      c_peer_fwd_cnt c' = c_peer_fwd_cnt c"
    using assms(1) r op
    by (cases res) (auto simp: recv_rw_def Let_def pkt_set_defs vsock_op_defs split: if_split_asm)
  from r assms(2) show ?thesis
  proof (cases rule: read_cases)
    case (ok a bs)
    then show ?thesis using that [of bs a] c by auto
  qed (use c in auto)
qed

lemma take_pending_simps:
  "c_stream (snd (take_pending it c)) = c_stream c" "c_rx_cnt (snd (take_pending it c)) = c_rx_cnt c"
  "c_peer_buf_alloc (snd (take_pending it c)) = c_peer_buf_alloc c"
  "c_peer_fwd_cnt (snd (take_pending it c)) = c_peer_fwd_cnt c"
  "c_tx_buf (snd (take_pending it c)) = c_tx_buf c" "c_fwd_cnt (snd (take_pending it c)) = c_fwd_cnt c"
  "c_state (snd (take_pending it c)) = c_state c" "fst (take_pending it c) = prs_contains it (c_pending_rx c)"
  by (simp_all add: take_pending_eq)

lemma conn_recv_pkt_RW:
  assumes "conn_recv_pkt G R rd now m pkt c = (Inr (), pkt', m', c')" "h_op (hdr pkt') = VSOCK_OP_RW"
  obtains c4 where "recv_rw G R rd now m (init_pkt c pkt) c4 = (True, pkt', m', c')"
    "c_stream c4 = c_stream c" "peer_avail_credit c4 = peer_avail_credit c" "c_rx_cnt c4 = c_rx_cnt c"
    "c_peer_buf_alloc c4 = c_peer_buf_alloc c" "c_peer_fwd_cnt c4 = c_peer_fwd_cnt c"
proof -
  let ?c4 = "snd (take_pending Rw (snd (take_pending Request (snd (take_pending Response (snd (take_pending Rst c)))))))"
  have "recv_rw G R rd now m (init_pkt c pkt) ?c4 = (True, pkt', m', c')"
    using assms
    by (cases "recv_rw G R rd now m (init_pkt c pkt) ?c4")
      (auto simp: conn_recv_pkt_def take_pending_eq Let_def pkt_set_defs vsock_op_defs split: if_split_asm)
  then show ?thesis using that [of ?c4] by (simp add: take_pending_simps peer_avail_credit_def)
qed

lemma conn_recv_credit:
  assumes "buf_size pkt < 2 ^ 64"
    and "conn_recv_pkt G R rd now m pkt c = (Inr (), pkt', m', c')" "h_op (hdr pkt') = VSOCK_OP_RW"
  shows "\<exists>a bs. rd (c_stream c) (min (buf_size pkt) (peer_avail_credit c)) = (Inr bs, c_stream c') \<and>
    bs \<noteq> [] \<and> length bs = unat (h_len (hdr pkt')) \<and> length bs \<le> buf_size pkt \<and>
    length bs \<le> peer_avail_credit c \<and> peer_avail_credit c' = peer_avail_credit c - length bs \<and>
    buf_addr pkt = Some a \<and> byte m' = upd_bytes (byte m) (unat a) bs"
proof -
  have i: "buf_size (init_pkt c pkt) = buf_size pkt" "buf_addr (init_pkt c pkt) = buf_addr pkt"
    by (simp_all add: init_pkt_def pkt_set_defs)
  obtain c4 where c4: "recv_rw G R rd now m (init_pkt c pkt) c4 = (True, pkt', m', c')"
      "c_stream c4 = c_stream c" "peer_avail_credit c4 = peer_avail_credit c" "c_rx_cnt c4 = c_rx_cnt c"
      "c_peer_buf_alloc c4 = c_peer_buf_alloc c" "c_peer_fwd_cnt c4 = c_peer_fwd_cnt c"
    using conn_recv_pkt_RW [OF assms(2,3)] .
  obtain a bs where d: "rd (c_stream c) (min (buf_size pkt) (peer_avail_credit c)) = (Inr bs, c_stream c')"
      "bs \<noteq> []" "length bs \<le> buf_size pkt" "length bs \<le> peer_avail_credit c" "buf_addr pkt = Some a"
      "byte m' = upd_bytes (byte m) (unat a) bs" "h_len (hdr pkt') = of_nat (length bs)"
      "c_rx_cnt c' = c_rx_cnt c + of_nat (length bs)" "c_peer_buf_alloc c' = c_peer_buf_alloc c"
      "c_peer_fwd_cnt c' = c_peer_fwd_cnt c"
    using recv_rw_data [OF c4(1) _ assms(3), unfolded i c4] assms(1) by metis
  have "peer_avail_credit c < 2 ^ 32"
    unfolding peer_avail_credit_def by (rule less_le_trans [OF unsigned_less]) simp
  then have l: "unat (h_len (hdr pkt')) = length bs" using d(4,7) by simp
  have "peer_avail_credit c' =
      unat (c_peer_buf_alloc c - ((c_rx_cnt c - c_peer_fwd_cnt c) + of_nat (length bs)))"
    using d by (simp add: peer_avail_credit_def algebra_simps)
  also have "\<dots> = peer_avail_credit c - length bs"
    using d(4) unfolding peer_avail_credit_def by (rule unat_diff_sub)
  finally show ?thesis using d l by auto
qed

text \<open>Within the advertised credit, and with no fatal stream error, a packet is forwarded entirely.\<close>

lemma send_bytes_within_credit:
  assumes wf: "tb_wf (c_tx_buf c)" and sz: "buf_size pkt < 2 ^ 64"
    and len: "len = unat (h_len (hdr pkt))"
    and reg: "\<And>off. off < len \<Longrightarrow> \<exists>ra. buf_region_addr G R m pkt off (len - off) = Inr ra"
    and room: "length (contents (c_tx_buf c)) + len \<le> 65536" and "0 < len"
    and blk: "\<And>e s. w (c_stream c) (pkt_data byte m pkt 0 len) = (Inl e, s) \<Longrightarrow> e = WouldBlock"
  shows "\<exists>c'. send_bytes G R w m pkt c = Some (Inr (), c')"
proof -
  have push: "\<exists>n t'. write_from_offset_to_txbuf G R m pkt off (c_tx_buf c) (len - off) = Some (Inr n, t')"
    if "off < len" for off
    using write_to_txbuf_cases [OF wf sz, of m off "len - off"] reg [OF that] room
    by (auto simp: TxBuf_SIZE_val)
  have rest: "\<exists>c'. send_rest G R m pkt len k (c\<lparr>c_stream := s\<rparr>) = Some (Inr (), c')" for k s
    using push [of k] by (cases "k < len") (auto simp: send_rest_def Let_def)
  show ?thesis
  proof (cases "TxBuf_is_empty (c_tx_buf c)")
    case False
    then show ?thesis using push [of 0] \<open>0 < len\<close> by (auto simp: send_bytes_def len [symmetric])
  next
    case True
    obtain res s where r: "write_from_offset_to_stream G R w m pkt 0 (c_stream c) len = (res, s)" by fastforce
    have "\<not> (\<exists>e. res = Inl e \<and> e \<noteq> GuestMemoryMmap (IOError WouldBlock))"
    proof -
      obtain ra where "buf_region_addr G R m pkt 0 len = Inr ra" using reg [of 0] \<open>0 < len\<close> by auto
      then obtain k c0 a r0 r1 where ra: "ra = (r0, r1)" "buf_addr pkt = Some a" "len = Suc k"
          "gr_to_region_addr R m (a + of_nat 0) = Some (r0, r1)" "gr_checked_offset R m r0 r1 k = Some c0"
        by (cases ra) (auto elim!: buf_region_addr_Inr [OF _ sz])
      have "gr_write_to_stream R m r0 r1 w (c_stream c) len =
          map_prod (map_sum IOError id) id (w (c_stream c) (pkt_data byte m pkt 0 len))"
        using region_write_stream [OF ra(4,5), of w "c_stream c"] ra by (simp add: pkt_data_def)
      then show ?thesis
        using r blk ra \<open>buf_region_addr G R m pkt 0 len = Inr ra\<close>
        by (cases "w (c_stream c) (pkt_data byte m pkt 0 len)";
            cases "fst (w (c_stream c) (pkt_data byte m pkt 0 len))")
          (auto simp: write_from_offset_to_stream_def)
    qed
    then show ?thesis
      using True r rest by (cases res) (auto simp: send_bytes_def len [symmetric] Let_def)
  qed
qed

end

section \<open>Killed connections\<close>

lemma send_rest_state: "send_rest G R m pkt len k c = Some (r, c') \<Longrightarrow> c_state c' = c_state c"
  by (auto simp: send_rest_def Let_def elim!: bindE split: if_split_asm)

lemma send_bytes_state: "send_bytes G R w m pkt c = Some (r, c') \<Longrightarrow> c_state c' = c_state c"
  by (auto simp: send_bytes_def Let_def elim!: bindE split: if_split_asm sum.split_asm prod.split_asm
      dest!: send_rest_state)

lemma send_pkt_killed:
  assumes "conn_send_pkt G R w now m pkt c = Some (r, c')" "c_state c \<noteq> Killed" "c_state c' = Killed"
  shows "prs_contains Rst (c_pending_rx c')"
  using assms
  by (cases "c_state c")
    (auto simp: conn_send_pkt_def Let_def elim!: bindE split: if_split_asm sum.split_asm dest!: send_bytes_state)

lemma conn_notify_killed:
  assumes "conn_notify w evset c = Some c'" "c_state c \<noteq> Killed" "c_state c' = Killed"
  shows "prs_contains Rst (c_pending_rx c')"
  using assms
  by (auto simp: conn_notify_def Let_def elim!: bindE split: if_split_asm sum.split_asm)

section \<open>Reference environment\<close>

definition ref_read :: "ref_stream reader" where
  "ref_read s n = (Inr (take n (rs_in s)), s\<lparr>rs_in := drop n (rs_in s)\<rparr>)"

interpretation refv: vsock_env vs_gm ref_in rm_bytes ref_regions ref_write rs_out ref_read
  by unfold_locales (auto simp: ref_read_def)

section \<open>Properties\<close>

text \<open>
  C24. No byte of a connection is lost, duplicated or reordered. After any sequence of guest
  packets, fetched packets, stream events and kills, the host stream's output followed by the
  transmit buffer is a prefix of what was accepted for the stream, and all of it unless the
  connection was killed; the forwarded-bytes counter that is advertised to the guest is the
  number of packet bytes written to the stream, modulo \<open>2 ^ 32\<close>; the buffer holds at most 64
  KiB; and no operation panics.
\<close>

theorem conn_stream_integrity:
  assumes "vsock_env G in_rng byte R w out rd" "conn_reach G R w rd byte out c acc raw"
  shows "prefix (out (c_stream c) @ contents (c_tx_buf c)) acc \<and>
    (c_state c \<noteq> Killed \<longrightarrow> out (c_stream c) @ contents (c_tx_buf c) = acc) \<and>
    c_fwd_cnt c = of_nat (length (out (c_stream c)) - raw) \<and> length (contents (c_tx_buf c)) \<le> 65536 \<and>
    (\<forall>now m pkt. buf_size pkt < 2 ^ 64 \<longrightarrow> (\<exists>c'. conn_send_pkt G R w now m pkt c = Some (Inr (), c'))) \<and>
    (\<forall>evset. \<exists>c'. conn_notify w evset c = Some c')"
proof -
  note inv = vsock_env.conn_reach_inv [OF assms]
  have "length (contents (c_tx_buf c)) \<le> 65536"
    using conn_invD(1) [OF inv] length_contents by (simp add: tb_wf_def TxBuf_SIZE_val)
  moreover have "\<exists>c'. conn_send_pkt G R w now m pkt c = Some (Inr (), c')" if "buf_size pkt < 2 ^ 64" for now m pkt
    using vsock_env.conn_send_pkt_cases [OF assms(1) conn_invD(1) [OF inv] that conn_invD(2) [OF inv]] by blast
  moreover have "\<exists>c'. conn_notify w evset c = Some c'" for evset
    using vsock_env.conn_notify_moves [OF assms(1) conn_invD(1) [OF inv]] by blast
  ultimately show ?thesis using inv unfolding conn_inv_def by blast
qed

lemma vs_mem_ranges [simp]: "rm_ranges (vs_mem wr) = [(0, 4096)]"
  by (simp add: vs_mem_def)

definition vs_stream :: ref_stream where
  "vs_stream = \<lparr> rs_out = [], rs_cap = 3, rs_err = None, rs_in = [8, 9] \<rparr>"

definition vs_conn :: "ref_stream VsockConnection" where
  "vs_conn = (new_peer_init vs_stream 2 3 52 1024 65536)
     \<lparr> c_state := Established, c_pending_rx := snd (prs_remove Response (prs_from Response)) \<rparr>"

lemma vs_conn_reach: "conn_reach vs_gm vs_regs ref_write ref_read rm_bytes rs_out vs_conn [] 0"
proof -
  have r: "conn_reach vs_gm vs_regs ref_write ref_read rm_bytes rs_out
      (new_peer_init vs_stream 2 3 52 1024 65536) [] 0"
    using conn_reach.peer [of vs_gm vs_regs ref_write ref_read rm_bytes rs_out vs_stream]
    by (simp add: vs_stream_def)
  have "conn_recv_pkt vs_gm vs_regs ref_read 0 (vs_mem 2) (vs_pkt vs_hdr)
      (new_peer_init vs_stream 2 3 52 1024 65536) =
      (Inr (), set_op VSOCK_OP_RESPONSE (init_pkt (new_peer_init vs_stream 2 3 52 1024 65536) (vs_pkt vs_hdr)),
        vs_mem 2, vs_conn)"
    by (simp add: conn_recv_pkt_def take_pending_eq new_peer_init_def vs_conn_def prs_remove_def prs_from_def
        prs_contains_def into_mask_def)
  then show ?thesis by (rule conn_reach.recv [OF r, rotated]) (simp add: vs_pkt_def)
qed

theorem conn_stream_integrity_witness:
  "\<exists>c'. conn_send_pkt vs_gm vs_regs ref_write 0 (vs_mem 0) (vs_pkt vs_hdr) vs_conn = Some (Inr (), c') \<and>
     prefix (rs_out (c_stream c') @ contents (c_tx_buf c')) [7, 7, 7, 7] \<and>
     length (contents (c_tx_buf c')) \<le> 65536"
proof -
  have "accepted rm_bytes (vs_mem 0) (vs_pkt vs_hdr) Established = [7, 7, 7, 7]"
    by (simp add: accepted_def sends_data_def vs_pkt_def vs_hdr_def VSOCK_OP_RW_def pkt_data_def bytes_at_def
        vs_mem_def upd_bytes_def upt_rec)
  moreover have "c_state vs_conn = Established" by (simp add: vs_conn_def)
  moreover have "buf_size (vs_pkt vs_hdr) < 2 ^ 64" by (simp add: vs_pkt_def)
  then obtain c' where s: "conn_send_pkt vs_gm vs_regs ref_write 0 (vs_mem 0) (vs_pkt vs_hdr) vs_conn = Some (Inr (), c')"
    using conn_stream_integrity [OF refv.vsock_env_axioms vs_conn_reach] by blast
  ultimately have "conn_reach vs_gm vs_regs ref_write ref_read rm_bytes rs_out c' [7, 7, 7, 7] 0"
    using conn_reach.send [OF vs_conn_reach _ s] by (simp add: vs_pkt_def)
  then show ?thesis using conn_stream_integrity [OF refv.vsock_env_axioms] s by blast
qed

text \<open>
  C25. The device never overruns the guest's receive buffer. When \<open>recv_pkt\<close> produces a data
  packet, its payload is exactly what was read from the host stream, stored at the start of the
  guest's buffer; it is not empty, fits the buffer and the credit the guest advertised; and the
  remaining credit decreases by its length.
\<close>

theorem conn_recv_respects_credit:
  assumes "vsock_env G in_rng byte R w out rd" "buf_size pkt < 2 ^ 64"
    and "conn_recv_pkt G R rd now m pkt c = (Inr (), pkt', m', c')" "h_op (hdr pkt') = VSOCK_OP_RW"
  shows "\<exists>a bs. rd (c_stream c) (min (buf_size pkt) (peer_avail_credit c)) = (Inr bs, c_stream c') \<and>
    bs \<noteq> [] \<and> length bs = unat (h_len (hdr pkt')) \<and> length bs \<le> buf_size pkt \<and>
    length bs \<le> peer_avail_credit c \<and> peer_avail_credit c' = peer_avail_credit c - length bs \<and>
    buf_addr pkt = Some a \<and> byte m' = upd_bytes (byte m) (unat a) bs"
  using vsock_env.conn_recv_credit [OF assms] .

theorem conn_recv_respects_credit_witness:
  "\<exists>pkt' m' c'. conn_recv_pkt vs_gm vs_regs ref_read 0 (vs_mem 2) (vs_pkt VsockPacketHeader_default)
       (insert_pending Rw vs_conn) = (Inr (), pkt', m', c') \<and> h_op (hdr pkt') = VSOCK_OP_RW \<and>
     unat (h_len (hdr pkt')) \<le> 64"
proof -
  let ?r = "conn_recv_pkt vs_gm vs_regs ref_read 0 (vs_mem 2) (vs_pkt VsockPacketHeader_default)
       (insert_pending Rw vs_conn)"
  have "fst ?r = Inr () \<and> h_op (hdr (fst (snd ?r))) = VSOCK_OP_RW"
    by (simp add: conn_recv_pkt_def take_pending_eq insert_pending_def recv_rw_def vs_conn_def new_peer_init_def
        need_credit_update_from_peer_def peer_avail_credit_def read_at_offset_from_def buf_region_addr_def
        init_pkt_def pkt_set_defs vs_pkt_def ref_gm_err_simps ref_regions_def ref_read_def vs_stream_def add_c_def
        Let_def vs_mem_ranges)
  then obtain pkt' m' c' where "?r = (Inr (), pkt', m', c')" "h_op (hdr pkt') = VSOCK_OP_RW"
    by (cases ?r) auto
  then show ?thesis
    using conn_recv_respects_credit [OF refv.vsock_env_axioms, of "vs_pkt VsockPacketHeader_default" 0 "vs_mem 2"
        "insert_pending Rw vs_conn" pkt' m' c'] by (auto simp: vs_pkt_def)
qed

text \<open>
  C26. A guest that honours the advertised credit keeps its connection. If the data of a packet
  lies in one memory region and does not exceed 64 KiB beyond the bytes already forwarded, and
  the stream either takes bytes or would block, then the packet is accepted completely: the
  connection stays in its state and the data is in the stream or in the buffer, after all
  earlier data.
\<close>

theorem conn_within_credit:
  assumes "vsock_env G in_rng byte R w out rd" "conn_reach G R w rd byte out c acc raw"
    and "sends_data (c_state c)" "h_op (hdr pkt) = VSOCK_OP_RW" "buf_size pkt < 2 ^ 64" "h_len (hdr pkt) \<noteq> 0"
    and "\<And>off. off < unat (h_len (hdr pkt)) \<Longrightarrow>
      \<exists>ra. buf_region_addr G R m pkt off (unat (h_len (hdr pkt)) - off) = Inr ra"
    and "fwd \<le> length (out (c_stream c))" "length acc + unat (h_len (hdr pkt)) \<le> fwd + 65536"
    and "\<And>e s. w (c_stream c) (pkt_data byte m pkt 0 (unat (h_len (hdr pkt)))) = (Inl e, s) \<Longrightarrow> e = WouldBlock"
  shows "\<exists>c'. conn_send_pkt G R w now m pkt c = Some (Inr (), c') \<and> c_state c' = c_state c \<and>
    out (c_stream c') @ contents (c_tx_buf c') = acc @ pkt_data byte m pkt 0 (unat (h_len (hdr pkt)))"
proof -
  let ?len = "unat (h_len (hdr pkt))"
  let ?c = "c\<lparr>c_peer_buf_alloc := h_buf_alloc (hdr pkt), c_peer_fwd_cnt := h_fwd_cnt (hdr pkt)\<rparr>"
  note inv = vsock_env.conn_reach_inv [OF assms(1,2)]
  have l0: "0 < ?len" using assms(6) by (simp add: unat_gt_0)
  have nk: "c_state c \<noteq> Killed" using assms(3) by (auto simp: sends_data_def)
  then have acc: "acc = out (c_stream c) @ contents (c_tx_buf c)" using inv by (auto simp: conn_inv_def)
  have bs: "buf_size pkt \<noteq> 0"
    using assms(7) [OF l0] l0 by (auto simp: buf_region_addr_def split: if_split_asm)
  obtain c1 where c1: "send_bytes G R w m pkt ?c = Some (Inr (), c1)"
    using vsock_env.send_bytes_within_credit [OF assms(1), of ?c pkt ?len m] conn_invD(1) [OF inv]
      assms(5,7,8,9,10) l0 acc by auto
  have s: "conn_send_pkt G R w now m pkt c =
      Some (Inr (), if peer_needs_credit_update c1 then insert_pending CreditUpdate c1 else c1)"
    using assms(3,4) bs c1 by (simp add: conn_send_pkt_def sends_data_def)
  have "c_state c1 = c_state c \<and>
      out (c_stream c1) @ contents (c_tx_buf c1) = acc @ pkt_data byte m pkt 0 ?len"
    using vsock_env.send_bytes_cases [OF assms(1), of ?c pkt m] conn_invD(1) [OF inv] assms(5) c1 acc by auto
  then show ?thesis using s by auto
qed

lemma vs_buf_region:
  assumes "off < 4"
  shows "buf_region_addr vs_gm vs_regs (vs_mem wr) (vs_pkt h) off (4 - off) = Inr ((0, 4096), 2048 + of_nat off)"
proof -
  have "off = 0 \<or> off = 1 \<or> off = 2 \<or> off = 3" using assms by linarith
  then show ?thesis
    by (elim disjE) (simp_all add: buf_region_addr_def vs_pkt_def ref_gm_err_simps add_c_def ref_regions_def)
qed

theorem conn_within_credit_witness:
  "\<exists>c'. conn_send_pkt vs_gm vs_regs ref_write 0 (vs_mem 0) (vs_pkt vs_hdr) vs_conn = Some (Inr (), c') \<and>
     c_state c' = Established \<and>
     rs_out (c_stream c') @ contents (c_tx_buf c') = pkt_data rm_bytes (vs_mem 0) (vs_pkt vs_hdr) 0 4"
proof -
  have h: "h_op (hdr (vs_pkt vs_hdr)) = VSOCK_OP_RW" "buf_size (vs_pkt vs_hdr) < 2 ^ 64"
      "h_len (hdr (vs_pkt vs_hdr)) = 4" "c_state vs_conn = Established" "rs_err (c_stream vs_conn) = None"
    by (simp_all add: vs_pkt_def vs_hdr_def VSOCK_OP_RW_def vs_conn_def new_peer_init_def vs_stream_def)
  have e: "e = WouldBlock" if "ref_write (c_stream vs_conn) d = (Inl e, s)" for d e s
    using that h(5) by (simp add: ref_write_def Let_def)
  have r: "\<exists>ra. buf_region_addr vs_gm vs_regs (vs_mem 0) (vs_pkt vs_hdr) off (4 - off) = Inr ra" if "off < 4" for off
    using vs_buf_region [OF that] by blast
  show ?thesis
    using conn_within_credit [OF refv.vsock_env_axioms vs_conn_reach _ h(1,2) _ _ le0 _ e, of "vs_mem 0"] h r
    by (simp add: sends_data_def)
qed

text \<open>
  C27. A failing connection is reported to the guest. If a guest packet or a stream event
  leaves the connection killed, the next packet fetched from it is a reset between its two
  ports, ahead of anything else that is pending, and guest packets that arrive later change
  neither the stream nor the buffer.
\<close>

theorem conn_failure_resets:
  assumes "c_state c \<noteq> Killed" "c_state c' = Killed"
    and "conn_send_pkt G R w now m pkt c = Some (r, c') \<or> conn_notify w evset c = Some c'"
  shows "\<exists>p c''. conn_recv_pkt G R rd now' m' q c' = (Inr (), p, m', c'') \<and> h_op (hdr p) = VSOCK_OP_RST \<and>
    h_src_port (hdr p) = c_local_port c' \<and> h_dst_port (hdr p) = c_peer_port c' \<and>
    (\<forall>now2 m2 q2. \<exists>c3. conn_send_pkt G R w now2 m2 q2 c'' = Some (Inr (), c3) \<and>
       c_stream c3 = c_stream c' \<and> c_tx_buf c3 = c_tx_buf c')"
proof -
  have "prs_contains Rst (c_pending_rx c')"
    using assms(3)
  proof
    assume "conn_send_pkt G R w now m pkt c = Some (r, c')"
    then show ?thesis using assms(1,2) by (rule send_pkt_killed)
  next
    assume "conn_notify w evset c = Some c'"
    then show ?thesis using assms(1,2) by (rule conn_notify_killed)
  qed
  then show ?thesis
    using assms(2) by (simp add: conn_recv_pkt_def take_pending_eq init_pkt_def pkt_set_defs conn_send_pkt_def Let_def)
qed

definition vs_broken :: "ref_stream VsockConnection" where
  "vs_broken = vs_conn\<lparr> c_stream := vs_stream\<lparr> rs_err := Some Other \<rparr> \<rparr>"

theorem conn_failure_resets_witness:
  "\<exists>c' p c''. conn_send_pkt vs_gm vs_regs ref_write 0 (vs_mem 0) (vs_pkt vs_hdr) vs_broken = Some (Inr (), c') \<and>
     conn_recv_pkt vs_gm vs_regs ref_read 0 (vs_mem 2) (vs_pkt VsockPacketHeader_default) c' =
       (Inr (), p, vs_mem 2, c'') \<and> h_op (hdr p) = VSOCK_OP_RST \<and> c_state c' = Killed"
proof -
  have b: "buf_region_addr vs_gm vs_regs (vs_mem 0) (vs_pkt vs_hdr) 0 4 = Inr ((0, 4096), 2048)"
    using vs_buf_region [of 0 0 vs_hdr] by simp
  have w: "gr_write_to_stream vs_regs m r ra ref_write (c_stream vs_broken) n =
      (Inl (IOError Other), vs_stream)" for m r ra n
    by (simp add: ref_regions_def ref_write_def vs_broken_def vs_stream_def)
  have h: "h_op (hdr (vs_pkt vs_hdr)) = VSOCK_OP_RW" "buf_size (vs_pkt vs_hdr) = 64"
      "h_len (hdr (vs_pkt vs_hdr)) = 4" "c_state vs_broken = Established" "TxBuf_is_empty (c_tx_buf vs_broken)"
    by (simp_all add: vs_pkt_def vs_hdr_def VSOCK_OP_RW_def vs_conn_def new_peer_init_def vs_broken_def
        TxBuf_is_empty_def TxBuf_len_def TxBuf_new_def)
  have "\<exists>c'. conn_send_pkt vs_gm vs_regs ref_write 0 (vs_mem 0) (vs_pkt vs_hdr) vs_broken = Some (Inr (), kill c')"
    by (auto simp: conn_send_pkt_def send_bytes_def write_from_offset_to_stream_def b w h)
  then obtain c' where c': "conn_send_pkt vs_gm vs_regs ref_write 0 (vs_mem 0) (vs_pkt vs_hdr) vs_broken =
      Some (Inr (), c')" "c_state c' = Killed"
    using kill_simps(1) by metis
  have "c_state vs_broken \<noteq> Killed" by (simp add: vs_broken_def vs_conn_def)
  then show ?thesis
    using conn_failure_resets [of vs_broken c' vs_gm vs_regs ref_write 0 "vs_mem 0" "vs_pkt vs_hdr" "Inr ()"
        0 ref_read 0 "vs_mem 2" "vs_pkt VsockPacketHeader_default"] c' by blast
qed

end
