(* ===== verification/Vsock_Muxer.thy ===== *)
theory Vsock_Muxer
  imports Vsock_Connection Uk_Binary "HOL-Library.AList"
begin

text \<open>
  The vsock backend over Unix domain sockets: the receive queue \<open>vsock/unix/muxer_rxq.rs\<close>, the
  kill queue \<open>vsock/unix/muxer_killq.rs\<close> and the multiplexer \<open>vsock/unix/muxer.rs\<close>. Sockets,
  epoll and the clock are the record \<open>uds\<close>, with a host state threaded through. A
  \<^verbatim>\<open>HashMap\<close> of connections is an association list; its iteration order is the parameter
  \<open>us_iter\<close>. An operation of type \<open>option\<close> gives \<^const>\<open>None\<close> when it panics or does not
  return.
\<close>

section \<open>Receive queue\<close>

definition MAX_CONNECTIONS :: nat where "MAX_CONNECTIONS = 1023"
definition MUXER_RXQ_SIZE :: nat where "MUXER_RXQ_SIZE = 256"
definition MUXER_KILLQ_SIZE :: nat where "MUXER_KILLQ_SIZE = 128"

record ConnMapKey =
  k_local_port :: u32
  k_peer_port :: u32

datatype MuxerRx = ConnRx ConnMapKey | RstPkt u32 u32

type_synonym 's ConnMap = "(ConnMapKey \<times> 's VsockConnection) list"

record MuxerRxQ =
  rq_q :: "MuxerRx list"
  rq_synced :: bool

definition rxq_new :: MuxerRxQ where
  "rxq_new = \<lparr> rq_q = [], rq_synced = True \<rparr>"

fun rxq_fill :: "'s ConnMap \<Rightarrow> MuxerRx list \<Rightarrow> MuxerRx list \<times> bool" where
  "rxq_fill [] q = (q, True)"
| "rxq_fill ((key, conn) # cs) q =
     (if \<not> has_pending_rx conn then rxq_fill cs q
      else if length q \<ge> MUXER_RXQ_SIZE then (q, False)
      else rxq_fill cs (q @ [ConnRx key]))"

definition rxq_from_conn_map :: "'s ConnMap \<Rightarrow> MuxerRxQ" where
  "rxq_from_conn_map cs = (let (q, synced) = rxq_fill cs [] in \<lparr> rq_q = q, rq_synced = synced \<rparr>)"

definition rxq_is_full :: "MuxerRxQ \<Rightarrow> bool" where
  "rxq_is_full q \<longleftrightarrow> length (rq_q q) = MUXER_RXQ_SIZE"

definition rxq_is_empty :: "MuxerRxQ \<Rightarrow> bool" where
  "rxq_is_empty q \<longleftrightarrow> length (rq_q q) = 0"

text \<open>Replaces the first connection key of a list.\<close>

fun evict_conn :: "MuxerRx \<Rightarrow> MuxerRx list \<Rightarrow> MuxerRx list option" where
  "evict_conn rx [] = None"
| "evict_conn rx (ConnRx k # qs) = Some (rx # qs)"
| "evict_conn rx (RstPkt l p # qs) = map_option (\<lambda>xs. RstPkt l p # xs) (evict_conn rx qs)"

definition rxq_push :: "MuxerRx \<Rightarrow> MuxerRxQ \<Rightarrow> bool \<times> MuxerRxQ" where
  "rxq_push rx q =
     (if rq_synced q \<and> \<not> rxq_is_full q then (True, q\<lparr> rq_q := rq_q q @ [rx] \<rparr>)
      else case rx of
        RstPkt _ _ \<Rightarrow>
          (case evict_conn rx (rev (rq_q q)) of
             Some xs \<Rightarrow> (True, \<lparr> rq_q = rev xs, rq_synced = False \<rparr>)
           | None \<Rightarrow> (False, q))
      | ConnRx _ \<Rightarrow> (False, q\<lparr> rq_synced := False \<rparr>))"

definition rxq_peek :: "MuxerRxQ \<Rightarrow> MuxerRx option" where
  "rxq_peek q = (case rq_q q of [] \<Rightarrow> None | x # _ \<Rightarrow> Some x)"

definition rxq_pop :: "MuxerRxQ \<Rightarrow> MuxerRx option \<times> MuxerRxQ" where
  "rxq_pop q = (case rq_q q of [] \<Rightarrow> (None, q) | x # xs \<Rightarrow> (Some x, q\<lparr> rq_q := xs \<rparr>))"

section \<open>The host\<close>

datatype ControlOperation = Add | Modify | Delete

record ('h, 's) uds =
  us_now :: "'h \<Rightarrow> nat \<times> 'h"
  us_write :: "'s writer"
  us_read :: "'s reader"
  us_read_exact :: "'s \<Rightarrow> nat \<Rightarrow> (ErrorKind + bytes) \<times> 's"
  us_fd :: "'s \<Rightarrow> int"
  us_set_nonblocking :: "'s \<Rightarrow> ErrorKind + 's"
  us_connect :: "'h \<Rightarrow> string \<Rightarrow> (ErrorKind + 's) \<times> 'h"
  us_bind :: "'h \<Rightarrow> string \<Rightarrow> (ErrorKind + int) \<times> 'h"
  us_accept :: "'h \<Rightarrow> int \<Rightarrow> (ErrorKind + 's) \<times> 'h"
  us_listener_nonblocking :: "'h \<Rightarrow> int \<Rightarrow> (ErrorKind + unit) \<times> 'h"
  ep_new :: "'h \<Rightarrow> (ErrorKind + unit) \<times> 'h"
  ep_ctl :: "'h \<Rightarrow> ControlOperation \<Rightarrow> int \<Rightarrow> EventSet \<Rightarrow> (ErrorKind + unit) \<times> 'h"
  ep_wait :: "'h \<Rightarrow> nat \<Rightarrow> (ErrorKind + (int \<times> EventSet) list) \<times> 'h"
  us_iter :: "'s ConnMap \<Rightarrow> 's ConnMap"

definition read_will_expire :: "('h, 's) uds \<Rightarrow> 'h \<Rightarrow> 's VsockConnection \<Rightarrow> bool \<times> 'h" where
  "read_will_expire U h c =
     (if c_expiry c = None then (False, h) else let (now, h1) = us_now U h in (will_expire now c, h1))"

definition read_has_expired :: "('h, 's) uds \<Rightarrow> 'h \<Rightarrow> 's VsockConnection \<Rightarrow> bool \<times> 'h" where
  "read_has_expired U h c =
     (if c_expiry c = None then (False, h) else let (now, h1) = us_now U h in (has_expired now c, h1))"

section \<open>Kill queue\<close>

record MuxerKillQItem =
  ki_key :: ConnMapKey
  ki_kill_time :: nat

record MuxerKillQ =
  kq_q :: "MuxerKillQItem list"
  kq_synced :: bool

definition killq_new :: MuxerKillQ where
  "killq_new = \<lparr> kq_q = [], kq_synced = True \<rparr>"

definition killq_is_full :: "MuxerKillQ \<Rightarrow> bool" where
  "killq_is_full q \<longleftrightarrow> length (kq_q q) = MUXER_KILLQ_SIZE"

definition killq_is_empty :: "MuxerKillQ \<Rightarrow> bool" where
  "killq_is_empty q \<longleftrightarrow> length (kq_q q) = 0"

fun killq_fill :: "('h, 's) uds \<Rightarrow> 'h \<Rightarrow> 's ConnMap \<Rightarrow> MuxerKillQItem list \<Rightarrow>
    (MuxerKillQItem list \<times> bool \<times> 'h) option" where
  "killq_fill U h [] q = Some (q, True, h)"
| "killq_fill U h ((key, conn) # cs) q = do {
     let (exp, h1) = read_will_expire U h conn;
     if \<not> exp then killq_fill U h1 cs q
     else if length q \<ge> MUXER_KILLQ_SIZE then Some (q, False, h1)
     else do {
       t \<leftarrow> c_expiry conn;
       killq_fill U h1 cs (q @ [\<lparr> ki_key = key, ki_kill_time = t \<rparr>])
     }
   }"

text \<open>
  The code sorts with \<^verbatim>\<open>sort_unstable_by_key\<close>. The order of the connections comes from the iteration over a
  hash map, which is any order (\<open>us_iter\<close>), so a stable sort gives every order of equal times.
\<close>

definition killq_from_conn_map :: "('h, 's) uds \<Rightarrow> 'h \<Rightarrow> 's ConnMap \<Rightarrow> (MuxerKillQ \<times> 'h) option" where
  "killq_from_conn_map U h cs = do {
     (q, synced, h1) \<leftarrow> killq_fill U h cs [];
     Some (\<lparr> kq_q = sort_key ki_kill_time q, kq_synced = synced \<rparr>, h1)
   }"

definition killq_push :: "ConnMapKey \<Rightarrow> nat \<Rightarrow> MuxerKillQ \<Rightarrow> MuxerKillQ" where
  "killq_push key kill_time q =
     (if \<not> kq_synced q \<or> killq_is_full q then q\<lparr> kq_synced := False \<rparr>
      else q\<lparr> kq_q := kq_q q @ [\<lparr> ki_key = key, ki_kill_time = kill_time \<rparr>] \<rparr>)"

definition killq_pop :: "('h, 's) uds \<Rightarrow> 'h \<Rightarrow> MuxerKillQ \<Rightarrow> ConnMapKey option \<times> 'h \<times> MuxerKillQ" where
  "killq_pop U h q = (case kq_q q of
     [] \<Rightarrow> (None, h, q)
   | item # rest \<Rightarrow>
       (let (now, h1) = us_now U h
        in if now > ki_kill_time item then (Some (ki_key item), h1, q\<lparr> kq_q := rest \<rparr>) else (None, h1, q)))"

section \<open>Muxer\<close>

datatype 's EpollListener = Connection ConnMapKey EventSet | HostSock | LocalStream 's

datatype MuxerError =
    EpollAdd ErrorKind
  | EpollFdCreate ErrorKind
  | InvalidPortRequest
  | UnixAccept ErrorKind
  | UnixBind ErrorKind
  | UnixConnect ErrorKind
  | UnixRead ErrorKind
  | TooManyConnections

record 's VsockMuxer =
  mx_cid :: u64
  mx_conn_map :: "'s ConnMap"
  mx_listener_map :: "int \<Rightarrow> 's EpollListener option"
  mx_rxq :: MuxerRxQ
  mx_killq :: MuxerKillQ
  mx_host_sock :: int
  mx_host_sock_path :: string
  mx_local_port_set :: "u32 set"
  mx_local_port_last :: u32

type_synonym ('h, 's) mstate = "'h \<times> 's VsockMuxer"

definition add_listener :: "('h, 's) uds \<Rightarrow> int \<Rightarrow> 's EpollListener \<Rightarrow> ('h, 's) mstate \<Rightarrow>
    (MuxerError + unit) \<times> ('h, 's) mstate" where
  "add_listener U fd listener st =
     (let (h, mx) = st;
          evset = (case listener of Connection _ e \<Rightarrow> e | LocalStream _ \<Rightarrow> EventSet_IN | HostSock \<Rightarrow> EventSet_IN);
          (res, h1) = ep_ctl U h Add fd evset
      in case res of
           Inl e \<Rightarrow> (Inl (EpollAdd e), (h1, mx))
         | Inr _ \<Rightarrow> (Inr (), (h1, mx\<lparr> mx_listener_map := (mx_listener_map mx)(fd \<mapsto> listener) \<rparr>)))"

definition remove_listener :: "('h, 's) uds \<Rightarrow> int \<Rightarrow> ('h, 's) mstate \<Rightarrow>
    's EpollListener option \<times> ('h, 's) mstate" where
  "remove_listener U fd st =
     (let (h, mx) = st
      in case mx_listener_map mx fd of
           None \<Rightarrow> (None, (h, mx))
         | Some l \<Rightarrow> (Some l, (snd (ep_ctl U h Delete fd 0),
             mx\<lparr> mx_listener_map := (mx_listener_map mx)(fd := None) \<rparr>)))"

definition mux_new :: "('h, 's) uds \<Rightarrow> 'h \<Rightarrow> u64 \<Rightarrow> string \<Rightarrow> (MuxerError + 's VsockMuxer) \<times> 'h" where
  "mux_new U h cid path =
     (case us_bind U h path of
        (Inl e, h1) \<Rightarrow> (Inl (UnixBind e), h1)
      | (Inr sock, h1) \<Rightarrow> (case us_listener_nonblocking U h1 sock of
          (Inl e, h2) \<Rightarrow> (Inl (UnixBind e), h2)
        | (Inr _, h2) \<Rightarrow> (case ep_new U h2 of
            (Inl e, h3) \<Rightarrow> (Inl (EpollFdCreate e), h3)
          | (Inr _, h3) \<Rightarrow>
              (let mx = \<lparr> mx_cid = cid, mx_conn_map = [], mx_listener_map = Map.empty, mx_rxq = rxq_new,
                          mx_killq = killq_new, mx_host_sock = sock, mx_host_sock_path = path,
                          mx_local_port_set = {}, mx_local_port_last = push_bit 30 1 - 1 \<rparr>
               in case add_listener U sock HostSock (h3, mx) of
                    (Inl e, (h4, mx4)) \<Rightarrow> (Inl e, h4)
                  | (Inr _, (h4, mx4)) \<Rightarrow> (Inr mx4, h4)))))"

text \<open>The ports of host-initiated connections.\<close>

definition next_local_port :: "u32 \<Rightarrow> u32 option" where
  "next_local_port p = do { q \<leftarrow> add_c p 1; Some ((q AND NOT (push_bit 31 1)) OR push_bit 30 1) }"

partial_function (option) alloc_port :: "u32 set \<Rightarrow> u32 \<Rightarrow> u32 option" where
  "alloc_port ports p = do {
     q \<leftarrow> next_local_port p;
     if q \<notin> ports then Some q else alloc_port ports q
   }"

definition allocate_local_port :: "'s VsockMuxer \<Rightarrow> (u32 \<times> 's VsockMuxer) option" where
  "allocate_local_port mx = do {
     p \<leftarrow> alloc_port (mx_local_port_set mx) (mx_local_port_last mx);
     Some (p, mx\<lparr> mx_local_port_last := p, mx_local_port_set := insert p (mx_local_port_set mx) \<rparr>)
   }"

definition free_local_port :: "u32 \<Rightarrow> 's VsockMuxer \<Rightarrow> 's VsockMuxer" where
  "free_local_port port mx = mx\<lparr> mx_local_port_set := mx_local_port_set mx - {port} \<rparr>"

definition push_rx :: "MuxerRx \<Rightarrow> 's VsockMuxer \<Rightarrow> 's VsockMuxer" where
  "push_rx rx mx = mx\<lparr> mx_rxq := snd (rxq_push rx (mx_rxq mx)) \<rparr>"

definition enq_rst :: "u32 \<Rightarrow> u32 \<Rightarrow> 's VsockMuxer \<Rightarrow> 's VsockMuxer" where
  "enq_rst local_port peer_port mx = push_rx (RstPkt local_port peer_port) mx"

definition put_conn :: "ConnMapKey \<Rightarrow> 's VsockConnection \<Rightarrow> 's VsockMuxer \<Rightarrow> 's VsockMuxer" where
  "put_conn key conn mx = mx\<lparr> mx_conn_map := AList.update key conn (mx_conn_map mx) \<rparr>"

definition kill_connection :: "ConnMapKey \<Rightarrow> 's VsockMuxer \<Rightarrow> 's VsockMuxer" where
  "kill_connection key mx =
     (let (had_rx, mx1) =
        (case map_of (mx_conn_map mx) key of
           None \<Rightarrow> (False, mx)
         | Some conn \<Rightarrow> (has_pending_rx conn, put_conn key (kill conn) mx))
      in if \<not> had_rx then push_rx (ConnRx key) mx1 else mx1)"

definition remove_connection :: "('h, 's) uds \<Rightarrow> ConnMapKey \<Rightarrow> ('h, 's) mstate \<Rightarrow> ('h, 's) mstate" where
  "remove_connection U key st =
     (let (h, mx) = st;
          (h1, mx1) = (case map_of (mx_conn_map mx) key of
             None \<Rightarrow> (h, mx)
           | Some conn \<Rightarrow> snd (remove_listener U (us_fd U (c_stream conn))
               (h, mx\<lparr> mx_conn_map := AList.delete key (mx_conn_map mx) \<rparr>)))
      in (h1, free_local_port (k_local_port key) mx1))"

text \<open>The loop and the recursion of \<^verbatim>\<open>sweep_killq\<close>.\<close>

function sweep_pop :: "('h, 's) uds \<Rightarrow> ('h, 's) mstate \<Rightarrow> ('h, 's) mstate" where
  "sweep_pop U (h, mx) =
     (case killq_pop U h (mx_killq mx) of
        (None, h1, q) \<Rightarrow> (h1, mx\<lparr> mx_killq := q \<rparr>)
      | (Some key, h1, q) \<Rightarrow>
          (let mx1 = mx\<lparr> mx_killq := q \<rparr>;
               (kill, h2) = (case map_of (mx_conn_map mx1) key of
                  None \<Rightarrow> (False, h1) | Some conn \<Rightarrow> read_has_expired U h1 conn);
               mx2 = (if kill then kill_connection key mx1 else mx1)
           in sweep_pop U (h2, mx2)))"
  by pat_completeness auto

lemma killq_pop_length:
  "killq_pop U h q = (Some key, h1, q1) \<Longrightarrow> length (kq_q q) = Suc (length (kq_q q1))"
  by (auto simp: killq_pop_def Let_def split: list.split_asm if_split_asm prod.split_asm)

lemma kill_connection_frame [simp]:
  "mx_killq (kill_connection key mx) = mx_killq mx" "mx_cid (kill_connection key mx) = mx_cid mx"
  "mx_local_port_set (kill_connection key mx) = mx_local_port_set mx"
  "mx_local_port_last (kill_connection key mx) = mx_local_port_last mx"
  by (auto simp: kill_connection_def push_rx_def put_conn_def Let_def split: option.splits)

termination sweep_pop
  by (relation "measure (\<lambda>(U, h, mx). length (kq_q (mx_killq mx)))")
    (auto dest!: killq_pop_length [OF sym] split: if_split_asm)

partial_function (option) sweep_killq :: "('h, 's) uds \<Rightarrow> ('h, 's) mstate \<Rightarrow> ('h, 's) mstate option" where
  "sweep_killq U st =
     (case sweep_pop U st of (h, mx) \<Rightarrow>
        if killq_is_empty (mx_killq mx) \<and> \<not> kq_synced (mx_killq mx)
        then do {
          (q, h1) \<leftarrow> killq_from_conn_map U h (us_iter U (mx_conn_map mx));
          sweep_killq U (h1, mx\<lparr> mx_killq := q \<rparr>)
        }
        else Some (h, mx))"

definition add_connection :: "('h, 's) uds \<Rightarrow> ConnMapKey \<Rightarrow> 's VsockConnection \<Rightarrow> ('h, 's) mstate \<Rightarrow>
    ((MuxerError + unit) \<times> ('h, 's) mstate) option" where
  "add_connection U key conn st = do {
     (h, mx) \<leftarrow> sweep_killq U st;
     if length (mx_conn_map mx) \<ge> MAX_CONNECTIONS then Some (Inl TooManyConnections, (h, mx))
     else Some (case add_listener U (us_fd U (c_stream conn)) (Connection key (get_polled_evset conn)) (h, mx) of
         (Inl e, st1) \<Rightarrow> (Inl e, st1)
       | (Inr _, (h1, mx1)) \<Rightarrow>
           (let mx2 = (if has_pending_rx conn then push_rx (ConnRx key) mx1 else mx1)
            in (Inr (), (h1, put_conn key conn mx2))))
   }"

text \<open>Decimal numbers, as \<^verbatim>\<open>format!\<close> prints them.\<close>

fun dec_string :: "nat \<Rightarrow> string" where
  "dec_string n = (if n < 10 then [] else dec_string (n div 10)) @ [char_of (48 + n mod 10)]"

definition str_bytes :: "string \<Rightarrow> bytes" where
  "str_bytes = map (\<lambda>c. of_nat (of_char c))"

definition handle_peer_request_pkt :: "('h, 's) uds \<Rightarrow> VsockPacket \<Rightarrow> ('h, 's) mstate \<Rightarrow>
    ('h, 's) mstate option" where
  "handle_peer_request_pkt U pkt st = do {
     let (h, mx) = st;
     let lp = h_dst_port (hdr pkt);
     let pp = h_src_port (hdr pkt);
     let port_path = mx_host_sock_path mx @ ''_'' @ dec_string (unat lp);
     let (res, h1) = us_connect U h port_path;
     let res = (case res of Inl e \<Rightarrow> Inl e | Inr s \<Rightarrow> us_set_nonblocking U s);
     case res of
       Inl e \<Rightarrow> Some (h1, enq_rst lp pp mx)
     | Inr stream \<Rightarrow> do {
         (r, (h2, mx2)) \<leftarrow> add_connection U \<lparr> k_local_port = lp, k_peer_port = pp \<rparr>
           (new_peer_init stream VSOCK_HOST_CID (mx_cid mx) lp pp (h_buf_alloc (hdr pkt))) (h1, mx);
         Some (case r of Inl _ \<Rightarrow> (h2, enq_rst lp pp mx2) | Inr _ \<Rightarrow> (h2, mx2))
       }
   }"

subsection \<open>Mutating a connection\<close>

text \<open>The acknowledgement of a host-initiated connection that was just established.\<close>

definition ack_local :: "('h, 's) uds \<Rightarrow> ConnMapKey \<Rightarrow> ConnState \<Rightarrow> 's VsockConnection \<Rightarrow> 's VsockConnection" where
  "ack_local U key prev_state conn =
     (if prev_state = LocalInit \<and> c_state conn = Established
      then (let msg = str_bytes (''OK '' @ dec_string (unat (k_local_port key)) @ [char_of (10::nat)]);
                (res, conn1) = send_bytes_raw (us_write U) msg conn
            in case res of
                 Inr cnt \<Rightarrow> if cnt = length msg then conn1 else kill conn1
               | Inl _ \<Rightarrow> kill conn1)
      else conn)"

text \<open>The end of \<^verbatim>\<open>apply_conn_mutation\<close>: keeping the epoll listener of the connection up to date.\<close>

definition update_listener :: "('h, 's) uds \<Rightarrow> ConnMapKey \<Rightarrow> 's VsockConnection \<Rightarrow> ('h, 's) mstate \<Rightarrow>
    ('h, 's) mstate" where
  "update_listener U key conn st =
     (let (h, mx) = st;
          fd = us_fd U (c_stream conn);
          new_evset = get_polled_evset conn
      in if new_evset = 0 then snd (remove_listener U fd (h, mx))
         else case mx_listener_map mx fd of
           Some (Connection key1 evset) \<Rightarrow>
             if evset \<noteq> new_evset
             then (let mx1 = mx\<lparr> mx_listener_map := (mx_listener_map mx)(fd \<mapsto> Connection key1 new_evset) \<rparr>;
                       (res, h1) = ep_ctl U h Modify fd new_evset
                   in (h1, case res of Inl _ \<Rightarrow> kill_connection key mx1 | Inr _ \<Rightarrow> mx1))
             else (h, mx)
         | _ \<Rightarrow>
             (let (res, (h1, mx1)) = add_listener U fd (Connection key new_evset) (h, mx)
              in (h1, case res of Inl _ \<Rightarrow> kill_connection key mx1 | Inr _ \<Rightarrow> mx1)))"

definition apply_conn_mutation :: "('h, 's) uds \<Rightarrow> ConnMapKey \<Rightarrow>
    ('h \<Rightarrow> 's VsockConnection \<Rightarrow> ('r \<times> 'h \<times> 's VsockConnection) option) \<Rightarrow> ('h, 's) mstate \<Rightarrow>
    ('r option \<times> ('h, 's) mstate) option" where
  "apply_conn_mutation U key mut_fn st =
     (let (h, mx) = st in case map_of (mx_conn_map mx) key of
        None \<Rightarrow> Some (None, (h, mx))
      | Some conn \<Rightarrow> do {
          let had_rx = has_pending_rx conn;
          let (was_expiring, h1) = read_will_expire U h conn;
          (r, h2, conn1) \<leftarrow> mut_fn h1 conn;
          let conn2 = ack_local U key (c_state conn) conn1;
          let mx1 = put_conn key conn2 mx;
          let mx2 = (if \<not> had_rx \<and> has_pending_rx conn2 then push_rx (ConnRx key) mx1 else mx1);
          let (expires, h3) = (if was_expiring then (False, h2) else read_will_expire U h2 conn2);
          mx3 \<leftarrow> (if expires then do {
                    t \<leftarrow> c_expiry conn2;
                    Some (mx2\<lparr> mx_killq := killq_push key t (mx_killq mx2) \<rparr>)
                  } else Some mx2);
          Some (Some r, update_listener U key conn2 (h3, mx3))
        })"

subsection \<open>Packets\<close>

text \<open>The closures that \<^verbatim>\<open>send_pkt\<close>, \<^verbatim>\<open>recv_pkt\<close> and \<^verbatim>\<open>handle_event\<close> run on a connection.\<close>

definition send_fn :: "('m, 'e) gmem \<Rightarrow> ('m, 'r, 'e, 's) guest_regions \<Rightarrow> ('h, 's) uds \<Rightarrow> 'm \<Rightarrow> VsockPacket \<Rightarrow>
    'h \<Rightarrow> 's VsockConnection \<Rightarrow> (('e VsockError + unit) \<times> 'h \<times> 's VsockConnection) option" where
  "send_fn G R U m pkt h conn = do {
     let (now, h1) = us_now U h;
     (res, conn1) \<leftarrow> conn_send_pkt G R (us_write U) now m pkt conn;
     Some (res, h1, conn1)
   }"

definition recv_fn :: "('m, 'e) gmem \<Rightarrow> ('m, 'r, 'e, 's) guest_regions \<Rightarrow> ('h, 's) uds \<Rightarrow> 'm \<Rightarrow> VsockPacket \<Rightarrow>
    'h \<Rightarrow> 's VsockConnection \<Rightarrow>
    ((('e VsockError + unit) \<times> bool \<times> VsockPacket \<times> 'm) \<times> 'h \<times> 's VsockConnection) option" where
  "recv_fn G R U m pkt h conn =
     (let (now, h1) = us_now U h;
          (res, pkt1, m1, conn1) = conn_recv_pkt G R (us_read U) now m pkt conn
      in Some ((res, \<not> has_pending_rx conn1, pkt1, m1), h1, conn1))"

definition notify_fn :: "('h, 's) uds \<Rightarrow> EventSet \<Rightarrow> 'h \<Rightarrow> 's VsockConnection \<Rightarrow>
    (unit \<times> 'h \<times> 's VsockConnection) option" where
  "notify_fn U evset h conn = do {
     conn1 \<leftarrow> conn_notify (us_write U) evset conn;
     Some ((), h, conn1)
   }"

definition mux_send_pkt :: "('m, 'e) gmem \<Rightarrow> ('m, 'r, 'e, 's) guest_regions \<Rightarrow> ('h, 's) uds \<Rightarrow> 'm \<Rightarrow>
    VsockPacket \<Rightarrow> ('h, 's) mstate \<Rightarrow> (('e VsockError + unit) \<times> ('h, 's) mstate) option" where
  "mux_send_pkt G R U m pkt st = do {
     let (h, mx) = st;
     let lp = h_dst_port (hdr pkt);
     let pp = h_src_port (hdr pkt);
     let conn_key = \<lparr> k_local_port = lp, k_peer_port = pp \<rparr>;
     if h_type (hdr pkt) \<noteq> VSOCK_TYPE_STREAM then Some (Inr (), (h, enq_rst lp pp mx))
     else if h_dst_cid (hdr pkt) \<noteq> VSOCK_HOST_CID then Some (Inr (), (h, mx))
     else if map_of (mx_conn_map mx) conn_key = None then
       (if h_op (hdr pkt) = VSOCK_OP_REQUEST
        then map_option (\<lambda>st. (Inr (), st)) (handle_peer_request_pkt U pkt (h, mx))
        else Some (Inr (), (h, enq_rst lp pp mx)))
     else if h_op (hdr pkt) = VSOCK_OP_RST then Some (Inr (), remove_connection U conn_key (h, mx))
     else do {
       (r, st1) \<leftarrow> apply_conn_mutation U conn_key (send_fn G R U m pkt) (h, mx);
       Some (case r of None \<Rightarrow> Inr () | Some res \<Rightarrow> res, st1)
     }
   }"

definition rst_pkt :: "u64 \<Rightarrow> u32 \<Rightarrow> u32 \<Rightarrow> VsockPacket \<Rightarrow> VsockPacket" where
  "rst_pkt cid local_port peer_port pkt =
     set_fwd_cnt 0 (set_buf_alloc 0 (set_flags 0 (set_type VSOCK_TYPE_STREAM (set_len 0
       (set_dst_port peer_port (set_src_port local_port (set_dst_cid cid
         (set_src_cid VSOCK_HOST_CID (set_op VSOCK_OP_RST pkt)))))))))"

text \<open>
  One round of the loop of \<^verbatim>\<open>recv_pkt\<close>: either its result, or the packet, memory and muxer for
  the next round. The closure reads the clock in every call.
\<close>

type_synonym ('m, 'h, 's) rxstate = "VsockPacket \<times> 'm \<times> ('h, 's) mstate"

definition recv_step :: "('m, 'e) gmem \<Rightarrow> ('m, 'r, 'e, 's) guest_regions \<Rightarrow> ('h, 's) uds \<Rightarrow>
    ('m, 'h, 's) rxstate \<Rightarrow> (bool \<times> ('e VsockError + unit) \<times> ('m, 'h, 's) rxstate) option" where
  "recv_step G R U x = (let (pkt, m, h, mx) = x in
     case rxq_peek (mx_rxq mx) of
       None \<Rightarrow> Some (True, Inl NoData, (pkt, m, h, mx))
     | Some (RstPkt lp pp) \<Rightarrow> do {
         let (it, q) = rxq_pop (mx_rxq mx);
         _ \<leftarrow> it;
         Some (True, Inr (), (rst_pkt (mx_cid mx) lp pp pkt, m, h, mx\<lparr> mx_rxq := q \<rparr>))
       }
     | Some (ConnRx key) \<Rightarrow> do {
         (r, (h1, mx1)) \<leftarrow> apply_conn_mutation U key (recv_fn G R U m pkt) (h, mx);
         let (conn_res, do_pop, pkt1, m1) =
           (case r of None \<Rightarrow> (Inl NoData, True, pkt, m) | Some y \<Rightarrow> y);
         mx2 \<leftarrow> (if do_pop then do {
                   let (it, q) = rxq_pop (mx_rxq mx1);
                   _ \<leftarrow> it;
                   Some (mx1\<lparr> mx_rxq := q \<rparr>)
                 } else Some mx1);
         case conn_res of
           Inr _ \<Rightarrow>
             Some (True, Inr (), (pkt1, m1,
               if h_op (hdr pkt1) = VSOCK_OP_RST
               then remove_connection U \<lparr> k_local_port = h_src_port (hdr pkt1), k_peer_port = h_dst_port (hdr pkt1) \<rparr> (h1, mx2)
               else (h1, mx2)))
         | Inl _ \<Rightarrow> Some (False, Inl NoData, (pkt1, m1, h1, mx2))
       })"

partial_function (option) recv_loop :: "('m, 'e) gmem \<Rightarrow> ('m, 'r, 'e, 's) guest_regions \<Rightarrow> ('h, 's) uds \<Rightarrow>
    ('m, 'h, 's) rxstate \<Rightarrow> (('e VsockError + unit) \<times> ('m, 'h, 's) rxstate) option" where
  "recv_loop G R U x = do {
     (stop, res, x1) \<leftarrow> recv_step G R U x;
     if stop then Some (res, x1) else recv_loop G R U x1
   }"

definition mux_recv_pkt :: "('m, 'e) gmem \<Rightarrow> ('m, 'r, 'e, 's) guest_regions \<Rightarrow> ('h, 's) uds \<Rightarrow> 'm \<Rightarrow>
    VsockPacket \<Rightarrow> ('h, 's) mstate \<Rightarrow> (('e VsockError + unit) \<times> VsockPacket \<times> 'm \<times> ('h, 's) mstate) option" where
  "mux_recv_pkt G R U m pkt st =
     (let (h, mx) = st;
          mx1 = (if rxq_is_empty (mx_rxq mx) \<and> \<not> rq_synced (mx_rxq mx)
                 then mx\<lparr> mx_rxq := rxq_from_conn_map (us_iter U (mx_conn_map mx)) \<rparr> else mx)
      in recv_loop G R U (pkt, m, h, mx1))"

definition mux_has_pending_rx :: "'s VsockMuxer \<Rightarrow> bool" where
  "mux_has_pending_rx mx \<longleftrightarrow> \<not> rxq_is_empty (mx_rxq mx) \<or> \<not> rq_synced (mx_rxq mx)"

subsection \<open>Events\<close>

text \<open>\<^verbatim>\<open>str::split_whitespace\<close> on valid UTF-8, and \<^verbatim>\<open>str::parse::<u32>\<close>.\<close>

fun code_points :: "bytes \<Rightarrow> nat list" where
  "code_points (a # bs) =
     (if a < 0x80 then unat a # code_points bs
      else if a < 0xE0 then
        (case bs of b # bs1 \<Rightarrow> ((unat a - 0xC0) * 64 + (unat b - 0x80)) # code_points (drop 1 bs) | _ \<Rightarrow> [])
      else if a < 0xF0 then
        (case bs of b # c # bs1 \<Rightarrow>
            ((unat a - 0xE0) * 4096 + (unat b - 0x80) * 64 + (unat c - 0x80)) # code_points (drop 2 bs)
          | _ \<Rightarrow> [])
      else
        (case bs of b # c # d # bs1 \<Rightarrow>
            ((unat a - 0xF0) * 262144 + (unat b - 0x80) * 4096 + (unat c - 0x80) * 64 + (unat d - 0x80))
              # code_points (drop 3 bs)
          | _ \<Rightarrow> []))"
| "code_points [] = []"

definition is_whitespace :: "nat \<Rightarrow> bool" where
  "is_whitespace c \<longleftrightarrow> 9 \<le> c \<and> c \<le> 13 \<or> c = 0x20 \<or> c = 0x85 \<or> c = 0xA0 \<or> c = 0x1680 \<or>
     0x2000 \<le> c \<and> c \<le> 0x200A \<or> c = 0x2028 \<or> c = 0x2029 \<or> c = 0x202F \<or> c = 0x205F \<or> c = 0x3000"

function split_whitespace :: "nat list \<Rightarrow> nat list list" where
  "split_whitespace cs =
     (let rest = dropWhile is_whitespace cs
      in if rest = [] then []
         else takeWhile (\<lambda>c. \<not> is_whitespace c) rest #
              split_whitespace (dropWhile (\<lambda>c. \<not> is_whitespace c) rest))"
  by pat_completeness auto

lemma length_dropWhile_less:
  assumes "dropWhile is_whitespace cs \<noteq> []"
  shows "length (dropWhile (\<lambda>c. \<not> is_whitespace c) (dropWhile is_whitespace cs)) < length cs"
proof -
  obtain x xs where x: "dropWhile is_whitespace cs = x # xs" using assms by (cases "dropWhile is_whitespace cs") auto
  have "\<not> is_whitespace x" using x hd_dropWhile [of is_whitespace cs] by simp
  then have "length (dropWhile (\<lambda>c. \<not> is_whitespace c) (x # xs)) \<le> length xs"
    by (simp add: length_dropWhile_le)
  also have "\<dots> < length cs" using x length_dropWhile_le [of is_whitespace cs] by simp
  finally show ?thesis using x by simp
qed

termination split_whitespace
  by (relation "measure length") (auto simp: length_dropWhile_less)

definition to_lower :: "nat \<Rightarrow> nat" where
  "to_lower c = (if 65 \<le> c \<and> c \<le> 90 then c + 32 else c)"

fun parse_digits :: "nat list \<Rightarrow> nat \<Rightarrow> nat option" where
  "parse_digits [] acc = Some acc"
| "parse_digits (c # cs) acc =
     (if 48 \<le> c \<and> c \<le> 57 \<and> acc * 10 + (c - 48) < 2 ^ 32 then parse_digits cs (acc * 10 + (c - 48)) else None)"

definition parse_u32 :: "nat list \<Rightarrow> u32 option" where
  "parse_u32 cs =
     (let ds = (case cs of [] \<Rightarrow> [] | c # r \<Rightarrow> if c = 43 then r else cs)
      in if ds = [] then None else map_option of_nat (parse_digits ds 0))"

fun read_until_eol :: "('h, 's) uds \<Rightarrow> nat \<Rightarrow> bytes \<Rightarrow> 's \<Rightarrow> (MuxerError + bytes) \<times> 's" where
  "read_until_eol U 0 buf s = (Inr buf, s)"
| "read_until_eol U (Suc n) buf s =
     (if last buf \<noteq> 10
      then (case us_read_exact U s 1 of
          (Inl e, s1) \<Rightarrow> (Inl (UnixRead e), s1)
        | (Inr bs, s1) \<Rightarrow> read_until_eol U n (buf @ bs) s1)
      else (Inr buf, s))"

definition parse_connect :: "bytes \<Rightarrow> MuxerError + u32" where
  "parse_connect buf =
     (if \<not> utf8_valid buf then Inl InvalidPortRequest
      else case split_whitespace (code_points buf) of
        [] \<Rightarrow> Inl InvalidPortRequest
      | word # ws \<Rightarrow>
          if map to_lower word \<noteq> map of_char ''connect'' then Inl InvalidPortRequest
          else (case ws of
              [] \<Rightarrow> Inl InvalidPortRequest
            | port # _ \<Rightarrow> (case parse_u32 port of None \<Rightarrow> Inl InvalidPortRequest | Some p \<Rightarrow> Inr p)))"

definition read_local_stream_port :: "('h, 's) uds \<Rightarrow> 's \<Rightarrow> (MuxerError + u32) \<times> 's" where
  "read_local_stream_port U s =
     (case us_read_exact U s 10 of
        (Inl e, s1) \<Rightarrow> (Inl (UnixRead e), s1)
      | (Inr bs, s1) \<Rightarrow> (case read_until_eol U 22 bs s1 of
          (Inl e, s2) \<Rightarrow> (Inl e, s2)
        | (Inr buf, s2) \<Rightarrow> (parse_connect buf, s2)))"

definition handle_event :: "('h, 's) uds \<Rightarrow> int \<Rightarrow> EventSet \<Rightarrow> ('h, 's) mstate \<Rightarrow> ('h, 's) mstate option" where
  "handle_event U fd event_set st =
     (let (h, mx) = st in case mx_listener_map mx fd of
        Some (Connection key _) \<Rightarrow>
          map_option snd (apply_conn_mutation U key (notify_fn U event_set) (h, mx))
      | Some HostSock \<Rightarrow>
          (if length (mx_conn_map mx) = MAX_CONNECTIONS then Some (snd (us_accept U h (mx_host_sock mx)), mx)
           else (case us_accept U h (mx_host_sock mx) of
               (Inl e, h1) \<Rightarrow> Some (h1, mx)
             | (Inr s, h1) \<Rightarrow> (case us_set_nonblocking U s of
                 Inl e \<Rightarrow> Some (h1, mx)
               | Inr stream \<Rightarrow> Some (snd (add_listener U (us_fd U stream) (LocalStream stream) (h1, mx))))))
      | Some (LocalStream _) \<Rightarrow>
          (case remove_listener U fd (h, mx) of
             (Some (LocalStream stream), (h1, mx1)) \<Rightarrow>
               (case read_local_stream_port U stream of
                  (Inl e, _) \<Rightarrow> Some (h1, mx1)
                | (Inr peer_port, stream1) \<Rightarrow> do {
                    (local_port, mx2) \<leftarrow> allocate_local_port mx1;
                    (_, st3) \<leftarrow> add_connection U \<lparr> k_local_port = local_port, k_peer_port = peer_port \<rparr>
                      (new_local_init stream1 VSOCK_HOST_CID (mx_cid mx2) local_port peer_port) (h1, mx2);
                    Some st3
                  })
           | (_, st1) \<Rightarrow> Some st1)
      | None \<Rightarrow> Some (h, mx))"

text \<open>
  \<^verbatim>\<open>EventSet::from_bits\<close> rejects masks with unknown bits; \<open>EventSet_ALL\<close> are the epoll flags of
  the crate.
\<close>

definition EventSet_ALL :: EventSet where
  "EventSet_ALL = 0x1 OR 0x2 OR 0x4 OR 0x8 OR 0x10 OR 0x2000 OR 0x10000000 OR 0x20000000 OR 0x40000000 OR 0x80000000"

fun handle_events :: "('h, 's) uds \<Rightarrow> (int \<times> EventSet) list \<Rightarrow> ('h, 's) mstate \<Rightarrow> ('h, 's) mstate option" where
  "handle_events U [] st = Some st"
| "handle_events U ((fd, bits) # evs) st = do {
     assert_that (bits AND NOT EventSet_ALL = 0);
     st1 \<leftarrow> handle_event U fd bits st;
     handle_events U evs st1
   }"

definition mux_notify :: "('h, 's) uds \<Rightarrow> ('h, 's) mstate \<Rightarrow> ('h, 's) mstate option" where
  "mux_notify U st =
     (let (h, mx) = st in case ep_wait U h 32 of
        (Inl e, h1) \<Rightarrow> Some (h1, mx)
      | (Inr evs, h1) \<Rightarrow> handle_events U evs (h1, mx))"

section \<open>Queues\<close>

lemma evict_conn_Some:
  "evict_conn rx qs = Some xs \<Longrightarrow>
   \<exists>as k bs. qs = as @ ConnRx k # bs \<and> xs = as @ rx # bs \<and> list_all (\<lambda>x. \<forall>k. x \<noteq> ConnRx k) as"
proof (induction rx qs arbitrary: xs rule: evict_conn.induct)
  case (2 rx k qs)
  then show ?case by (intro exI [of _ "[]"]) simp
next
  case (3 rx l p qs)
  then obtain ys where ys: "evict_conn rx qs = Some ys" "xs = RstPkt l p # ys" by auto
  then obtain as k bs where "qs = as @ ConnRx k # bs" "ys = as @ rx # bs" "list_all (\<lambda>x. \<forall>k. x \<noteq> ConnRx k) as"
    using 3 by blast
  then show ?case using ys(2) by (intro exI [of _ "RstPkt l p # as"]) simp
qed simp

lemma evict_conn_None: "evict_conn rx qs = None \<longleftrightarrow> (\<forall>k. ConnRx k \<notin> set qs)"
  by (induction rx qs rule: evict_conn.induct) auto

definition rxq_ok :: "MuxerRxQ \<Rightarrow> bool" where
  "rxq_ok q \<longleftrightarrow> length (rq_q q) \<le> MUXER_RXQ_SIZE"

lemma evict_conn_length: "evict_conn rx qs = Some xs \<Longrightarrow> length xs = length qs"
  by (auto dest!: evict_conn_Some)

lemma rxq_push_ok: "rxq_ok q \<Longrightarrow> rxq_ok (snd (rxq_push rx q))"
  by (auto simp: rxq_ok_def rxq_push_def rxq_is_full_def split: MuxerRx.split option.split
      dest: evict_conn_length)

text \<open>Pushing a connection key appends it, or gives up synchronization.\<close>

lemma rxq_push_conn:
  "snd (rxq_push (ConnRx k) q) =
     (if rq_synced q \<and> \<not> rxq_is_full q then q\<lparr>rq_q := rq_q q @ [ConnRx k]\<rparr> else q\<lparr>rq_synced := False\<rparr>)"
  by (simp add: rxq_push_def)

lemma rxq_push_rst:
  "rq_synced (snd (rxq_push (RstPkt l p) q)) \<Longrightarrow>
   rq_synced q \<and> set (rq_q q) \<subseteq> set (rq_q (snd (rxq_push (RstPkt l p) q)))"
  by (auto simp: rxq_push_def split: if_split_asm option.split_asm)

lemma rxq_fill_spec:
  "rxq_fill cs q = (q', synced) \<Longrightarrow> length q \<le> MUXER_RXQ_SIZE \<Longrightarrow>
   length q' \<le> MUXER_RXQ_SIZE \<and> set q \<subseteq> set q' \<and>
   (synced \<longrightarrow> (\<forall>(k, c) \<in> set cs. has_pending_rx c \<longrightarrow> ConnRx k \<in> set q'))"
proof (induction cs q rule: rxq_fill.induct)
  case (2 key conn cs q)
  then show ?case
    by (cases "has_pending_rx conn"; cases "MUXER_RXQ_SIZE \<le> length q") auto
qed auto

lemma rxq_from_conn_map_ok: "rxq_ok (rxq_from_conn_map cs)"
  using rxq_fill_spec [of cs "[]"] by (auto simp: rxq_from_conn_map_def rxq_ok_def split: prod.split)

lemma rxq_from_conn_map_covers:
  "rq_synced (rxq_from_conn_map cs) \<Longrightarrow> (k, c) \<in> set cs \<Longrightarrow> has_pending_rx c \<Longrightarrow>
   ConnRx k \<in> set (rq_q (rxq_from_conn_map cs))"
  using rxq_fill_spec [of cs "[]"] by (auto simp: rxq_from_conn_map_def split: prod.split_asm)

section \<open>Connections of a muxer\<close>

text \<open>The identity of a connection, which no operation changes.\<close>

definition c_ids :: "'s VsockConnection \<Rightarrow> u64 \<times> u64 \<times> u32 \<times> u32" where
  "c_ids c = (c_local_cid c, c_peer_cid c, c_local_port c, c_peer_port c)"

lemma c_ids_simps [simp]:
  "c_ids (kill c) = c_ids c" "c_ids (insert_pending it c) = c_ids c"
  "c_ids (c\<lparr>c_pending_rx := p\<rparr>) = c_ids c" "c_ids (c\<lparr>c_stream := s\<rparr>) = c_ids c"
  "c_ids (c\<lparr>c_state := st\<rparr>) = c_ids c" "c_ids (c\<lparr>c_expiry := e\<rparr>) = c_ids c"
  "c_ids (c\<lparr>c_last_fwd_cnt_to_peer := l\<rparr>) = c_ids c" "c_ids (c\<lparr>c_rx_cnt := r\<rparr>) = c_ids c"
  "c_ids (c\<lparr>c_tx_buf := t\<rparr>) = c_ids c" "c_ids (c\<lparr>c_fwd_cnt := f\<rparr>) = c_ids c"
  "c_ids (c\<lparr>c_peer_buf_alloc := a\<rparr>) = c_ids c" "c_ids (c\<lparr>c_peer_fwd_cnt := b\<rparr>) = c_ids c"
  by (simp_all add: c_ids_def kill_def insert_pending_def)

text \<open>Only the five indications occur in a pending set, so it is empty when it contains none.\<close>

definition prs_ok :: "PendingRxSet \<Rightarrow> bool" where
  "prs_ok p \<longleftrightarrow> (\<forall>i. 5 \<le> i \<longrightarrow> \<not> bit (prs_data p) i)"

lemma PendingRx_discr_5: "PendingRx_discr it < 5"
  by (cases it) simp_all

lemma prs_ok_simps [simp]:
  "prs_ok p \<Longrightarrow> prs_ok (prs_insert it p)" "prs_ok p \<Longrightarrow> prs_ok (snd (prs_remove it p))" "prs_ok (prs_from it)"
  using PendingRx_discr_5 [of it]
  by (auto simp: prs_ok_def prs_insert_def prs_remove_def prs_from_def into_mask_eq bit_or_iff bit_and_iff
      bit_exp_iff)

lemma prs_empty_iff:
  assumes "prs_ok p"
  shows "prs_is_empty p \<longleftrightarrow> (\<forall>it. \<not> prs_contains it p)"
proof
  assume n: "\<forall>it. \<not> prs_contains it p"
  have "\<not> bit (prs_data p) i" for i
  proof (cases "i < 5")
    case True
    then have "i = PendingRx_discr Request \<or> i = PendingRx_discr Response \<or> i = PendingRx_discr Rst \<or>
        i = PendingRx_discr Rw \<or> i = PendingRx_discr CreditUpdate"
      unfolding PendingRx_discr.simps by linarith
    then show ?thesis using n by (auto simp only: prs_contains_bit)
  next
    case False
    then show ?thesis using assms by (simp add: prs_ok_def)
  qed
  then show "prs_is_empty p" by (simp add: prs_is_empty_def bit_eq_iff)
qed (simp add: prs_is_empty_def prs_contains_def)

text \<open>What no operation of a connection changes.\<close>

definition conn_frame :: "'s VsockConnection \<Rightarrow> 's VsockConnection \<Rightarrow> bool" where
  "conn_frame c c' \<longleftrightarrow> c_ids c' = c_ids c \<and> (prs_ok (c_pending_rx c) \<longrightarrow> prs_ok (c_pending_rx c'))"

lemma conn_frame_kill [simp]: "conn_frame c (kill c)"
  by (simp add: conn_frame_def) (simp add: kill_def insert_pending_def)

lemma send_rest_frame: "send_rest G R m pkt len k c = Some (r, c') \<Longrightarrow> c_ids c' = c_ids c \<and> c_pending_rx c' = c_pending_rx c"
  by (auto simp: send_rest_def Let_def elim!: bindE split: if_split_asm)

lemma send_bytes_frame: "send_bytes G R w m pkt c = Some (r, c') \<Longrightarrow> c_ids c' = c_ids c \<and> c_pending_rx c' = c_pending_rx c"
  by (auto simp: send_bytes_def Let_def elim!: bindE split: if_split_asm sum.split_asm prod.split_asm
      dest!: send_rest_frame)

lemma insert_pending_rx: "c_pending_rx (insert_pending it c) = prs_insert it (c_pending_rx c)"
  "c_pending_rx (kill c) = prs_insert Rst (c_pending_rx c)"
  by (simp_all add: insert_pending_def kill_def)

lemma conn_send_pkt_frame: "conn_send_pkt G R w now m pkt c = Some (r, c') \<Longrightarrow> conn_frame c c'"
  by (cases "c_state c")
    (auto simp: conn_send_pkt_def conn_frame_def insert_pending_rx Let_def elim!: bindE
      split: if_split_asm sum.split_asm dest!: send_bytes_frame)

lemma recv_rw_frame: "recv_rw G R rd now m pkt c = (b, pkt', m', c') \<Longrightarrow> c_ids c' = c_ids c \<and> c_pending_rx c' = c_pending_rx c \<and>
    (c_state c \<noteq> Established \<longrightarrow> c_state c' \<noteq> Established)"
  by (cases "c_state c") (auto simp: recv_rw_def Let_def split: if_split_asm prod.split_asm sum.split_asm)

lemma conn_notify_frame: "conn_notify w evset c = Some c' \<Longrightarrow> conn_frame c c'"
  by (auto simp: conn_notify_def conn_frame_def insert_pending_rx Let_def elim!: bindE split: if_split_asm sum.split_asm)

text \<open>The cases of \<^verbatim>\<open>recv_pkt\<close>, with the pending set that is left.\<close>

lemma conn_recv_pkt_cases:
  assumes "conn_recv_pkt G R rd now m pkt c = (r, pkt', m', c')"
  shows "conn_frame c c'" "prs_contains Rst (c_pending_rx c) \<Longrightarrow> r = Inr ()"
    "isl r \<Longrightarrow> \<not> prs_contains it (c_pending_rx c')"
    "\<not> prs_contains Response (c_pending_rx c) \<Longrightarrow> c_state c \<noteq> Established \<Longrightarrow> c_state c' \<noteq> Established"
proof -
  have "conn_frame c c' \<and> (prs_contains Rst (c_pending_rx c) \<longrightarrow> r = Inr ()) \<and>
    (isl r \<longrightarrow> (\<forall>it. \<not> prs_contains it (c_pending_rx c'))) \<and>
    (\<not> prs_contains Response (c_pending_rx c) \<and> c_state c \<noteq> Established \<longrightarrow> c_state c' \<noteq> Established)"
    using assms
  proof (cases rule: conn_recv_pkt_split)
    case (data p b q c7)
    have c7: "c_ids c7 = c_ids c \<and> c_pending_rx c7 = p \<and> (c_state c \<noteq> Established \<longrightarrow> c_state c7 \<noteq> Established)"
    proof (cases "prs_contains Rw (c_pending_rx c)")
      case True
      then have rw: "recv_rw G R rd now m (init_pkt c pkt) (c\<lparr> c_pending_rx := p \<rparr>) = (b, q, m', c7)"
        using data(6) by simp
      show ?thesis using recv_rw_frame [OF rw] by auto
    next
      case False
      then show ?thesis using data(6) by simp
    qed
    have ok: "prs_ok (c_pending_rx c) \<Longrightarrow> prs_ok p" unfolding data(5) by simp
    have "\<not> prs_contains it (snd (prs_remove CreditUpdate p))" for it
      using data(4) [of it] by auto
    with data(7) show ?thesis
      using data(1) c7 ok by (elim disjE conjE) (auto simp: take_pending_eq conn_frame_def)
  qed (auto simp: take_pending_eq conn_frame_def)
  then show "conn_frame c c'" "prs_contains Rst (c_pending_rx c) \<Longrightarrow> r = Inr ()"
    "isl r \<Longrightarrow> \<not> prs_contains it (c_pending_rx c')"
    "\<not> prs_contains Response (c_pending_rx c) \<Longrightarrow> c_state c \<noteq> Established \<Longrightarrow> c_state c' \<noteq> Established"
    by blast+
qed

end
