(* ===== verification/Vsock_Muxer_Safety.thy ===== *)
theory Vsock_Muxer_Safety
  imports Vsock_Muxer "HOL-Library.Multiset"
begin

text \<open>
  The invariant of the vsock multiplexer, that each of its operations keeps it and returns, and
  that no pending indication of a connection is lost.
\<close>

section \<open>Invariant\<close>

definition conn_good :: "u64 \<Rightarrow> ConnMapKey \<Rightarrow> 's VsockConnection \<Rightarrow> bool" where
  "conn_good cid k c \<longleftrightarrow> tb_wf (c_tx_buf c) \<and> prs_ok (c_pending_rx c) \<and>
     (prs_contains Response (c_pending_rx c) \<longrightarrow> c_state c = PeerInit \<or> c_state c = Killed) \<and>
     c_ids c = (VSOCK_HOST_CID, cid, k_local_port k, k_peer_port k)"

text \<open>When the receive queue is synchronized, it has every connection with something to say.\<close>

definition rx_covered :: "'s VsockMuxer \<Rightarrow> bool" where
  "rx_covered mx \<longleftrightarrow> (rq_synced (mx_rxq mx) \<longrightarrow>
     (\<forall>k c. map_of (mx_conn_map mx) k = Some c \<and> has_pending_rx c \<longrightarrow> ConnRx k \<in> set (rq_q (mx_rxq mx))))"

definition mux_ok :: "'s VsockMuxer \<Rightarrow> bool" where
  "mux_ok mx \<longleftrightarrow> distinct (map fst (mx_conn_map mx)) \<and> length (mx_conn_map mx) \<le> MAX_CONNECTIONS \<and>
     (\<forall>k c. map_of (mx_conn_map mx) k = Some c \<longrightarrow> conn_good (mx_cid mx) k c) \<and>
     rxq_ok (mx_rxq mx) \<and> length (kq_q (mx_killq mx)) \<le> MUXER_KILLQ_SIZE \<and> rx_covered mx"

lemma mux_okD:
  assumes "mux_ok mx"
  shows "map_of (mx_conn_map mx) k = Some c \<Longrightarrow> conn_good (mx_cid mx) k c"
    and "rq_synced (mx_rxq mx) \<Longrightarrow> map_of (mx_conn_map mx) k = Some c \<Longrightarrow> has_pending_rx c \<Longrightarrow>
      ConnRx k \<in> set (rq_q (mx_rxq mx))"
    and "rxq_ok (mx_rxq mx)" "length (kq_q (mx_killq mx)) \<le> MUXER_KILLQ_SIZE"
    "length (mx_conn_map mx) \<le> MAX_CONNECTIONS" "distinct (map fst (mx_conn_map mx))"
  using assms by (auto simp: mux_ok_def rx_covered_def)

lemma mux_ok_frame [simp]:
  "mux_ok (mx\<lparr>mx_listener_map := lm\<rparr>) \<longleftrightarrow> mux_ok mx"
  "mux_ok (mx\<lparr>mx_local_port_set := ps\<rparr>) \<longleftrightarrow> mux_ok mx"
  "mux_ok (mx\<lparr>mx_local_port_last := p\<rparr>) \<longleftrightarrow> mux_ok mx"
  by (simp_all add: mux_ok_def rx_covered_def)

lemma mux_ok_killq:
  "mux_ok mx \<Longrightarrow> length (kq_q q) \<le> MUXER_KILLQ_SIZE \<Longrightarrow> mux_ok (mx\<lparr>mx_killq := q\<rparr>)"
  by (simp add: mux_ok_def rx_covered_def)

text \<open>How the queue changes: entries are kept while it stays synchronized.\<close>

definition rxq_ext :: "MuxerRxQ \<Rightarrow> MuxerRxQ \<Rightarrow> bool" where
  "rxq_ext q q' \<longleftrightarrow> (rxq_ok q \<longrightarrow> rxq_ok q') \<and> (rq_synced q' \<longrightarrow> rq_synced q \<and> set (rq_q q) \<subseteq> set (rq_q q'))"

lemma rxq_ext_refl [simp]: "rxq_ext q q"
  by (simp add: rxq_ext_def)

lemma rxq_ext_push [simp]: "rxq_ext q (snd (rxq_push rx q))"
  using rxq_push_ok [of q rx]
  by (cases rx) (auto simp: rxq_ext_def rxq_push_conn dest: rxq_push_rst split: if_splits)

lemma rxq_push_conn_in: "rq_synced (snd (rxq_push (ConnRx k) q)) \<Longrightarrow> ConnRx k \<in> set (rq_q (snd (rxq_push (ConnRx k) q)))"
  by (simp add: rxq_push_conn split: if_splits)

lemma mux_ok_rxq: "mux_ok mx \<Longrightarrow> rxq_ext (mx_rxq mx) q \<Longrightarrow> mux_ok (mx\<lparr>mx_rxq := q\<rparr>)"
  unfolding mux_ok_def rx_covered_def rxq_ext_def by (simp del: map_of_eq_Some_iff) blast

lemma mux_ok_push_rx: "mux_ok mx \<Longrightarrow> mux_ok (push_rx rx mx)"
  by (simp add: push_rx_def mux_ok_rxq)

lemma mux_ok_enq_rst: "mux_ok mx \<Longrightarrow> mux_ok (enq_rst l p mx)"
  by (simp add: enq_rst_def mux_ok_push_rx)

lemma length_update:
  "length (AList.update k v xs) = (if k \<in> fst ` set xs then length xs else Suc (length xs))"
  by (induction xs) auto

text \<open>Storing a connection, which is announced in the queue if it has something to say.\<close>

lemma mux_ok_put:
  assumes "mux_ok mx" "conn_good (mx_cid mx) k c"
    and "map_of (mx_conn_map mx) k \<noteq> None \<or> length (mx_conn_map mx) < MAX_CONNECTIONS"
    and "rxq_ext (mx_rxq mx) q" "rq_synced q \<Longrightarrow> has_pending_rx c \<Longrightarrow> ConnRx k \<in> set (rq_q q)"
  shows "mux_ok (mx\<lparr>mx_conn_map := AList.update k c (mx_conn_map mx), mx_rxq := q\<rparr>)"
  using assms
  by (auto simp: mux_ok_def rx_covered_def rxq_ext_def update_conv distinct_update length_update map_of_eq_None_iff)
    blast+

lemma mux_update_swap: "mx\<lparr>mx_rxq := q, mx_conn_map := cm\<rparr> = mx\<lparr>mx_conn_map := cm, mx_rxq := q\<rparr>"
  by simp

lemma push_put: "push_rx rx (put_conn k c mx) =
    mx\<lparr>mx_conn_map := AList.update k c (mx_conn_map mx), mx_rxq := snd (rxq_push rx (mx_rxq mx))\<rparr>"
  "put_conn k c (push_rx rx mx) =
    mx\<lparr>mx_conn_map := AList.update k c (mx_conn_map mx), mx_rxq := snd (rxq_push rx (mx_rxq mx))\<rparr>"
  by (simp_all add: push_rx_def put_conn_def)

lemma put_same: "put_conn k c mx = mx\<lparr>mx_conn_map := AList.update k c (mx_conn_map mx), mx_rxq := mx_rxq mx\<rparr>"
  by (simp add: put_conn_def)

lemma conn_good_kill: "conn_good cid k c \<Longrightarrow> conn_good cid k (kill c)"
  by (auto simp: conn_good_def insert_pending_rx)

lemma mux_ok_kill: "mux_ok mx \<Longrightarrow> mux_ok (kill_connection key mx)"
proof (cases "map_of (mx_conn_map mx) key")
  case (Some c)
  assume ok: "mux_ok mx"
  note g = conn_good_kill [OF mux_okD(1) [OF ok Some]]
  show ?thesis
  proof (cases "has_pending_rx c")
    case True
    then show ?thesis
      using mux_ok_put [OF ok g, of "mx_rxq mx"] mux_okD(2) [OF ok _ Some] Some
      by (simp add: kill_connection_def put_same)
  next
    case False
    then show ?thesis
      using mux_ok_put [OF ok g, of "snd (rxq_push (ConnRx key) (mx_rxq mx))"] Some rxq_push_conn_in
      by (simp add: kill_connection_def push_put)
  qed
qed (simp add: kill_connection_def mux_ok_push_rx)

text \<open>
  What most operations do: the guest's context identifier stays, no local port is taken, and the
  invariant is kept.
\<close>

definition mux_keeps :: "'s VsockMuxer \<Rightarrow> 's VsockMuxer \<Rightarrow> bool" where
  "mux_keeps mx mx' \<longleftrightarrow> mx_cid mx' = mx_cid mx \<and> mx_local_port_set mx' \<subseteq> mx_local_port_set mx \<and>
     mx_local_port_last mx' = mx_local_port_last mx \<and> (mux_ok mx \<longrightarrow> mux_ok mx')"

lemma keeps_refl [simp]: "mux_keeps mx mx"
  by (simp add: mux_keeps_def)

lemma keeps_trans [trans]: "mux_keeps mx mx1 \<Longrightarrow> mux_keeps mx1 mx2 \<Longrightarrow> mux_keeps mx mx2"
  by (auto simp: mux_keeps_def)

lemma keeps_push_rx: "mux_keeps mx (push_rx rx mx)"
  by (simp add: mux_keeps_def mux_ok_push_rx) (simp add: push_rx_def)

lemma keeps_enq_rst: "mux_keeps mx (enq_rst l p mx)"
  by (simp add: enq_rst_def keeps_push_rx)

lemma keeps_kill: "mux_keeps mx (kill_connection key mx)"
  by (simp add: mux_keeps_def mux_ok_kill)

lemma keeps_delete: "mux_keeps mx (mx\<lparr>mx_conn_map := AList.delete k (mx_conn_map mx)\<rparr>)"
  using length_delete_le [of k "mx_conn_map mx"]
  by (auto simp: mux_keeps_def mux_ok_def rx_covered_def delete_conv distinct_delete simp del: map_of_eq_Some_iff)

lemma keeps_free_local_port: "mux_keeps mx (free_local_port p mx)"
  by (auto simp: mux_keeps_def free_local_port_def)

lemma keeps_listener: "mux_keeps mx (mx\<lparr>mx_listener_map := lm\<rparr>)"
  by (simp add: mux_keeps_def)

lemma keeps_killq: "length (kq_q q) \<le> length (kq_q (mx_killq mx)) \<or> length (kq_q q) \<le> MUXER_KILLQ_SIZE \<Longrightarrow>
    mux_keeps mx (mx\<lparr>mx_killq := q\<rparr>)"
  by (auto simp: mux_keeps_def mux_ok_def rx_covered_def)

lemma remove_listener_eq:
  "\<exists>h' lm. snd (remove_listener U fd (h, mx)) = (h', mx\<lparr>mx_listener_map := lm\<rparr>)"
  by (auto simp: remove_listener_def split: option.split intro: exI [of _ "mx_listener_map mx"])

lemma add_listener_eq:
  "\<exists>h' lm. snd (add_listener U fd l (h, mx)) = (h', mx\<lparr>mx_listener_map := lm\<rparr>)"
  by (auto simp: add_listener_def Let_def split: prod.split sum.split intro: exI [of _ "mx_listener_map mx"])

lemma keeps_remove_listener: "remove_listener U fd (h, mx) = (l, h', mx') \<Longrightarrow> mux_keeps mx mx'"
  using remove_listener_eq [of U fd h mx] by (auto simp: keeps_listener)

lemma keeps_add_listener: "add_listener U fd l (h, mx) = (r, h', mx') \<Longrightarrow> mux_keeps mx mx'"
  using add_listener_eq [of U fd l h mx] by (auto simp: keeps_listener)

lemma keeps_remove_connection:
  assumes "remove_connection U key (h, mx) = (h', mx')"
  shows "mux_keeps mx mx'"
proof (cases "map_of (mx_conn_map mx) key")
  case (Some c)
  let ?mx = "mx\<lparr>mx_conn_map := AList.delete key (mx_conn_map mx)\<rparr>"
  obtain l h1 mx1 where l: "remove_listener U (us_fd U (c_stream c)) (h, ?mx) = (l, h1, mx1)"
    by (cases "remove_listener U (us_fd U (c_stream c)) (h, ?mx)")
  then have "mx' = free_local_port (k_local_port key) mx1"
    using assms Some by (auto simp: remove_connection_def)
  then show ?thesis
    using keeps_trans [OF keeps_trans [OF keeps_delete keeps_remove_listener [OF l]] keeps_free_local_port] by simp
qed (use assms in \<open>auto simp: remove_connection_def keeps_free_local_port\<close>)

section \<open>Sweeping the kill queue\<close>

lemma killq_pop_le: "killq_pop U h q = (r, h1, q1) \<Longrightarrow> length (kq_q q1) \<le> length (kq_q q)"
  by (auto simp: killq_pop_def Let_def split: list.split_asm if_split_asm prod.split_asm)

declare sweep_pop.simps [simp del]

text \<open>Whether a popped connection is killed, and the host after looking.\<close>

definition pop_verdict :: "('h, 's) uds \<Rightarrow> 'h \<Rightarrow> 's ConnMap \<Rightarrow> ConnMapKey \<Rightarrow> bool \<times> 'h" where
  "pop_verdict U h cs key = (case map_of cs key of None \<Rightarrow> (False, h) | Some conn \<Rightarrow> read_has_expired U h conn)"

lemma sweep_pop_None: "killq_pop U h (mx_killq mx) = (None, h1, q) \<Longrightarrow> sweep_pop U (h, mx) = (h1, mx\<lparr>mx_killq := q\<rparr>)"
  by (simp add: sweep_pop.simps)

lemma sweep_pop_Some:
  assumes "killq_pop U h (mx_killq mx) = (Some key, h1, q)" "pop_verdict U h1 (mx_conn_map mx) key = (b, h2)"
  shows "sweep_pop U (h, mx) =
    sweep_pop U (h2, if b then kill_connection key (mx\<lparr>mx_killq := q\<rparr>) else mx\<lparr>mx_killq := q\<rparr>)"
  using assms(2) by (subst sweep_pop.simps) (simp add: assms(1) pop_verdict_def)

lemma sweep_pop_rule [consumes 1, case_names pop_none pop_some]:
  assumes s: "sweep_pop U (h, mx) = (h', mx')"
    and none: "\<And>h mx h1 q. killq_pop U h (mx_killq mx) = (None, h1, q) \<Longrightarrow> P h mx h1 (mx\<lparr>mx_killq := q\<rparr>)"
    and some: "\<And>h mx key h1 q b h2 h' mx'. killq_pop U h (mx_killq mx) = (Some key, h1, q) \<Longrightarrow>
      pop_verdict U h1 (mx_conn_map mx) key = (b, h2) \<Longrightarrow>
      P h2 (if b then kill_connection key (mx\<lparr>mx_killq := q\<rparr>) else mx\<lparr>mx_killq := q\<rparr>) h' mx' \<Longrightarrow> P h mx h' mx'"
  shows "P h mx h' mx'"
  using s
proof (induction "length (kq_q (mx_killq mx))" arbitrary: h mx rule: less_induct)
  case less
  obtain r h1 q where p: "killq_pop U h (mx_killq mx) = (r, h1, q)" by (cases "killq_pop U h (mx_killq mx)")
  show ?case
  proof (cases r)
    case None
    then show ?thesis using p less(2) none sweep_pop_None by fastforce
  next
    case (Some key)
    obtain b h2 where v: "pop_verdict U h1 (mx_conn_map mx) key = (b, h2)" by fastforce
    note p = p [unfolded Some]
    let ?mx = "if b then kill_connection key (mx\<lparr>mx_killq := q\<rparr>) else mx\<lparr>mx_killq := q\<rparr>"
    have "length (kq_q (mx_killq ?mx)) < length (kq_q (mx_killq mx))" using killq_pop_length [OF p] by simp
    then have "P h2 ?mx h' mx'"
      using less(1) [of ?mx h2] less(2) sweep_pop_Some [OF p v] by simp
    then show ?thesis by (rule some [OF p v])
  qed
qed

lemma sweep_pop_synced: "sweep_pop U (h, mx) = (h', mx') \<Longrightarrow> kq_synced (mx_killq mx') = kq_synced (mx_killq mx)"
proof (induction rule: sweep_pop_rule)
  case (pop_none h mx h1 q)
  then show ?case by (auto simp: killq_pop_def Let_def split: list.split_asm if_split_asm prod.split_asm)
next
  case (pop_some h mx key h1 q b h2 h' mx')
  have "kq_synced q = kq_synced (mx_killq mx)"
    using pop_some(1) by (auto simp: killq_pop_def Let_def split: list.split_asm if_split_asm prod.split_asm)
  then show ?case using pop_some(3) by (simp split: if_split_asm)
qed

lemma keeps_sweep_pop: "sweep_pop U (h, mx) = (h', mx') \<Longrightarrow> mux_keeps mx mx'"
proof (induction rule: sweep_pop_rule)
  case (pop_none h mx h1 q)
  then show ?case using killq_pop_le [OF pop_none] by (simp add: keeps_killq)
next
  case (pop_some h mx key h1 q b h2 h' mx')
  have "mux_keeps mx (mx\<lparr>mx_killq := q\<rparr>)"
    using killq_pop_le [OF pop_some(1)] by (simp add: keeps_killq)
  also have "mux_keeps (mx\<lparr>mx_killq := q\<rparr>)
      (if b then kill_connection key (mx\<lparr>mx_killq := q\<rparr>) else mx\<lparr>mx_killq := q\<rparr>)"
    by (simp add: keeps_kill)
  finally show ?case using pop_some(3) keeps_trans by blast
qed

lemma killq_fill_length:
  "killq_fill U h cs q = Some (q', s, h') \<Longrightarrow> length q \<le> MUXER_KILLQ_SIZE \<Longrightarrow> length q' \<le> MUXER_KILLQ_SIZE"
  by (induction U h cs q rule: killq_fill.induct) (auto split: if_split_asm prod.split_asm elim!: bindE)

lemma killq_from_conn_map_length:
  "killq_from_conn_map U h cs = Some (q, h') \<Longrightarrow> length (kq_q q) \<le> MUXER_KILLQ_SIZE"
  by (auto simp: killq_from_conn_map_def dest: killq_fill_length elim!: bindE)

lemma keeps_sweep_killq:
  assumes "sweep_killq U (h, mx) = Some (h', mx')"
  shows "mux_keeps mx mx'"
proof -
  have "mux_keeps (snd (h, mx)) (snd (h', mx'))"
  proof (rule sweep_killq.raw_induct [OF _ assms, of "\<lambda>_ st st'. mux_keeps (snd st) (snd st')"])
    fix f U and st st' :: "('a, 'b) mstate"
    assume IH: "\<And>U st st'. f U st = Some st' \<Longrightarrow> mux_keeps (snd st) (snd st')"
      and r: "(case sweep_pop U st of (h, mx) \<Rightarrow>
          if killq_is_empty (mx_killq mx) \<and> \<not> kq_synced (mx_killq mx)
          then killq_from_conn_map U h (us_iter U (mx_conn_map mx)) \<bind>
            (\<lambda>(q, h1). f U (h1, mx\<lparr> mx_killq := q \<rparr>))
          else Some (h, mx)) = Some st'"
    obtain h mx where s: "sweep_pop U st = (h, mx)" by fastforce
    have k: "mux_keeps (snd st) mx" using keeps_sweep_pop [of U "fst st" "snd st"] s by simp
    show "mux_keeps (snd st) (snd st')"
    proof (cases "killq_is_empty (mx_killq mx) \<and> \<not> kq_synced (mx_killq mx)")
      case False
      then show ?thesis using r s k by auto
    next
      case True
      then obtain q h1 where q: "killq_from_conn_map U h (us_iter U (mx_conn_map mx)) = Some (q, h1)"
          "f U (h1, mx\<lparr>mx_killq := q\<rparr>) = Some st'"
        using r s by (auto elim!: bindE)
      have "mux_keeps mx (mx\<lparr>mx_killq := q\<rparr>)"
        using killq_from_conn_map_length [OF q(1)] by (simp add: keeps_killq)
      then show ?thesis using keeps_trans [OF keeps_trans [OF k]] IH [OF q(2)] by simp
    qed
  qed
  then show ?thesis by simp
qed

section \<open>Adding connections\<close>

lemma keeps_add_connection:
  assumes "add_connection U key conn (h, mx) = Some (r, (h', mx'))" "conn_good (mx_cid mx) key conn"
  shows "mux_keeps mx mx'"
proof -
  obtain h1 mx1 where s: "sweep_killq U (h, mx) = Some (h1, mx1)"
    using assms(1) by (auto simp: add_connection_def elim!: bindE)
  note k = keeps_sweep_killq [OF s]
  obtain r2 h2 mx2 where l: "add_listener U (us_fd U (c_stream conn)) (Connection key (get_polled_evset conn)) (h1, mx1)
      = (r2, h2, mx2)"
    by (cases "add_listener U (us_fd U (c_stream conn)) (Connection key (get_polled_evset conn)) (h1, mx1)")
  note k2 = keeps_trans [OF k keeps_add_listener [OF l]]
  have cm: "mx_conn_map mx2 = mx_conn_map mx1"
    using add_listener_eq [of U "us_fd U (c_stream conn)" "Connection key (get_polled_evset conn)" h1 mx1] l by auto
  let ?q = "if has_pending_rx conn then snd (rxq_push (ConnRx key) (mx_rxq mx2)) else mx_rxq mx2"
  have "mux_keeps mx (mx2\<lparr>mx_conn_map := AList.update key conn (mx_conn_map mx2), mx_rxq := ?q\<rparr>)"
    if "length (mx_conn_map mx1) < MAX_CONNECTIONS"
    using k2 that cm assms(2) rxq_push_conn_in [of key "mx_rxq mx2"] mux_ok_put [of mx2 key conn ?q]
    by (simp add: mux_keeps_def)
  then show ?thesis
    using assms(1) s l k k2
    by (auto simp: add_connection_def push_rx_def put_conn_def mux_update_swap Let_def split: if_split_asm sum.split_asm)
qed

lemma conn_good_new [simp]:
  "conn_good cid \<lparr>k_local_port = lp, k_peer_port = pp\<rparr> (new_peer_init s VSOCK_HOST_CID cid lp pp ba)"
  "conn_good cid \<lparr>k_local_port = lp, k_peer_port = pp\<rparr> (new_local_init s VSOCK_HOST_CID cid lp pp)"
  by (simp_all add: conn_good_def new_peer_init_def new_local_init_def c_ids_def)

declare dec_string.simps [simp del]

lemma keeps_handle_peer_request_pkt:
  assumes "handle_peer_request_pkt U pkt (h, mx) = Some (h', mx')"
  shows "mux_keeps mx mx'"
  using assms
  by (auto simp: handle_peer_request_pkt_def Let_def split: prod.split_asm sum.split_asm elim!: bindE
      intro: keeps_enq_rst keeps_trans [OF _ keeps_enq_rst] dest!: keeps_add_connection)

section \<open>Mutating a connection\<close>

lemma update_listener_eq:
  "\<exists>h' lm. update_listener U key c (h, mx) = (h', mx\<lparr>mx_listener_map := lm\<rparr>) \<or>
     update_listener U key c (h, mx) = (h', kill_connection key (mx\<lparr>mx_listener_map := lm\<rparr>))"
proof (cases "get_polled_evset c = 0")
  case True
  then show ?thesis
    using remove_listener_eq [of U "us_fd U (c_stream c)" h mx] by (auto simp: update_listener_def)
next
  case False
  obtain r h1 mx1 where l: "add_listener U (us_fd U (c_stream c)) (Connection key (get_polled_evset c)) (h, mx)
      = (r, h1, mx1)"
    by (cases "add_listener U (us_fd U (c_stream c)) (Connection key (get_polled_evset c)) (h, mx)")
  then obtain lm where lm: "mx1 = mx\<lparr>mx_listener_map := lm\<rparr>"
    using add_listener_eq [of U "us_fd U (c_stream c)" "Connection key (get_polled_evset c)" h mx] by auto
  obtain r2 h2 where m: "ep_ctl U h Modify (us_fd U (c_stream c)) (get_polled_evset c) = (r2, h2)" by fastforce
  show ?thesis
  proof (cases "\<exists>key1 evset. mx_listener_map mx (us_fd U (c_stream c)) = Some (Connection key1 evset)")
    case True
    then obtain key1 evset where k: "mx_listener_map mx (us_fd U (c_stream c)) = Some (Connection key1 evset)" by blast
    show ?thesis
    proof (cases "evset = get_polled_evset c")
      case True
      then have "update_listener U key c (h, mx) = (h, mx\<lparr>mx_listener_map := mx_listener_map mx\<rparr>)"
        using False k by (simp add: update_listener_def)
      then show ?thesis by blast
    next
      case diff: False
      then show ?thesis using False k m by (cases r2) (auto simp: update_listener_def)
    qed
  next
    case other: False
    then have "update_listener U key c (h, mx) = (h1, case r of Inl _ \<Rightarrow> kill_connection key mx1 | Inr _ \<Rightarrow> mx1)"
      using False l by (auto simp: update_listener_def Let_def split: option.split EpollListener.split)
    then show ?thesis unfolding lm by (cases r) auto
  qed
qed

text \<open>The muxer after a mutation of a connection, before its listener is updated.\<close>

definition mutated :: "ConnMapKey \<Rightarrow> 's VsockConnection \<Rightarrow> 's VsockConnection \<Rightarrow> MuxerKillQ \<Rightarrow>
    (int \<Rightarrow> 's EpollListener option) \<Rightarrow> 's VsockMuxer \<Rightarrow> 's VsockMuxer" where
  "mutated key c c' kq lm mx = mx\<lparr>mx_conn_map := AList.update key c' (mx_conn_map mx),
     mx_rxq := if \<not> has_pending_rx c \<and> has_pending_rx c' then snd (rxq_push (ConnRx key) (mx_rxq mx)) else mx_rxq mx,
     mx_killq := kq, mx_listener_map := lm\<rparr>"

lemma killq_push_length: "length (kq_q q) \<le> MUXER_KILLQ_SIZE \<Longrightarrow> length (kq_q (killq_push k t q)) \<le> MUXER_KILLQ_SIZE"
  by (auto simp: killq_push_def killq_is_full_def)

lemma read_will_expire_Some: "read_will_expire U h c = (True, h') \<Longrightarrow> \<exists>t. c_expiry c = Some t"
  by (auto simp: read_will_expire_def split: if_split_asm)

lemma apply_conn_mutation_absent:
  "map_of (mx_conn_map mx) key = None \<Longrightarrow> apply_conn_mutation U key f (h, mx) = Some (None, (h, mx))"
  by (simp add: apply_conn_mutation_def)

lemma apply_conn_mutation_present:
  assumes "map_of (mx_conn_map mx) key = Some c" "read_will_expire U h c = (b, h1)" "f h1 c = Some (x, h2, c1)"
  defines "c2 \<equiv> ack_local U key (c_state c) c1"
  shows "\<exists>h' kq lm mx'. apply_conn_mutation U key f (h, mx) = Some (Some x, (h', mx')) \<and>
    (kq = mx_killq mx \<or> (\<exists>t. kq = killq_push key t (mx_killq mx))) \<and>
    (mx' = mutated key c c2 kq lm mx \<or> mx' = kill_connection key (mutated key c c2 kq lm mx))"
proof -
  define q where "q = (if \<not> has_pending_rx c \<and> has_pending_rx c2 then snd (rxq_push (ConnRx key) (mx_rxq mx)) else mx_rxq mx)"
  have q: "(if \<not> has_pending_rx c \<and> has_pending_rx c2 then push_rx (ConnRx key) (put_conn key c2 mx) else put_conn key c2 mx)
      = mx\<lparr>mx_conn_map := AList.update key c2 (mx_conn_map mx), mx_rxq := q\<rparr>"
    by (simp add: q_def push_rx_def put_conn_def)
  obtain e h3 where e: "(if b then (False, h2) else read_will_expire U h2 c2) = (e, h3)" by fastforce
  obtain t where t: "e \<longrightarrow> c_expiry c2 = Some t"
    using e read_will_expire_Some [of U h2 c2 h3] by (auto split: if_split_asm)
  define kq where "kq = (if e then killq_push key t (mx_killq mx) else mx_killq mx)"
  define mx3 where "mx3 = mx\<lparr>mx_conn_map := AList.update key c2 (mx_conn_map mx), mx_rxq := q, mx_killq := kq\<rparr>"
  have m: "apply_conn_mutation U key f (h, mx) = Some (Some x, update_listener U key c2 (h3, mx3))"
    using assms(1-3) e t
    by (cases e) (simp_all add: apply_conn_mutation_def c2_def [symmetric] q mx3_def kq_def)
  obtain h' lm where u: "update_listener U key c2 (h3, mx3) = (h', mx3\<lparr>mx_listener_map := lm\<rparr>) \<or>
      update_listener U key c2 (h3, mx3) = (h', kill_connection key (mx3\<lparr>mx_listener_map := lm\<rparr>))"
    using update_listener_eq [of U key c2 h3 mx3] by (elim exE) blast
  have mm: "mx3\<lparr>mx_listener_map := lm\<rparr> = mutated key c c2 kq lm mx"
    by (simp add: mx3_def mutated_def q_def)
  have "kq = mx_killq mx \<or> (\<exists>t. kq = killq_push key t (mx_killq mx))" by (auto simp: kq_def)
  then show ?thesis using m u unfolding mm by metis
qed

lemma apply_conn_mutation_cases [consumes 1, case_names absent present]:
  assumes a: "apply_conn_mutation U key f (h, mx) = Some (r, (h', mx'))"
  obtains (absent) "map_of (mx_conn_map mx) key = None" "r = None" "h' = h" "mx' = mx"
  | (present) c h1 x h2 c1 kq lm where "map_of (mx_conn_map mx) key = Some c" "h1 = snd (read_will_expire U h c)"
    "f h1 c = Some (x, h2, c1)" "r = Some x"
    "length (kq_q (mx_killq mx)) \<le> MUXER_KILLQ_SIZE \<Longrightarrow> length (kq_q kq) \<le> MUXER_KILLQ_SIZE"
    "mx' = mutated key c (ack_local U key (c_state c) c1) kq lm mx \<or>
     mx' = kill_connection key (mutated key c (ack_local U key (c_state c) c1) kq lm mx)"
proof (cases "map_of (mx_conn_map mx) key")
  case None
  then have "Some (r, (h', mx')) = Some (None, (h, mx))"
    using a apply_conn_mutation_absent [OF None, of U f h] by simp
  then show ?thesis using absent [OF None] by simp
next
  case (Some c)
  obtain b h1 where h1: "read_will_expire U h c = (b, h1)" by fastforce
  obtain x h2 c1 where f: "f h1 c = Some (x, h2, c1)"
    using a Some h1 by (cases "f h1 c") (auto simp: apply_conn_mutation_def Let_def)
  obtain kq lm where "r = Some x" and kq: "kq = mx_killq mx \<or> (\<exists>t. kq = killq_push key t (mx_killq mx))"
    and "mx' = mutated key c (ack_local U key (c_state c) c1) kq lm mx \<or>
      mx' = kill_connection key (mutated key c (ack_local U key (c_state c) c1) kq lm mx)"
    using apply_conn_mutation_present [OF Some h1, of f x h2 c1] f a by auto
  moreover have "length (kq_q (mx_killq mx)) \<le> MUXER_KILLQ_SIZE \<Longrightarrow> length (kq_q kq) \<le> MUXER_KILLQ_SIZE"
    using kq killq_push_length by auto
  ultimately show ?thesis using present [of c h1 x h2 c1 kq lm] Some f h1 by simp
qed

lemma mutated_ok:
  assumes "mux_ok mx" "map_of (mx_conn_map mx) key = Some c" "conn_good (mx_cid mx) key c'"
    and "length (kq_q kq) \<le> MUXER_KILLQ_SIZE"
  shows "mux_ok (mutated key c c' kq lm mx)"
proof -
  let ?q = "if \<not> has_pending_rx c \<and> has_pending_rx c' then snd (rxq_push (ConnRx key) (mx_rxq mx)) else mx_rxq mx"
  have "mux_ok (mx\<lparr>mx_conn_map := AList.update key c' (mx_conn_map mx), mx_rxq := ?q\<rparr>)"
    using assms(2) mux_okD(2) [OF assms(1) _ assms(2)] rxq_push_conn_in
    by (intro mux_ok_put [OF assms(1,3)]) auto
  then show ?thesis unfolding mutated_def mux_ok_frame by (rule mux_ok_killq [OF _ assms(4)])
qed

lemma mutated_frame [simp]:
  "mx_cid (mutated key c c' kq lm mx) = mx_cid mx"
  "mx_local_port_set (mutated key c c' kq lm mx) = mx_local_port_set mx"
  "mx_local_port_last (mutated key c c' kq lm mx) = mx_local_port_last mx"
  by (simp_all add: mutated_def)

lemma keeps_apply_conn_mutation:
  assumes "apply_conn_mutation U key f (h, mx) = Some (r, (h', mx'))"
    and "\<And>h1 c x h2 c1. conn_good (mx_cid mx) key c \<Longrightarrow> f h1 c = Some (x, h2, c1) \<Longrightarrow>
      conn_good (mx_cid mx) key (ack_local U key (c_state c) c1)"
  shows "mux_keeps mx mx'"
  using assms(1)
proof (cases rule: apply_conn_mutation_cases)
  case (present c h1 x h2 c1 kq lm)
  let ?mx = "mutated key c (ack_local U key (c_state c) c1) kq lm mx"
  have "mux_ok ?mx" if "mux_ok mx"
    using mutated_ok [OF that present(1) assms(2) [OF mux_okD(1) [OF that present(1)] present(3)]]
      present(5) [OF mux_okD(4) [OF that]] by blast
  then have "mux_keeps mx ?mx" by (simp add: mux_keeps_def)
  then show ?thesis using present(6) keeps_trans [OF _ keeps_kill] by blast
qed simp

lemma conn_good_moves:
  assumes "conn_good cid k c" "conn_frame c c'" "moves_data out c c'"
  shows "conn_good cid k c'"
  using assms by (auto simp: conn_good_def conn_frame_def moves_data_def)

lemma conn_good_ack: "conn_good cid k c \<Longrightarrow> conn_good cid k (ack_local U key st c)"
  by (auto simp: ack_local_def send_bytes_raw_def Let_def conn_good_kill split: prod.split sum.split)
    (auto simp: conn_good_def insert_pending_rx)

section \<open>Host\<close>

text \<open>
  What the muxer relies on: \<^verbatim>\<open>Instant::now\<close> is monotonic, \<^verbatim>\<open>HashMap::iter\<close> visits every entry
  once, and \<^verbatim>\<open>epoll_wait\<close> reports at most as many events as asked for, with only epoll flags.
\<close>

locale uds_env = vsock_env G in_rng byte R "us_write U" out "us_read U"
  for G :: "('m, 'e) gmem" and in_rng byte and R :: "('m, 'r, 'e, 's) guest_regions"
    and U :: "('h, 's) uds" and out +
  fixes clk :: "'h \<Rightarrow> nat"
  assumes now_mono: "us_now U h = (t, h') \<Longrightarrow> clk h \<le> t \<and> t \<le> clk h'"
    and iter_mset: "mset (us_iter U cs) = mset cs"
    and wait_len: "ep_wait U h n = (Inr evs, h') \<Longrightarrow> length evs \<le> n"
    and wait_flags: "ep_wait U h n = (Inr evs, h') \<Longrightarrow> (fd, bits) \<in> set evs \<Longrightarrow> bits AND NOT EventSet_ALL = 0"
begin

lemma good_send:
  assumes "conn_good cid k c" "buf_size pkt < 2 ^ 64"
  obtains c' where "conn_send_pkt G R (us_write U) now m pkt c = Some (Inr (), c')" "conn_good cid k c'"
proof -
  obtain c' where c: "conn_send_pkt G R (us_write U) now m pkt c = Some (Inr (), c')"
    "moves_data out c c' \<or> \<not> prs_contains Response (c_pending_rx c') \<and> tb_wf (c_tx_buf c')"
    using conn_send_pkt_cases [of c pkt now m] assms by (auto simp: conn_good_def)
  have "conn_good cid k c'"
    using c(2) conn_send_pkt_frame [OF c(1)] assms(1) conn_good_moves [of cid k c c' out]
    by (auto simp: conn_good_def conn_frame_def)
  then show ?thesis using that c(1) by blast
qed

lemma good_recv:
  assumes "conn_good cid k c" "buf_size pkt < 2 ^ 64" "conn_recv_pkt G R (us_read U) now m pkt c = (r, pkt', m', c')"
  shows "conn_good cid k c'"
  using conn_good_moves [OF assms(1) conn_recv_pkt_cases(1) [OF assms(3)] conn_recv_pkt_moves [OF assms(3)]] assms
  by (simp add: conn_good_def)

lemma good_notify:
  assumes "conn_good cid k c"
  obtains c' where "conn_notify (us_write U) evset c = Some c'" "conn_good cid k c'"
  using conn_notify_moves [of c evset] conn_good_moves [OF assms conn_notify_frame] assms
  by (auto simp: conn_good_def)

subsection \<open>The sweep ends\<close>

lemma has_expired_mono: "read_has_expired U h c = (b, h') \<Longrightarrow> clk h \<le> clk h'"
  by (auto simp: read_has_expired_def split: if_split_asm prod.split_asm dest!: now_mono)

lemma will_expire_mono: "read_will_expire U h c = (b, h') \<Longrightarrow> clk h \<le> clk h'"
  by (auto simp: read_will_expire_def split: if_split_asm prod.split_asm dest!: now_mono)

lemma will_expire_after: "read_will_expire U h c = (True, h') \<Longrightarrow> \<exists>t. c_expiry c = Some t \<and> clk h < t"
  by (fastforce simp: read_will_expire_def will_expire_def split: if_split_asm prod.split_asm option.split_asm dest!: now_mono)

lemma killq_pop_mono: "killq_pop U h q = (r, h', q') \<Longrightarrow> clk h \<le> clk h'"
  by (auto simp: killq_pop_def Let_def split: list.split_asm if_split_asm prod.split_asm dest!: now_mono)

lemma killq_pop_time:
  "killq_pop U h q = (Some key, h', q') \<Longrightarrow> \<exists>it rest. kq_q q = it # rest \<and> ki_kill_time it < clk h'"
  by (fastforce simp: killq_pop_def Let_def split: list.split_asm if_split_asm prod.split_asm dest!: now_mono)

lemma pop_verdict_mono: "pop_verdict U h cs key = (b, h') \<Longrightarrow> clk h \<le> clk h'"
  by (auto simp: pop_verdict_def split: option.split_asm dest: has_expired_mono)

lemma killq_fill_returns:
  "\<exists>q' s h'. killq_fill U h cs q = Some (q @ q', s, h') \<and> clk h \<le> clk h' \<and>
     (\<forall>it\<in>set q'. \<exists>k c. (k, c) \<in> set cs \<and> c_expiry c = Some (ki_kill_time it) \<and> clk h < ki_kill_time it) \<and>
     (\<not> s \<longrightarrow> MUXER_KILLQ_SIZE \<le> length (q @ q'))"
proof (induction cs arbitrary: h q)
  case (Cons x cs)
  obtain key conn where x: "x = (key, conn)" by fastforce
  obtain b h1 where e: "read_will_expire U h conn = (b, h1)" by fastforce
  note m = will_expire_mono [OF e]
  show ?case
  proof (cases b)
    case False
    then show ?thesis using Cons [of h1 q] e m unfolding x by fastforce
  next
    case True
    obtain t where t: "c_expiry conn = Some t" "clk h < t" using will_expire_after [of h conn h1] e True by auto
    show ?thesis
    proof (cases "MUXER_KILLQ_SIZE \<le> length q")
      case True2: True
      then show ?thesis using e True m unfolding x by (intro exI [of _ "[]"] exI [of _ False] exI [of _ h1]) simp
    next
      case False
      then show ?thesis
        using Cons [of h1 "q @ [\<lparr>ki_key = key, ki_kill_time = t\<rparr>]"] e True m t unfolding x by fastforce
    qed
  qed
qed (simp add: exI [of _ True])

lemma killq_from_conn_map_returns:
  obtains q h' where "killq_from_conn_map U h (us_iter U cs) = Some (q, h')" "clk h \<le> clk h'"
    "\<not> kq_synced q \<Longrightarrow> kq_q q \<noteq> [] \<and> (\<exists>k c. (k, c) \<in> set cs \<and>
      c_expiry c = Some (ki_kill_time (hd (kq_q q))) \<and> clk h < ki_kill_time (hd (kq_q q)))"
proof -
  obtain q s h' where f: "killq_fill U h (us_iter U cs) [] = Some (q, s, h')" "clk h \<le> clk h'"
    "\<forall>it\<in>set q. \<exists>k c. (k, c) \<in> set (us_iter U cs) \<and> c_expiry c = Some (ki_kill_time it) \<and> clk h < ki_kill_time it"
    "\<not> s \<longrightarrow> MUXER_KILLQ_SIZE \<le> length q"
    using killq_fill_returns [of h "us_iter U cs" "[]"] by auto
  have st: "set (us_iter U cs) = set cs" using iter_mset [of cs] by (metis set_mset_mset)
  have "sort_key ki_kill_time q \<noteq> [] \<and> hd (sort_key ki_kill_time q) \<in> set q" if "\<not> s"
  proof -
    have "sort_key ki_kill_time q \<noteq> []" using f(4) that length_sort [of ki_kill_time q]
      by (auto simp: MUXER_KILLQ_SIZE_def simp del: length_sort)
    then show ?thesis using hd_in_set [of "sort_key ki_kill_time q"] by simp
  qed
  then show ?thesis
    using that [of "\<lparr>kq_q = sort_key ki_kill_time q, kq_synced = s\<rparr>" h'] f unfolding st
    by (auto simp: killq_from_conn_map_def)
qed

end

text \<open>The expiry times of the connections, which killing one does not change.\<close>

definition expiries :: "'s VsockMuxer \<Rightarrow> nat option list" where
  "expiries mx = map (\<lambda>(k, c). c_expiry c) (mx_conn_map mx)"

lemma expiries_update:
  "map_of cs k = Some c \<Longrightarrow> c_expiry c' = c_expiry c \<Longrightarrow>
   map (\<lambda>(k, c). c_expiry c) (AList.update k c' cs) = map (\<lambda>(k, c). c_expiry c) cs"
  by (induction cs) (auto split: if_split_asm)

lemma kill_expiry [simp]: "c_expiry (kill c) = c_expiry c"
  by (simp add: kill_def insert_pending_def)

lemma expiries_kill: "expiries (kill_connection key mx) = expiries mx"
  by (auto simp: expiries_def kill_connection_def push_rx_def put_conn_def Let_def expiries_update split: option.split)

lemma expiries_killq [simp]: "expiries (mx\<lparr>mx_killq := q\<rparr>) = expiries mx"
  by (simp add: expiries_def)

definition unexpired :: "nat \<Rightarrow> nat option list \<Rightarrow> nat" where
  "unexpired now es = length (filter (\<lambda>e. case e of None \<Rightarrow> False | Some t \<Rightarrow> now < t) es)"

lemma unexpired_less:
  assumes "a \<le> b" "Some t \<in> set es" "a < t" "t \<le> b"
  shows "unexpired b es < unexpired a es"
proof -
  let ?P = "\<lambda>n e. case e of None \<Rightarrow> False | Some t \<Rightarrow> n < (t::nat)"
  have "filter (?P b) es = filter (?P b) (filter (?P a) es)"
    using assms(1) by (auto simp: filter_filter intro!: filter_cong split: option.split)
  moreover have "length (filter (?P b) (filter (?P a) es)) < length (filter (?P a) es)"
    using assms by (intro length_filter_less [of "Some t"]) auto
  ultimately show ?thesis by (simp add: unexpired_def)
qed

context uds_env
begin

lemma sweep_pop_spec:
  "sweep_pop U (h, mx) = (h', mx') \<Longrightarrow> clk h \<le> clk h' \<and> expiries mx' = expiries mx \<and>
   (kq_q (mx_killq mx) \<noteq> [] \<and> kq_q (mx_killq mx') = [] \<longrightarrow> ki_kill_time (hd (kq_q (mx_killq mx))) < clk h')"
proof (induction rule: sweep_pop_rule)
  case (pop_none h mx h1 q)
  then have "q = mx_killq mx"
    by (auto simp: killq_pop_def Let_def split: list.split_asm if_split_asm prod.split_asm)
  then show ?case using killq_pop_mono [OF pop_none] by simp
next
  case (pop_some h mx key h1 q b h2 h' mx')
  have "clk h1 \<le> clk h'" using pop_verdict_mono [OF pop_some(2)] pop_some(3) by auto
  then show ?case
    using pop_some(3) killq_pop_mono [OF pop_some(1)] killq_pop_time [OF pop_some(1)]
    by (auto simp: expiries_kill split: if_split_asm)
qed

text \<open>Each time a full queue is emptied, at least one more connection has expired.\<close>

lemma sweep_killq_again:
  "\<exists>st'. (case killq_from_conn_map U h (us_iter U (mx_conn_map mx)) of None \<Rightarrow> None
     | Some (q, h1) \<Rightarrow> sweep_killq U (h1, mx\<lparr>mx_killq := q\<rparr>)) = Some st'"
proof (induction "unexpired (clk h) (expiries mx)" arbitrary: h mx rule: less_induct)
  case less
  obtain q h1 where q: "killq_from_conn_map U h (us_iter U (mx_conn_map mx)) = Some (q, h1)" "clk h \<le> clk h1"
    "\<not> kq_synced q \<Longrightarrow> kq_q q \<noteq> [] \<and> (\<exists>k c. (k, c) \<in> set (mx_conn_map mx) \<and>
      c_expiry c = Some (ki_kill_time (hd (kq_q q))) \<and> clk h < ki_kill_time (hd (kq_q q)))"
    by (rule killq_from_conn_map_returns [of h "mx_conn_map mx"]) blast
  obtain h2 mx2 where s: "sweep_pop U (h1, mx\<lparr>mx_killq := q\<rparr>) = (h2, mx2)" by fastforce
  note sp = sweep_pop_spec [OF s]
  show ?case
  proof (cases "killq_is_empty (mx_killq mx2) \<and> \<not> kq_synced (mx_killq mx2)")
    case False
    then show ?thesis using q(1) s by (subst sweep_killq.simps) auto
  next
    case True
    have "\<not> kq_synced q" using True sweep_pop_synced [OF s] by simp
    then have "Some (ki_kill_time (hd (kq_q q))) \<in> set (expiries mx)" "clk h < ki_kill_time (hd (kq_q q))" "kq_q q \<noteq> []"
      using q(3) by (force simp: expiries_def)+
    then have "unexpired (clk h2) (expiries mx) < unexpired (clk h) (expiries mx)"
      using sp q(2) True by (intro unexpired_less) (auto simp: killq_is_empty_def)
    then show ?thesis
      using less [of h2 mx2] sp q(1) s True by (subst sweep_killq.simps) (auto split: option.split_asm)
  qed
qed

lemma sweep_killq_returns: "\<exists>h' mx'. sweep_killq U (h, mx) = Some (h', mx')"
proof -
  obtain h1 mx1 where s: "sweep_pop U (h, mx) = (h1, mx1)" by fastforce
  show ?thesis
    using sweep_killq_again [where h = h1 and mx = mx1] s by (subst sweep_killq.simps) (auto split: option.split_asm)
qed

end

section \<open>Receiving\<close>

lemma recv_rw_buf: "recv_rw G R rd now m pkt c = (b, pkt', m', c') \<Longrightarrow> buf_size pkt' = buf_size pkt"
  by (auto simp: recv_rw_def Let_def pkt_set_defs split: if_split_asm prod.split_asm sum.split_asm)

lemma conn_recv_pkt_buf: "conn_recv_pkt G R rd now m pkt c = (r, pkt', m', c') \<Longrightarrow> buf_size pkt' = buf_size pkt"
proof (erule conn_recv_pkt_split)
  fix p b q c7
  assume q: "if prs_contains Rw (c_pending_rx c)
       then recv_rw G R rd now m (init_pkt c pkt) (c\<lparr> c_pending_rx := p \<rparr>) = (b, q, m', c7)
       else (b, q, m', c7) = (False, init_pkt c pkt, m, c\<lparr> c_pending_rx := p \<rparr>)"
    "b \<and> r = Inr () \<and> pkt' = q \<and> c' = c7 \<or>
       \<not> b \<and> r = Inr () \<and> pkt' = set_op VSOCK_OP_CREDIT_UPDATE q \<and>
         c' = (snd (take_pending CreditUpdate c7))\<lparr> c_last_fwd_cnt_to_peer := c_fwd_cnt c7 \<rparr> \<or>
       \<not> b \<and> r = Inl NoData \<and> pkt' = q \<and> c' = snd (take_pending CreditUpdate c7)"
  have "buf_size q = buf_size (init_pkt c pkt)"
    using q(1) recv_rw_buf [of G R rd now m "init_pkt c pkt" "c\<lparr> c_pending_rx := p \<rparr>" b q m' c7]
    by (cases "prs_contains Rw (c_pending_rx c)") simp_all
  then show ?thesis using q(2) by (auto simp: init_pkt_def pkt_set_defs)
qed (simp_all add: init_pkt_def pkt_set_defs)

lemma mux_ok_pop:
  assumes "mux_ok mx" "rq_q (mx_rxq mx) = x # xs"
    and "\<And>k c. x = ConnRx k \<Longrightarrow> map_of (mx_conn_map mx) k = Some c \<Longrightarrow> has_pending_rx c \<Longrightarrow>
      rq_synced (mx_rxq mx) \<Longrightarrow> x \<in> set xs"
  shows "mux_ok (mx\<lparr>mx_rxq := (mx_rxq mx)\<lparr>rq_q := xs\<rparr>\<rparr>)"
proof -
  have "ConnRx k \<in> set xs" if s: "rq_synced (mx_rxq mx)" "map_of (mx_conn_map mx) k = Some c" "has_pending_rx c" for k c
    using mux_okD(2) [OF assms(1) s] assms(2) assms(3) [OF _ s(2,3,1)] by auto
  then show ?thesis
    using assms(1,2) unfolding mux_ok_def rx_covered_def rxq_ok_def by (simp del: map_of_eq_Some_iff)
qed

text \<open>
  The work in a receive queue: an entry takes one round if it yields a packet or is stale, and
  two if its connection has nothing to say but may be killed on the way.
\<close>

definition rx_weight :: "'s ConnMap \<Rightarrow> MuxerRx \<Rightarrow> nat" where
  "rx_weight cs e = (case e of RstPkt _ _ \<Rightarrow> 1
     | ConnRx k \<Rightarrow> (case map_of cs k of
         None \<Rightarrow> 1 | Some c \<Rightarrow> if prs_contains Rst (c_pending_rx c) then 1 else 2))"

definition rx_work :: "'s VsockMuxer \<Rightarrow> nat" where
  "rx_work mx = sum_list (map (rx_weight (mx_conn_map mx)) (rq_q (mx_rxq mx)))"

lemma rx_weight_pos: "0 < rx_weight cs e"
  by (auto simp: rx_weight_def split: MuxerRx.split option.split)

lemma rx_weight_update:
  assumes "map_of cs k = Some c" "\<not> prs_contains Rst (c_pending_rx c)"
  shows "rx_weight (AList.update k c' cs) e \<le> rx_weight cs e"
  using assms by (auto simp: rx_weight_def update_conv split: MuxerRx.split)

lemma rx_work_update:
  assumes "map_of cs k = Some c" "\<not> prs_contains Rst (c_pending_rx c)"
  shows "sum_list (map (rx_weight (AList.update k c' cs)) q) \<le> sum_list (map (rx_weight cs) q)"
  by (intro sum_list_mono rx_weight_update [OF assms])

text \<open>The muxer after a connection with nothing left was taken off the queue.\<close>

lemma rx_taken:
  assumes q: "rq_q (mx_rxq mx) = ConnRx key # xs" and c: "map_of (mx_conn_map mx) key = Some c"
    and np: "\<not> has_pending_rx c1"
    and mx1: "mx1 = mutated key c c1 kq lm mx \<or> mx1 = kill_connection key (mutated key c c1 kq lm mx)"
    and ok: "mux_ok mx1"
  shows "\<exists>ys. rq_q (mx_rxq mx1) = ConnRx key # ys \<and> mux_ok (mx1\<lparr>mx_rxq := (mx_rxq mx1)\<lparr>rq_q := ys\<rparr>\<rparr>) \<and>
    (\<not> prs_contains Rst (c_pending_rx c) \<longrightarrow>
       sum_list (map (rx_weight (mx_conn_map mx1)) ys) < rx_work mx)"
  using mx1
proof
  assume m: "mx1 = mutated key c c1 kq lm mx"
  have e: "rq_q (mx_rxq mx1) = ConnRx key # xs" "mx_conn_map mx1 = AList.update key c1 (mx_conn_map mx)"
    using q np by (auto simp: m mutated_def)
  have "mux_ok (mx1\<lparr>mx_rxq := (mx_rxq mx1)\<lparr>rq_q := xs\<rparr>\<rparr>)"
    by (rule mux_ok_pop [OF ok e(1)]) (use np in \<open>auto simp: e(2) update_conv\<close>)
  moreover have "sum_list (map (rx_weight (mx_conn_map mx1)) xs) < rx_work mx"
    if "\<not> prs_contains Rst (c_pending_rx c)"
    using rx_work_update [OF c that, of c1 xs] c that by (simp add: rx_work_def q e(2) rx_weight_def)
  ultimately show ?thesis using e(1) by blast
next
  assume m: "mx1 = kill_connection key (mutated key c c1 kq lm mx)"
  have cm: "mx_conn_map mx1 = AList.update key (kill c1) (AList.update key c1 (mx_conn_map mx))"
    and rq: "mx_rxq mx1 = snd (rxq_push (ConnRx key) (mx_rxq mx))"
    using np by (auto simp: m mutated_def kill_connection_def update_conv push_rx_def put_conn_def)
  obtain ys where ys: "rq_q (mx_rxq mx1) = ConnRx key # ys" "ys = xs \<or> ys = xs @ [ConnRx key]"
      "rq_synced (mx_rxq mx1) \<Longrightarrow> ConnRx key \<in> set ys"
    unfolding rq rxq_push_conn by (cases "rq_synced (mx_rxq mx) \<and> \<not> rxq_is_full (mx_rxq mx)") (auto simp: q)
  have "mux_ok (mx1\<lparr>mx_rxq := (mx_rxq mx1)\<lparr>rq_q := ys\<rparr>\<rparr>)"
    by (rule mux_ok_pop [OF ok ys(1)]) (use ys(3) in auto)
  moreover have "sum_list (map (rx_weight (mx_conn_map mx1)) ys) < rx_work mx"
    if r: "\<not> prs_contains Rst (c_pending_rx c)"
  proof -
    have "mx_conn_map mx1 = AList.update key (kill c1) (mx_conn_map mx)"
      unfolding cm by (induction "mx_conn_map mx") auto
    then have "sum_list (map (rx_weight (mx_conn_map mx1)) xs) \<le> sum_list (map (rx_weight (mx_conn_map mx)) xs)"
      using rx_work_update [OF c r] by simp
    moreover have "rx_weight (mx_conn_map mx1) (ConnRx key) = 1" by (simp add: cm rx_weight_def update_conv)
    moreover have "rx_work mx = 2 + sum_list (map (rx_weight (mx_conn_map mx)) xs)"
      using c r by (simp add: rx_work_def q rx_weight_def)
    ultimately show ?thesis using ys(2) by auto
  qed
  ultimately show ?thesis using ys(1) by blast
qed

lemma conn_good_rx:
  assumes "conn_good cid k c" "conn_recv_pkt G R rd now m pkt c = (r, pkt', m', c')"
  shows "ack_local U key (c_state c) c' = c'"
proof (cases "c_state c = LocalInit")
  case True
  then have "\<not> prs_contains Response (c_pending_rx c)" using assms(1) by (auto simp: conn_good_def)
  then show ?thesis using conn_recv_pkt_cases(4) [OF assms(2)] True by (auto simp: ack_local_def)
qed (simp add: ack_local_def)

lemma conn_good_empty: "conn_good cid k c \<Longrightarrow> (\<And>it. \<not> prs_contains it (c_pending_rx c)) \<Longrightarrow> \<not> has_pending_rx c"
  by (simp add: conn_good_def has_pending_rx_def prs_empty_iff)

lemma keeps_pop: "mux_keeps mx mx1 \<Longrightarrow> (mux_ok mx1 \<Longrightarrow> mux_ok (mx1\<lparr>mx_rxq := q\<rparr>)) \<Longrightarrow> mux_keeps mx (mx1\<lparr>mx_rxq := q\<rparr>)"
  by (simp add: mux_keeps_def)

context uds_env
begin

lemma recv_fn_spec:
  assumes good: "conn_good cid key c" and sz: "buf_size pkt < 2 ^ 64"
  obtains r pkt1 m1 h1 c1 where "recv_fn G R U m pkt h c = Some ((r, \<not> has_pending_rx c1, pkt1, m1), h1, c1)"
    "conn_good cid key c1" "ack_local U key (c_state c) c1 = c1" "buf_size pkt1 = buf_size pkt"
    "isl r \<Longrightarrow> \<not> has_pending_rx c1 \<and> \<not> prs_contains Rst (c_pending_rx c)"
proof -
  obtain now h1 where now: "us_now U h = (now, h1)" by fastforce
  obtain r pkt1 m1 c1 where rv: "conn_recv_pkt G R (us_read U) now m pkt c = (r, pkt1, m1, c1)"
    by (cases "conn_recv_pkt G R (us_read U) now m pkt c")
  note good1 = good_recv [OF good sz rv]
  have "\<not> has_pending_rx c1 \<and> \<not> prs_contains Rst (c_pending_rx c)" if "isl r"
    using conn_good_empty [OF good1] conn_recv_pkt_cases(3) [OF rv] conn_recv_pkt_cases(2) [OF rv] that by auto
  then show ?thesis
    using that [of r c1 pkt1 m1 h1] now rv good1 conn_good_rx [OF good rv, of U key] conn_recv_pkt_buf [OF rv]
    by (simp add: recv_fn_def)
qed

text \<open>The round of the loop for a connection of the map.\<close>

lemma recv_step_conn:
  assumes ok: "mux_ok mx" and sz: "buf_size pkt < 2 ^ 64"
    and q: "rq_q (mx_rxq mx) = ConnRx key # xs" and c: "map_of (mx_conn_map mx) key = Some c"
  obtains r :: "'e VsockError + unit" and pkt1 m1 h' mx2 where "buf_size pkt1 = buf_size pkt"
    "mux_keeps mx mx2" "isl r \<Longrightarrow> rx_work mx2 < rx_work mx"
    "recv_step G R U (pkt, m, h, mx) = (case r of
       Inr _ \<Rightarrow> Some (True, Inr (), (pkt1, m1,
           if h_op (hdr pkt1) = VSOCK_OP_RST
           then remove_connection U \<lparr> k_local_port = h_src_port (hdr pkt1), k_peer_port = h_dst_port (hdr pkt1) \<rparr> (h', mx2)
           else (h', mx2)))
     | Inl _ \<Rightarrow> Some (False, Inl NoData, (pkt1, m1, h', mx2)))"
proof -
  note good = mux_okD(1) [OF ok c]
  obtain b h0 where h0: "read_will_expire U h c = (b, h0)" by fastforce
  obtain r pkt1 m1 h1 c1 where f: "recv_fn G R U m pkt h0 c = Some ((r, \<not> has_pending_rx c1, pkt1, m1), h1, c1)"
    "conn_good (mx_cid mx) key c1" and ack: "ack_local U key (c_state c) c1 = c1" and sz1: "buf_size pkt1 = buf_size pkt"
    and rst: "isl r \<Longrightarrow> \<not> has_pending_rx c1 \<and> \<not> prs_contains Rst (c_pending_rx c)"
    by (rule recv_fn_spec [OF good sz, of m h0]) blast
  obtain h' kq lm mx1 where a: "apply_conn_mutation U key (recv_fn G R U m pkt) (h, mx) =
        Some (Some (r, \<not> has_pending_rx c1, pkt1, m1), (h', mx1))"
      "mx1 = mutated key c c1 kq lm mx \<or> mx1 = kill_connection key (mutated key c c1 kq lm mx)"
    using apply_conn_mutation_present [where f = "recv_fn G R U m pkt", OF c h0 f(1)] ack by auto
  have k1: "mux_keeps mx mx1"
    using a(1)
  proof (rule keeps_apply_conn_mutation)
    fix h1 c x h2 c1
    assume g: "conn_good (mx_cid mx) key c" "recv_fn G R U m pkt h1 c = Some (x, h2, c1)"
    show "conn_good (mx_cid mx) key (ack_local U key (c_state c) c1)"
      by (rule recv_fn_spec [OF g(1) sz, of m h1]) (use g(2) conn_good_ack in auto)
  qed
  have ok1: "mux_ok mx1" using k1 ok by (simp add: mux_keeps_def)
  define mx2 where "mx2 = (if has_pending_rx c1 then mx1 else mx1\<lparr>mx_rxq := snd (rxq_pop (mx_rxq mx1))\<rparr>)"
  have t: "\<exists>ys. rq_q (mx_rxq mx1) = ConnRx key # ys \<and> mux_keeps mx mx2 \<and>
      (\<not> prs_contains Rst (c_pending_rx c) \<longrightarrow> rx_work mx2 < rx_work mx)" if "\<not> has_pending_rx c1"
    using rx_taken [OF q c that a(2) ok1] that keeps_pop [OF k1] by (auto simp: mx2_def rxq_pop_def rx_work_def)
  have "fst (rxq_pop (mx_rxq mx1)) = Some (ConnRx key)" if "\<not> has_pending_rx c1"
    using t [OF that] by (auto simp: rxq_pop_def)
  then have s: "recv_step G R U (pkt, m, h, mx) = (case r of
       Inr _ \<Rightarrow> Some (True, Inr (), (pkt1, m1,
           if h_op (hdr pkt1) = VSOCK_OP_RST
           then remove_connection U \<lparr> k_local_port = h_src_port (hdr pkt1), k_peer_port = h_dst_port (hdr pkt1) \<rparr> (h', mx2)
           else (h', mx2)))
     | Inl _ \<Rightarrow> Some (False, Inl NoData, (pkt1, m1, h', mx2)))"
    by (cases r; cases "has_pending_rx c1"; cases "rxq_pop (mx_rxq mx1)")
      (simp_all add: recv_step_def rxq_peek_def q a(1) mx2_def)
  have "mux_keeps mx mx2" using t k1 by (cases "has_pending_rx c1") (auto simp: mx2_def)
  then show ?thesis using that [OF sz1 _ _ s] t rst by blast
qed

lemma recv_step_spec:
  assumes ok: "mux_ok mx" and sz: "buf_size pkt < 2 ^ 64"
  obtains stop res pkt' m' h' mx' where "recv_step G R U (pkt, m, h, mx) = Some (stop, res, (pkt', m', h', mx'))"
    "mux_keeps mx mx'" "buf_size pkt' = buf_size pkt" "\<not> stop \<Longrightarrow> rx_work mx' < rx_work mx"
    "stop \<Longrightarrow> isl res \<Longrightarrow> res = Inl NoData \<and> rxq_is_empty (mx_rxq mx')"
proof (cases "rq_q (mx_rxq mx)")
  case Nil
  then have "recv_step G R U (pkt, m, h, mx) = Some (True, Inl NoData, (pkt, m, h, mx))"
    by (simp add: recv_step_def rxq_peek_def)
  then show ?thesis using that [of True "Inl NoData" pkt m h mx] Nil by (simp add: rxq_is_empty_def)
next
  case (Cons e xs)
  let ?pop = "mx\<lparr>mx_rxq := (mx_rxq mx)\<lparr>rq_q := xs\<rparr>\<rparr>"
  show ?thesis
  proof (cases e)
    case (RstPkt lp pp)
    then have "recv_step G R U (pkt, m, h, mx) = Some (True, Inr (), (rst_pkt (mx_cid mx) lp pp pkt, m, h, ?pop))"
      using Cons by (simp add: recv_step_def rxq_peek_def rxq_pop_def)
    moreover have "mux_keeps mx ?pop"
      by (intro keeps_pop mux_ok_pop [OF ok Cons]) (use RstPkt in auto)
    ultimately show ?thesis using that by (simp add: rst_pkt_def pkt_set_defs)
  next
    case (ConnRx key)
    note q = Cons [unfolded ConnRx]
    show ?thesis
    proof (cases "map_of (mx_conn_map mx) key")
      case None
      have s: "recv_step G R U (pkt, m, h, mx) = Some (False, Inl NoData, (pkt, m, h, ?pop))"
        using q by (simp add: recv_step_def rxq_peek_def rxq_pop_def apply_conn_mutation_absent [OF None])
      have "rx_work ?pop < rx_work mx"
        using rx_weight_pos [of "mx_conn_map mx" "ConnRx key"] by (simp add: rx_work_def q)
      moreover have "mux_keeps mx ?pop"
        by (intro keeps_pop mux_ok_pop [OF ok q]) (use None in auto)
      ultimately show ?thesis using that [of False "Inl NoData" pkt m h ?pop] s by simp
    next
      case (Some c)
      obtain r :: "'e VsockError + unit" and pkt1 m1 h' mx2 where s: "buf_size pkt1 = buf_size pkt" "mux_keeps mx mx2"
          "isl r \<Longrightarrow> rx_work mx2 < rx_work mx"
        "recv_step G R U (pkt, m, h, mx) = (case r of
           Inr _ \<Rightarrow> Some (True, Inr (), (pkt1, m1,
               if h_op (hdr pkt1) = VSOCK_OP_RST
               then remove_connection U \<lparr> k_local_port = h_src_port (hdr pkt1), k_peer_port = h_dst_port (hdr pkt1) \<rparr> (h', mx2)
               else (h', mx2)))
         | Inl _ \<Rightarrow> Some (False, Inl NoData, (pkt1, m1, h', mx2)))"
        by (rule recv_step_conn [OF ok sz q Some, of m h]) blast
      obtain h3 mx3 where rm: "(if h_op (hdr pkt1) = VSOCK_OP_RST
             then remove_connection U \<lparr> k_local_port = h_src_port (hdr pkt1), k_peer_port = h_dst_port (hdr pkt1) \<rparr> (h', mx2)
             else (h', mx2)) = (h3, mx3)" by fastforce
      have "mux_keeps mx mx3"
        using rm keeps_trans [OF s(2)] s(2) keeps_remove_connection by (fastforce split: if_split_asm)
      then show ?thesis
        using that [of False "Inl NoData" pkt1 m1 h' mx2] that [of True "Inr ()" pkt1 m1 h3 mx3] s rm
        by (cases r) simp_all
    qed
  qed
qed

lemma recv_loop_spec:
  assumes "mux_ok mx" "buf_size pkt < 2 ^ 64"
  shows "\<exists>res pkt' m' h' mx'. recv_loop G R U (pkt, m, h, mx) = Some (res, (pkt', m', h', mx')) \<and>
    mux_keeps mx mx' \<and> (isl res \<longrightarrow> res = Inl NoData \<and> rxq_is_empty (mx_rxq mx'))"
  using assms
proof (induction "rx_work mx" arbitrary: pkt m h mx rule: less_induct)
  case less
  obtain stop res pkt1 m1 h1 mx1 where s: "recv_step G R U (pkt, m, h, mx) = Some (stop, res, (pkt1, m1, h1, mx1))"
    "mux_keeps mx mx1" "buf_size pkt1 = buf_size pkt" "\<not> stop \<Longrightarrow> rx_work mx1 < rx_work mx"
    "stop \<Longrightarrow> isl res \<Longrightarrow> res = Inl NoData \<and> rxq_is_empty (mx_rxq mx1)"
    by (rule recv_step_spec [OF less(2,3), of m h]) blast
  show ?case
  proof (cases stop)
    case True
    then show ?thesis using s by (subst recv_loop.simps) auto
  next
    case False
    have "mux_ok mx1" using s(2) less(2) by (simp add: mux_keeps_def)
    then obtain res' pkt' m' h' mx' where "recv_loop G R U (pkt1, m1, h1, mx1) = Some (res', (pkt', m', h', mx'))"
      "mux_keeps mx1 mx'" "isl res' \<longrightarrow> res' = Inl NoData \<and> rxq_is_empty (mx_rxq mx')"
      using less(1) [OF s(4) [OF False], of pkt1 m1 h1] s(3) less(3) by auto
    then show ?thesis using s(1) False keeps_trans [OF s(2)] by (subst recv_loop.simps) auto
  qed
qed

end

section \<open>Local ports\<close>

text \<open>The ports of host-initiated connections have bit 30 set and bit 31 clear.\<close>

definition local_ports :: "u32 set" where
  "local_ports = {p. 2 ^ 30 \<le> unat p \<and> unat p < 2 ^ 31}"

definition port_ok :: "'s VsockMuxer \<Rightarrow> bool" where
  "port_ok mx \<longleftrightarrow> 2 ^ 30 \<le> Suc (unat (mx_local_port_last mx)) \<and> unat (mx_local_port_last mx) < 2 ^ 31"

lemma card_local_ports: "card local_ports = 2 ^ 30"
proof -
  have e: "local_ports = of_nat ` {2 ^ 30 ..< 2 ^ 31}"
  proof
    show "local_ports \<subseteq> of_nat ` {2 ^ 30 ..< 2 ^ 31}"
    proof
      fix x :: u32 assume "x \<in> local_ports"
      then show "x \<in> of_nat ` {2 ^ 30 ..< 2 ^ 31}"
        by (intro image_eqI [of _ _ "unat x"]) (auto simp: local_ports_def)
    qed
    show "of_nat ` {2 ^ 30 ..< 2 ^ 31} \<subseteq> local_ports"
      by (auto simp: local_ports_def unat_of_nat)
  qed
  have i: "inj_on (of_nat :: nat \<Rightarrow> u32) {2 ^ 30 ..< 2 ^ 31}"
    by (rule inj_onI) (auto dest: arg_cong [where f = unat] simp: unat_of_nat)
  have "card local_ports = card {2 ^ 30 ..< (2 ^ 31 :: nat)}" unfolding e by (rule card_image [OF i])
  then show ?thesis by simp
qed

lemma local_ports_bits:
  assumes "x \<in> local_ports"
  shows "bit x 30" "\<not> bit x 31"
proof -
  have "unat x div 2 ^ 30 = 1" "unat x div 2 ^ 31 = 0"
    using assms by (auto simp: local_ports_def)
  then have "bit (unat x) 30" "\<not> bit (unat x) 31" unfolding bit_iff_odd by simp_all
  then show "bit x 30" "\<not> bit x 31" by (simp_all add: bit_unsigned_iff)
qed

lemma local_ports_mask: "x \<in> local_ports \<Longrightarrow> (x AND NOT (push_bit 31 1)) OR push_bit 30 1 = x"
  using local_ports_bits [of x] unfolding push_bit_of_1
  by (intro bit_word_eqI) (auto simp only: bit_or_iff bit_and_iff bit_not_iff bit_exp_iff possible_bit_word)

lemma next_local_port_eq:
  assumes "2 ^ 30 \<le> Suc (unat p)" "unat p < 2 ^ 31"
  obtains q where "next_local_port p = Some q" "q \<in> local_ports"
    "unat q = (if Suc (unat p) < 2 ^ 31 then Suc (unat p) else 2 ^ 30)"
proof -
  have n: "next_local_port p = Some (((p + 1) AND NOT (push_bit 31 1)) OR push_bit 30 1)"
    using assms by (simp add: next_local_port_def add_c_Some)
  have u: "unat (p + 1) = Suc (unat p)" using assms(2) by (simp add: unat_word_ariths)
  show ?thesis
  proof (cases "Suc (unat p) < 2 ^ 31")
    case True
    then have l: "p + 1 \<in> local_ports" using assms u by (simp add: local_ports_def)
    then show ?thesis using that [of "p + 1"] n [unfolded local_ports_mask [OF l]] True u by simp
  next
    case False
    then have "unat (p + 1) = unat (push_bit 31 1 :: u32)" using assms(2) u by simp
    then have "p + 1 = push_bit 31 1" by (rule word_unat_eq_iff [THEN iffD2])
    then have "next_local_port p = Some (2 ^ 30)" using n by simp
    then show ?thesis using that [of "2 ^ 30"] False by (simp add: local_ports_def)
  qed
qed

text \<open>Distance from a port to a free one, going round the range.\<close>

definition port_dist :: "u32 \<Rightarrow> u32 \<Rightarrow> nat" where
  "port_dist f p = (if unat p < unat f then unat f - unat p else unat f + 2 ^ 30 - unat p)"

lemma alloc_port_returns:
  assumes "2 ^ 30 \<le> Suc (unat p)" "unat p < 2 ^ 31" "f \<in> local_ports" "f \<notin> ports"
  shows "\<exists>q. alloc_port ports p = Some q \<and> q \<in> local_ports \<and> q \<notin> ports"
  using assms(1,2)
proof (induction "port_dist f p" arbitrary: p rule: less_induct)
  case less
  obtain q where q: "next_local_port p = Some q" "q \<in> local_ports"
      "unat q = (if Suc (unat p) < 2 ^ 31 then Suc (unat p) else 2 ^ 30)"
    by (rule next_local_port_eq [OF less(2,3)])
  show ?case
  proof (cases "q \<in> ports")
    case False
    then show ?thesis using q by (subst alloc_port.simps) simp
  next
    case True
    then have "unat q \<noteq> unat f" using assms(4) word_unat_eq_iff [of q f] by auto
    then have "port_dist f q < port_dist f p"
      using q less(2,3) assms(3) by (auto simp: port_dist_def local_ports_def split: if_splits)
    then have "\<exists>r. alloc_port ports q = Some r \<and> r \<in> local_ports \<and> r \<notin> ports"
      using less(1) q(2) by (simp add: local_ports_def)
    then show ?thesis using q True by (subst alloc_port.simps) simp
  qed
qed

lemma alloc_port_Some:
  assumes "alloc_port ports p = Some q" "2 ^ 30 \<le> Suc (unat p)" "unat p < 2 ^ 31"
  shows "q \<in> local_ports \<and> q \<notin> ports"
proof -
  have "2 ^ 30 \<le> Suc (unat p) \<and> unat p < 2 ^ 31 \<longrightarrow> q \<in> local_ports \<and> q \<notin> ports"
  proof (rule alloc_port.raw_induct [OF _ assms(1),
        of "\<lambda>ports p q. 2 ^ 30 \<le> Suc (unat p) \<and> unat p < 2 ^ 31 \<longrightarrow> q \<in> local_ports \<and> q \<notin> ports"], intro impI)
    fix f and ports :: "u32 set" and p q :: u32
    assume IH: "\<And>ports p q. f ports p = Some q \<Longrightarrow>
        2 ^ 30 \<le> Suc (unat p) \<and> unat p < 2 ^ 31 \<longrightarrow> q \<in> local_ports \<and> q \<notin> ports"
      and r: "next_local_port p \<bind> (\<lambda>q. if q \<notin> ports then Some q else f ports q) = Some q"
      and p: "2 ^ 30 \<le> Suc (unat p) \<and> unat p < 2 ^ 31"
    obtain r where n: "next_local_port p = Some r" "r \<in> local_ports"
      using next_local_port_eq [of p] p by blast
    then show "q \<in> local_ports \<and> q \<notin> ports"
      using r IH [of ports r q] by (auto simp: local_ports_def split: if_split_asm)
  qed
  then show ?thesis using assms by blast
qed

lemma allocate_local_port_returns:
  assumes "port_ok mx" "card (mx_local_port_set mx) < 2 ^ 30"
  obtains p where "allocate_local_port mx =
      Some (p, mx\<lparr>mx_local_port_last := p, mx_local_port_set := insert p (mx_local_port_set mx)\<rparr>)"
    "p \<in> local_ports" "p \<notin> mx_local_port_set mx"
proof -
  have "\<not> local_ports \<subseteq> mx_local_port_set mx"
    using card_mono [of "mx_local_port_set mx" local_ports] assms(2) card_local_ports by auto
  then obtain f where "f \<in> local_ports" "f \<notin> mx_local_port_set mx" by blast
  then obtain p where "alloc_port (mx_local_port_set mx) (mx_local_port_last mx) = Some p" "p \<in> local_ports"
      "p \<notin> mx_local_port_set mx"
    using alloc_port_returns [of "mx_local_port_last mx" f "mx_local_port_set mx"] assms(1) by (auto simp: port_ok_def)
  then show ?thesis using that by (simp add: allocate_local_port_def)
qed

section \<open>Every operation returns\<close>

context uds_env
begin

lemma add_connection_returns: "\<exists>r h' mx'. add_connection U key conn (h, mx) = Some (r, (h', mx'))"
  using sweep_killq_returns [of h mx] by (auto simp: add_connection_def split: prod.split sum.split)

lemma handle_peer_request_pkt_returns: "\<exists>h' mx'. handle_peer_request_pkt U pkt (h, mx) = Some (h', mx')"
proof -
  obtain r h1 where c: "us_connect U h (mx_host_sock_path mx @ ''_'' @ dec_string (unat (h_dst_port (hdr pkt)))) = (r, h1)"
    by fastforce
  show ?thesis
  proof (cases "case r of Inl e \<Rightarrow> Inl e | Inr s \<Rightarrow> us_set_nonblocking U s")
    case (Inl e)
    then show ?thesis using c by (simp add: handle_peer_request_pkt_def)
  next
    case (Inr s)
    then show ?thesis
      using c add_connection_returns [of "\<lparr>k_local_port = h_dst_port (hdr pkt), k_peer_port = h_src_port (hdr pkt)\<rparr>"
        "new_peer_init s VSOCK_HOST_CID (mx_cid mx) (h_dst_port (hdr pkt)) (h_src_port (hdr pkt)) (h_buf_alloc (hdr pkt))" h1 mx]
      by (auto simp: handle_peer_request_pkt_def split: sum.split)
  qed
qed

text \<open>A mutation by a closure that keeps connections good returns its result.\<close>

lemma apply_conn_mutation_returns:
  assumes ok: "mux_ok mx"
    and f: "\<And>h c. conn_good (mx_cid mx) key c \<Longrightarrow> \<exists>x h1 c1. f h c = Some (x, h1, c1) \<and> P x \<and> conn_good (mx_cid mx) key c1"
  obtains r h' mx' where "apply_conn_mutation U key f (h, mx) = Some (r, (h', mx'))" "mux_keeps mx mx'"
    "\<And>x. r = Some x \<Longrightarrow> P x"
proof (cases "map_of (mx_conn_map mx) key")
  case None
  then show ?thesis using that [of None h mx] by (simp add: apply_conn_mutation_def)
next
  case (Some c)
  obtain b h0 where h0: "read_will_expire U h c = (b, h0)" by fastforce
  obtain x h1 c1 where x: "f h0 c = Some (x, h1, c1)" "P x" using f [OF mux_okD(1) [OF ok Some], of h0] by blast
  obtain h' mx' where a: "apply_conn_mutation U key f (h, mx) = Some (Some x, (h', mx'))"
    using apply_conn_mutation_present [where f = f, OF Some h0 x(1)] by blast
  have "mux_keeps mx mx'"
    using a
  proof (rule keeps_apply_conn_mutation)
    fix h1 c x h2 c1
    assume g: "conn_good (mx_cid mx) key c" "f h1 c = Some (x, h2, c1)"
    show "conn_good (mx_cid mx) key (ack_local U key (c_state c) c1)"
      using f [OF g(1), of h1] g(2) by (auto intro: conn_good_ack)
  qed
  then show ?thesis using that a x(2) by simp
qed

lemma mux_send_pkt_spec:
  assumes ok: "mux_ok mx" and sz: "buf_size pkt < 2 ^ 64"
  shows "\<exists>h' mx'. mux_send_pkt G R U m pkt (h, mx) = Some (Inr (), (h', mx')) \<and> mux_keeps mx mx'"
proof -
  let ?k = "\<lparr>k_local_port = h_dst_port (hdr pkt), k_peer_port = h_src_port (hdr pkt)\<rparr>"
  obtain h1 mx1 where hp: "handle_peer_request_pkt U pkt (h, mx) = Some (h1, mx1)"
    using handle_peer_request_pkt_returns by blast
  obtain h2 mx2 where rc: "remove_connection U ?k (h, mx) = (h2, mx2)" by fastforce
  have f: "\<exists>x h1 c1. send_fn G R U m pkt h c = Some (x, h1, c1) \<and> x = Inr () \<and> conn_good (mx_cid mx) ?k c1"
    if good: "conn_good (mx_cid mx) ?k c" for h c
  proof -
    obtain now h1 where n: "us_now U h = (now, h1)" by fastforce
    obtain c1 where "conn_send_pkt G R (us_write U) now m pkt c = Some (Inr (), c1)" "conn_good (mx_cid mx) ?k c1"
      by (rule good_send [OF good sz])
    then show ?thesis using n by (simp add: send_fn_def)
  qed
  obtain r h3 mx3 where a: "apply_conn_mutation U ?k (send_fn G R U m pkt) (h, mx) = Some (r, (h3, mx3))"
    "mux_keeps mx mx3" "\<And>x. r = Some x \<Longrightarrow> x = Inr ()"
    by (rule apply_conn_mutation_returns [where h = h and f = "send_fn G R U m pkt" and P = "\<lambda>x. x = Inr ()", OF ok f]) blast+
  show ?thesis
    using hp rc a keeps_enq_rst keeps_handle_peer_request_pkt [OF hp] keeps_remove_connection [OF rc]
    by (cases r) (auto simp: mux_send_pkt_def Let_def)
qed

lemma rxq_resync_keeps: "mux_keeps mx (mx\<lparr>mx_rxq := rxq_from_conn_map (us_iter U (mx_conn_map mx))\<rparr>)"
proof -
  have st: "set (us_iter U (mx_conn_map mx)) = set (mx_conn_map mx)"
    using iter_mset [of "mx_conn_map mx"] by (metis set_mset_mset)
  show ?thesis
    using rxq_from_conn_map_ok [of "us_iter U (mx_conn_map mx)"] rxq_from_conn_map_covers [of "us_iter U (mx_conn_map mx)"]
    by (auto simp: mux_keeps_def mux_ok_def rx_covered_def st)
qed

lemma mux_recv_pkt_spec:
  assumes "mux_ok mx" "buf_size pkt < 2 ^ 64"
  shows "\<exists>res pkt' m' h' mx'. mux_recv_pkt G R U m pkt (h, mx) = Some (res, (pkt', m', h', mx')) \<and>
    mux_keeps mx mx' \<and> (isl res \<longrightarrow> res = Inl NoData \<and> rxq_is_empty (mx_rxq mx'))"
proof -
  let ?mx = "if rxq_is_empty (mx_rxq mx) \<and> \<not> rq_synced (mx_rxq mx)
     then mx\<lparr> mx_rxq := rxq_from_conn_map (us_iter U (mx_conn_map mx)) \<rparr> else mx"
  have k: "mux_keeps mx ?mx" using rxq_resync_keeps by simp
  then have "mux_ok ?mx" using assms(1) by (simp add: mux_keeps_def)
  from recv_loop_spec [OF this assms(2), of m h] show ?thesis
    using keeps_trans [OF k] unfolding mux_recv_pkt_def Let_def prod.case by blast
qed

end

text \<open>What an event may do beside that: take one local port.\<close>

definition event_keeps :: "'s VsockMuxer \<Rightarrow> 's VsockMuxer \<Rightarrow> bool" where
  "event_keeps mx mx' \<longleftrightarrow> mx_cid mx' = mx_cid mx \<and>
     card (mx_local_port_set mx') \<le> Suc (card (mx_local_port_set mx)) \<and>
     (mux_ok mx \<longrightarrow> mux_ok mx') \<and> (port_ok mx \<longrightarrow> port_ok mx')"

lemma mux_keeps_event: "mux_keeps mx mx' \<Longrightarrow> event_keeps mx mx'"
  using card_mono [of "mx_local_port_set mx" "mx_local_port_set mx'"]
  by (auto simp: mux_keeps_def event_keeps_def port_ok_def)

lemma keeps_port_ok: "mux_keeps mx mx' \<Longrightarrow> port_ok mx \<Longrightarrow> port_ok mx'"
  by (simp add: mux_keeps_def port_ok_def)

lemma allocate_local_port_keeps:
  assumes "allocate_local_port mx = Some (p, mx')"
  shows "mx_cid mx' = mx_cid mx \<and> card (mx_local_port_set mx') \<le> Suc (card (mx_local_port_set mx)) \<and>
    (mux_ok mx \<longrightarrow> mux_ok mx') \<and> (port_ok mx \<longrightarrow> port_ok mx')"
proof -
  have a: "alloc_port (mx_local_port_set mx) (mx_local_port_last mx) = Some p"
      "mx' = mx\<lparr>mx_local_port_last := p, mx_local_port_set := insert p (mx_local_port_set mx)\<rparr>"
    using assms by (auto simp: allocate_local_port_def elim!: bindE)
  have "port_ok mx'" if "port_ok mx"
    using alloc_port_Some [OF a(1)] that by (simp add: port_ok_def a(2) local_ports_def)
  then show ?thesis by (simp add: a(2) card_insert_le_m1 card_insert_if)
qed

lemma allocate_add_keeps:
  assumes "allocate_local_port mx = Some (lp, mx2)"
    "add_connection U \<lparr>k_local_port = lp, k_peer_port = pp\<rparr> (new_local_init s VSOCK_HOST_CID (mx_cid mx2) lp pp) (h, mx2)
       = Some (r, (h', mx'))"
  shows "event_keeps mx mx'"
proof -
  have k: "mux_keeps mx2 mx'" by (rule keeps_add_connection [OF assms(2)]) simp
  have "card (mx_local_port_set mx') \<le> card (mx_local_port_set mx2)"
    using k by (auto simp: mux_keeps_def intro: card_mono)
  then show ?thesis
    using allocate_local_port_keeps [OF assms(1)] k keeps_port_ok [OF k]
    by (auto simp: event_keeps_def mux_keeps_def)
qed

context uds_env
begin

lemma notify_fn_spec:
  assumes good: "conn_good cid key c"
  shows "\<exists>x h1 c1. notify_fn U ev h c = Some (x, h1, c1) \<and> True \<and> conn_good cid key c1"
proof -
  obtain c' where "conn_notify (us_write U) ev c = Some c'" "conn_good cid key c'"
    by (rule good_notify [OF good])
  then show ?thesis by (simp add: notify_fn_def)
qed

lemma handle_local_stream:
  assumes l: "mx_listener_map mx fd = Some (LocalStream s)" and ok: "port_ok mx"
  shows "case handle_event U fd ev (h, mx) of None \<Rightarrow> 2 ^ 30 \<le> card (mx_local_port_set mx)
    | Some (h', mx') \<Rightarrow> event_keeps mx mx'"
proof -
  obtain h1 where r: "remove_listener U fd (h, mx) =
      (Some (LocalStream s), (h1, mx\<lparr>mx_listener_map := (mx_listener_map mx)(fd := None)\<rparr>))"
    using l by (simp add: remove_listener_def)
  let ?mx = "mx\<lparr>mx_listener_map := (mx_listener_map mx)(fd := None)\<rparr>"
  have k: "event_keeps ?mx mx' \<Longrightarrow> event_keeps mx mx'" for mx'
    by (simp add: event_keeps_def port_ok_def)
  obtain p s1 where p: "read_local_stream_port U s = (p, s1)" by fastforce
  show ?thesis
  proof (cases p)
    case (Inl e)
    then show ?thesis using l r p mux_keeps_event [OF keeps_listener] by (simp add: handle_event_def)
  next
    case (Inr pp)
    show ?thesis
    proof (cases "allocate_local_port ?mx")
      case None
      have "2 ^ 30 \<le> card (mx_local_port_set mx)"
      proof (rule ccontr)
        assume c: "\<not> 2 ^ 30 \<le> card (mx_local_port_set mx)"
        show False
          by (rule allocate_local_port_returns [of ?mx]) (use ok None c in \<open>auto simp: port_ok_def\<close>)
      qed
      then show ?thesis using l r p Inr None by (simp add: handle_event_def)
    next
      case (Some lm)
      obtain lp mx2 where lp: "lm = (lp, mx2)" by fastforce
      obtain x h3 mx3 where ac: "add_connection U \<lparr>k_local_port = lp, k_peer_port = pp\<rparr>
          (new_local_init s1 VSOCK_HOST_CID (mx_cid mx2) lp pp) (h1, mx2) = Some (x, (h3, mx3))"
        using add_connection_returns by blast
      then show ?thesis
        using l r p Inr Some lp k [OF allocate_add_keeps [OF Some [unfolded lp] ac]] by (simp add: handle_event_def)
    qed
  qed
qed

lemma handle_event_spec:
  assumes ok: "mux_ok mx" "port_ok mx"
  shows "case handle_event U fd ev (h, mx) of None \<Rightarrow> 2 ^ 30 \<le> card (mx_local_port_set mx)
    | Some (h', mx') \<Rightarrow> event_keeps mx mx'"
proof (cases "mx_listener_map mx fd")
  case None
  then show ?thesis using mux_keeps_event [OF keeps_refl] by (simp add: handle_event_def)
next
  case (Some l)
  show ?thesis
  proof (cases l)
    case (Connection key evset)
    obtain r h' mx' where "apply_conn_mutation U key (notify_fn U ev) (h, mx) = Some (r, (h', mx'))" "mux_keeps mx mx'"
      by (rule apply_conn_mutation_returns [where h = h and f = "notify_fn U ev" and P = "\<lambda>_. True", OF ok(1) notify_fn_spec]) blast+
    then show ?thesis using Some Connection mux_keeps_event by (simp add: handle_event_def)
  next
    case HostSock
    obtain r h1 where a: "us_accept U h (mx_host_sock mx) = (r, h1)" by fastforce
    have "event_keeps mx mx'" if "snd (add_listener U fd' l' (h1, mx)) = (h', mx')" for fd' l' h' mx'
      using mux_keeps_event [OF keeps_add_listener [of U fd' l' h1 mx _ h' mx']] that by (metis prod.collapse)
    then show ?thesis
      using Some HostSock a mux_keeps_event [OF keeps_refl]
      by (auto simp: handle_event_def split: sum.split prod.split)
  next
    case (LocalStream s)
    then show ?thesis using handle_local_stream Some ok(2) by simp
  qed
qed

lemma handle_events_spec:
  assumes "mux_ok mx" "port_ok mx" "\<forall>(fd, bits) \<in> set evs. bits AND NOT EventSet_ALL = 0"
  shows "case handle_events U evs (h, mx) of None \<Rightarrow> 2 ^ 30 < card (mx_local_port_set mx) + length evs
    | Some (h', mx') \<Rightarrow> mux_ok mx' \<and> port_ok mx' \<and> mx_cid mx' = mx_cid mx"
  using assms
proof (induction evs arbitrary: h mx)
  case (Cons e evs)
  obtain fd bits where e: "e = (fd, bits)" by fastforce
  note s = handle_event_spec [OF Cons(2,3), of fd bits h]
  show ?case
  proof (cases "handle_event U fd bits (h, mx)")
    case None
    then show ?thesis using s Cons(4) by (simp add: e assert_that_def)
  next
    case (Some st)
    obtain h1 mx1 where st: "st = (h1, mx1)" by fastforce
    have k: "event_keeps mx mx1" using s Some st by simp
    have "case handle_events U evs (h1, mx1) of None \<Rightarrow> 2 ^ 30 < card (mx_local_port_set mx1) + length evs
        | Some (h', mx') \<Rightarrow> mux_ok mx' \<and> port_ok mx' \<and> mx_cid mx' = mx_cid mx1"
      by (rule Cons(1)) (use k Cons in \<open>auto simp: event_keeps_def\<close>)
    then show ?thesis
      using k Some st Cons(4) by (auto simp: e event_keeps_def assert_that_def split: option.split_asm option.split)
  qed
qed simp

lemma mux_notify_spec:
  assumes "mux_ok mx" "port_ok mx"
  shows "case mux_notify U (h, mx) of None \<Rightarrow> 2 ^ 30 < card (mx_local_port_set mx) + 32
    | Some (h', mx') \<Rightarrow> mux_ok mx' \<and> port_ok mx' \<and> mx_cid mx' = mx_cid mx"
proof -
  obtain r h1 where w: "ep_wait U h 32 = (r, h1)" by fastforce
  show ?thesis
  proof (cases r)
    case (Inl e)
    then show ?thesis using w assms by (simp add: mux_notify_def)
  next
    case (Inr evs)
    have "case handle_events U evs (h1, mx) of None \<Rightarrow> 2 ^ 30 < card (mx_local_port_set mx) + length evs
        | Some (h', mx') \<Rightarrow> mux_ok mx' \<and> port_ok mx' \<and> mx_cid mx' = mx_cid mx"
      using wait_flags [of h 32 evs h1] w Inr by (intro handle_events_spec assms) auto
    then show ?thesis
      using w Inr wait_len [of h 32 evs h1] by (auto simp: mux_notify_def split: option.split_asm option.split)
  qed
qed

end

lemma mux_new_ok:
  assumes "mux_new U h cid path = (Inr mx, h')"
  shows "mux_ok mx \<and> port_ok mx \<and> mx_cid mx = cid \<and> mx_local_port_set mx = {}"
proof -
  obtain sock lm where "mx = \<lparr> mx_cid = cid, mx_conn_map = [], mx_listener_map = lm, mx_rxq = rxq_new,
      mx_killq = killq_new, mx_host_sock = sock, mx_host_sock_path = path,
      mx_local_port_set = {}, mx_local_port_last = push_bit 30 1 - 1 \<rparr>"
    using assms by (auto simp: mux_new_def add_listener_def Let_def split: prod.split_asm sum.split_asm)
  then show ?thesis
    by (simp add: mux_ok_def rx_covered_def rxq_ok_def rxq_new_def killq_new_def port_ok_def)
qed

section \<open>Runs\<close>

text \<open>The muxers that a device can have, whatever the host does between two operations.\<close>

inductive mux_reach :: "('m, 'e) gmem \<Rightarrow> ('m, 'r, 'e, 's) guest_regions \<Rightarrow> ('h, 's) uds \<Rightarrow> u64 \<Rightarrow>
    's VsockMuxer \<Rightarrow> bool" for G R U cid where
  create: "mux_new U h cid path = (Inr mx, h') \<Longrightarrow> mux_reach G R U cid mx"
| send: "mux_reach G R U cid mx \<Longrightarrow> buf_size pkt < 2 ^ 64 \<Longrightarrow>
    mux_send_pkt G R U m pkt (h, mx) = Some (r, (h', mx')) \<Longrightarrow> mux_reach G R U cid mx'"
| recv: "mux_reach G R U cid mx \<Longrightarrow> buf_size pkt < 2 ^ 64 \<Longrightarrow>
    mux_recv_pkt G R U m pkt (h, mx) = Some (r, (pkt', m', h', mx')) \<Longrightarrow> mux_reach G R U cid mx'"
| notify: "mux_reach G R U cid mx \<Longrightarrow> mux_notify U (h, mx) = Some (h', mx') \<Longrightarrow> mux_reach G R U cid mx'"

lemma mux_reach_ok:
  assumes "uds_env G in_rng byte R U out clk" "mux_reach G R U cid mx"
  shows "mux_ok mx \<and> port_ok mx \<and> mx_cid mx = cid"
  using assms(2)
proof induction
  case (create h path mx h')
  then show ?case using mux_new_ok [OF create] by simp
next
  case (send mx pkt m h r h' mx')
  then have "mux_keeps mx mx'"
    using uds_env.mux_send_pkt_spec [OF assms(1), of mx pkt m h] by auto
  then show ?case using send.IH by (auto simp: mux_keeps_def port_ok_def)
next
  case (recv mx pkt m h r pkt' m' h' mx')
  then have "mux_keeps mx mx'"
    using uds_env.mux_recv_pkt_spec [OF assms(1), of mx pkt m h] by auto
  then show ?case using recv.IH by (auto simp: mux_keeps_def port_ok_def)
next
  case (notify mx h h' mx')
  then show ?case using uds_env.mux_notify_spec [OF assms(1), of mx h] by simp
qed

text \<open>
  Removing a connection frees its local port whoever else uses it: a connection of the guest to a
  port that a host-initiated connection holds frees that port when it ends.
\<close>

lemma remove_connection_frees_port:
  assumes "map_of (mx_conn_map mx) key = Some c" "map_of (mx_conn_map mx) other = Some c'" "other \<noteq> key"
    "remove_connection U key (h, mx) = (h', mx')"
  shows "k_local_port key \<notin> mx_local_port_set mx' \<and> map_of (mx_conn_map mx') other = Some c'"
proof -
  obtain h1 lm where "snd (remove_listener U (us_fd U (c_stream c))
      (h, mx\<lparr>mx_conn_map := AList.delete key (mx_conn_map mx)\<rparr>)) =
      (h1, mx\<lparr>mx_conn_map := AList.delete key (mx_conn_map mx), mx_listener_map := lm\<rparr>)"
    using remove_listener_eq [of U "us_fd U (c_stream c)" h "mx\<lparr>mx_conn_map := AList.delete key (mx_conn_map mx)\<rparr>"]
    by auto
  then show ?thesis
    using assms by (auto simp: remove_connection_def free_local_port_def delete_conv simp del: map_of_eq_Some_iff)
qed

section \<open>A reference host\<close>

text \<open>A host whose clock ticks when it is read, with one stream to connect to.\<close>

definition ref_uds :: "(nat, ref_stream) uds" where
  "ref_uds = \<lparr> us_now = (\<lambda>h. (h, Suc h)), us_write = ref_write, us_read = ref_read,
     us_read_exact = (\<lambda>s n. if n \<le> length (rs_in s)
        then (Inr (take n (rs_in s)), s\<lparr>rs_in := drop n (rs_in s)\<rparr>) else (Inl Other, s)),
     us_fd = (\<lambda>s. 5), us_set_nonblocking = Inr, us_connect = (\<lambda>h path. (Inr vs_stream, h)),
     us_bind = (\<lambda>h path. (Inr 3, h)), us_accept = (\<lambda>h fd. (Inr vs_stream, h)),
     us_listener_nonblocking = (\<lambda>h fd. (Inr (), h)), ep_new = (\<lambda>h. (Inr (), h)),
     ep_ctl = (\<lambda>h op fd ev. (Inr (), h)), ep_wait = (\<lambda>h n. (Inr (take n [(3, EventSet_IN)]), h)), us_iter = id \<rparr>"

lemma ref_uds_simps [simp]:
  "us_now ref_uds h = (h, Suc h)" "us_write ref_uds = ref_write" "us_read ref_uds = ref_read" "us_fd ref_uds s = 5"
  "us_set_nonblocking ref_uds s = Inr s" "us_connect ref_uds h path = (Inr vs_stream, h)"
  "us_bind ref_uds h path = (Inr 3, h)" "us_accept ref_uds h fd = (Inr vs_stream, h)"
  "us_listener_nonblocking ref_uds h fd = (Inr (), h)" "ep_new ref_uds h = (Inr (), h)"
  "ep_ctl ref_uds h op fd ev = (Inr (), h)" "ep_wait ref_uds h n = (Inr (take n [(3, EventSet_IN)]), h)"
  "us_iter ref_uds cs = cs"
  by (simp_all add: ref_uds_def)

interpretation refu: uds_env vs_gm ref_in rm_bytes ref_regions ref_uds rs_out "\<lambda>h. h"
proof -
  have "vsock_env vs_gm ref_in rm_bytes ref_regions (us_write ref_uds) rs_out (us_read ref_uds)"
    by (simp add: refv.vsock_env_axioms)
  moreover have "uds_env_axioms ref_uds (\<lambda>h. h)"
    by unfold_locales (auto simp: EventSet_ALL_def EventSet_IN_def dest!: in_set_takeD)
  ultimately show "uds_env vs_gm ref_in rm_bytes ref_regions ref_uds rs_out (\<lambda>h. h)"
    by (simp add: uds_env_def)
qed

text \<open>The muxer of a fresh device, and a connection request from port 1024 of the guest to port 52.\<close>

definition vs_mux :: "ref_stream VsockMuxer" where
  "vs_mux = \<lparr> mx_cid = 3, mx_conn_map = [], mx_listener_map = [3 \<mapsto> HostSock], mx_rxq = rxq_new,
     mx_killq = killq_new, mx_host_sock = 3, mx_host_sock_path = ''v.sock'', mx_local_port_set = {},
     mx_local_port_last = push_bit 30 1 - 1 \<rparr>"

definition vs_req :: VsockPacket where
  "vs_req = vs_pkt (vs_hdr\<lparr>h_op := VSOCK_OP_REQUEST, h_len := 0\<rparr>)"

definition vs_key :: ConnMapKey where
  "vs_key = \<lparr>k_local_port = 52, k_peer_port = 1024\<rparr>"

definition vs_mux1 :: "ref_stream VsockMuxer" where
  "vs_mux1 = vs_mux\<lparr> mx_listener_map := [3 \<mapsto> HostSock, 5 \<mapsto> Connection vs_key EventSet_IN],
     mx_rxq := \<lparr> rq_q = [ConnRx vs_key], rq_synced = True \<rparr>,
     mx_conn_map := [(vs_key, new_peer_init vs_stream VSOCK_HOST_CID 3 52 1024 65536)] \<rparr>"

lemma vs_mux_new: "mux_new ref_uds 0 3 ''v.sock'' = (Inr vs_mux, 0)"
  by (simp add: mux_new_def add_listener_def vs_mux_def)

lemma sweep_killq_empty: "killq_is_empty (mx_killq mx) \<Longrightarrow> kq_synced (mx_killq mx) \<Longrightarrow> sweep_killq U (h, mx) = Some (h, mx)"
  by (subst sweep_killq.simps) (simp add: sweep_pop.simps killq_pop_def killq_is_empty_def)

lemma vs_peer_init: "has_pending_rx (new_peer_init vs_stream VSOCK_HOST_CID 3 52 1024 65536)"
  "get_polled_evset (new_peer_init vs_stream VSOCK_HOST_CID 3 52 1024 65536) = EventSet_IN"
  by (simp_all add: has_pending_rx_def new_peer_init_def prs_from_def prs_is_empty_def into_mask_def
      get_polled_evset_def TxBuf_is_empty_def TxBuf_len_def TxBuf_new_def need_credit_update_from_peer_def
      peer_avail_credit_def)

lemma vs_mux_request:
  "mux_send_pkt vs_gm vs_regs ref_uds (vs_mem 0) vs_req (0, vs_mux) = Some (Inr (), (0, vs_mux1))"
proof -
  have h: "hdr vs_req = vs_hdr\<lparr>h_op := VSOCK_OP_REQUEST, h_len := 0\<rparr>" by (simp add: vs_req_def vs_pkt_def)
  have "add_connection ref_uds vs_key (new_peer_init vs_stream VSOCK_HOST_CID 3 52 1024 65536) (0, vs_mux)
      = Some (Inr (), (0, vs_mux1))"
    by (simp add: add_connection_def sweep_killq_empty killq_is_empty_def vs_mux_def killq_new_def MAX_CONNECTIONS_def
        add_listener_def vs_peer_init vs_mux1_def push_rx_def put_conn_def rxq_push_def rxq_new_def rxq_is_full_def
        MUXER_RXQ_SIZE_def)
  then show ?thesis
    by (simp add: mux_send_pkt_def h vs_hdr_def VSOCK_TYPE_STREAM_def VSOCK_HOST_CID_def vs_mux_def
        handle_peer_request_pkt_def vs_key_def)
qed

lemma vs_mux_reach: "mux_reach vs_gm vs_regs ref_uds 3 vs_mux"
  using vs_mux_new by (rule mux_reach.create)

lemma vs_mux1_reach: "mux_reach vs_gm vs_regs ref_uds 3 vs_mux1"
  by (rule mux_reach.send [OF vs_mux_reach _ vs_mux_request]) (simp add: vs_req_def vs_pkt_def)

section \<open>Properties\<close>

lemma count_evicted:
  assumes "evict_conn (RstPkt a b) (rev qs) = Some xs"
  shows "count_list (rev xs) (RstPkt l p) = count_list qs (RstPkt l p) + (if a = l \<and> b = p then 1 else 0)"
proof -
  obtain as k bs where e: "rev qs = as @ ConnRx k # bs" "xs = as @ RstPkt a b # bs"
    using evict_conn_Some [OF assms] by blast
  have "qs = rev bs @ [ConnRx k] @ rev as" using arg_cong [OF e(1), of rev] by simp
  then show ?thesis by (simp add: e(2))
qed

text \<open>
  C28. The receive queue never exceeds 256 entries and never drops a reset that it holds. A push
  is refused exactly when the queue is full or unsynchronized and the new entry is a connection
  key or the queue holds no connection key. So a reset is refused not only by a queue full of resets, as the
  documentation of \<^verbatim>\<open>push\<close> says, but by every unsynchronized queue that holds resets only or nothing, room or not.
  A reset that is accepted is queued once, at the price of the last connection key when
  the queue is full or unsynchronized, and the queue then counts as unsynchronized. A
  queue that is still synchronized has every entry it had.
\<close>

theorem rxq_push_keeps_resets:
  assumes "length (rq_q q) \<le> MUXER_RXQ_SIZE" "rxq_push rx q = (ok, q')"
  shows "length (rq_q q') \<le> MUXER_RXQ_SIZE \<and>
    (ok \<longleftrightarrow> rq_synced q \<and> length (rq_q q) < MUXER_RXQ_SIZE \<or>
       (\<exists>l p. rx = RstPkt l p) \<and> (\<exists>k. ConnRx k \<in> set (rq_q q))) \<and>
    (\<forall>l p. count_list (rq_q q') (RstPkt l p) =
       count_list (rq_q q) (RstPkt l p) + (if ok \<and> rx = RstPkt l p then 1 else 0)) \<and>
    (rq_synced q' \<longrightarrow> rq_synced q \<and> set (rq_q q) \<subseteq> set (rq_q q')) \<and>
    (\<not> ok \<longrightarrow> rq_q q' = rq_q q)"
proof -
  have len: "length (rq_q q') \<le> MUXER_RXQ_SIZE"
    using rxq_push_ok [of q rx] assms by (simp add: rxq_ok_def)
  have ext: "rq_synced q' \<longrightarrow> rq_synced q \<and> set (rq_q q) \<subseteq> set (rq_q q')"
    using rxq_ext_push [of q rx] assms by (simp add: rxq_ext_def)
  show ?thesis
  proof (cases "rq_synced q \<and> \<not> rxq_is_full q")
    case True
    then show ?thesis using assms len by (auto simp: rxq_push_def rxq_is_full_def)
  next
    case False
    then have f: "\<not> (rq_synced q \<and> length (rq_q q) < MUXER_RXQ_SIZE)"
      using assms(1) by (auto simp: rxq_is_full_def)
    show ?thesis
    proof (cases rx)
      case (ConnRx k)
      then show ?thesis using assms(2) False f len ext by (auto simp: rxq_push_def)
    next
      case (RstPkt a b)
      show ?thesis
      proof (cases "evict_conn rx (rev (rq_q q))")
        case None
        then show ?thesis
          using assms(2) False f len ext RstPkt evict_conn_None [of rx "rev (rq_q q)"] by (auto simp: rxq_push_def)
      next
        case (Some xs)
        then have "ok" "q' = \<lparr>rq_q = rev xs, rq_synced = False\<rparr>" "\<exists>k. ConnRx k \<in> set (rq_q q)"
          using assms(2) False RstPkt evict_conn_None [of rx "rev (rq_q q)"] by (auto simp: rxq_push_def)
        then show ?thesis using len f RstPkt count_evicted [OF Some [unfolded RstPkt]] by auto
      qed
    qed
  qed
qed

theorem rxq_push_keeps_resets_witness:
  "let q = \<lparr>rq_q = replicate 255 (RstPkt 1 2) @ [ConnRx vs_key], rq_synced = True\<rparr>;
       (ok, q') = rxq_push (RstPkt 3 4) q
   in length (rq_q q) \<le> MUXER_RXQ_SIZE \<and> length (rq_q q') \<le> MUXER_RXQ_SIZE \<and> ok"
proof -
  let ?q = "\<lparr>rq_q = replicate 255 (RstPkt 1 2) @ [ConnRx vs_key], rq_synced = True\<rparr>"
  obtain ok q' where r: "rxq_push (RstPkt 3 4) ?q = (ok, q')" by fastforce
  have l: "length (rq_q ?q) \<le> MUXER_RXQ_SIZE" by (simp add: MUXER_RXQ_SIZE_def)
  show ?thesis using rxq_push_keeps_resets [OF l r] r l by auto
qed

text \<open>
  C29. In every muxer that a device can have, at most 1023 connections are open, the receive queue
  has at most 256 entries and the kill queue at most 128, the ports and context identifiers of a
  connection are those of its key, its transmit buffer holds at most 64 KiB, and a connection with
  something to say is never forgotten: the muxer reports pending data, and its queue has the
  connection or will be rebuilt from the connection map.
\<close>

theorem muxer_invariant:
  assumes "uds_env G in_rng byte R U out clk" "mux_reach G R U cid mx"
  shows "length (mx_conn_map mx) \<le> 1023 \<and> length (rq_q (mx_rxq mx)) \<le> 256 \<and> length (kq_q (mx_killq mx)) \<le> 128 \<and>
    distinct (map fst (mx_conn_map mx)) \<and>
    (\<forall>k c. map_of (mx_conn_map mx) k = Some c \<longrightarrow>
       c_local_cid c = VSOCK_HOST_CID \<and> c_peer_cid c = cid \<and>
       c_local_port c = k_local_port k \<and> c_peer_port c = k_peer_port k \<and>
       length (contents (c_tx_buf c)) \<le> 65536 \<and>
       (has_pending_rx c \<longrightarrow> mux_has_pending_rx mx \<and>
          (ConnRx k \<in> set (rq_q (mx_rxq mx)) \<or> \<not> rq_synced (mx_rxq mx))))"
proof -
  have ok: "mux_ok mx" "mx_cid mx = cid" using mux_reach_ok [OF assms] by auto
  have c: "c_local_cid c = VSOCK_HOST_CID \<and> c_peer_cid c = cid \<and>
       c_local_port c = k_local_port k \<and> c_peer_port c = k_peer_port k \<and>
       length (contents (c_tx_buf c)) \<le> 65536"
    if "map_of (mx_conn_map mx) k = Some c" for k c
    using mux_okD(1) [OF ok(1) that] length_contents [of "c_tx_buf c"] ok(2)
    by (auto simp: conn_good_def c_ids_def tb_wf_def TxBuf_SIZE_val)
  have p: "mux_has_pending_rx mx \<and> (ConnRx k \<in> set (rq_q (mx_rxq mx)) \<or> \<not> rq_synced (mx_rxq mx))"
    if "map_of (mx_conn_map mx) k = Some c" "has_pending_rx c" for k c
    using mux_okD(2) [OF ok(1) _ that] by (auto simp: mux_has_pending_rx_def rxq_is_empty_def)
  show ?thesis
    using mux_okD(3-6) [OF ok(1)] c p
    unfolding rxq_ok_def MAX_CONNECTIONS_def MUXER_RXQ_SIZE_def MUXER_KILLQ_SIZE_def by blast
qed

theorem muxer_invariant_witness:
  "map_of (mx_conn_map vs_mux1) vs_key = Some (new_peer_init vs_stream VSOCK_HOST_CID 3 52 1024 65536) \<and>
   mux_has_pending_rx vs_mux1"
proof -
  have "map_of (mx_conn_map vs_mux1) vs_key = Some (new_peer_init vs_stream VSOCK_HOST_CID 3 52 1024 65536)"
    by (simp add: vs_mux1_def)
  then show ?thesis
    using muxer_invariant [OF refu.uds_env_axioms vs_mux1_reach] vs_peer_init(1) by blast
qed

text \<open>
  C30. The muxer never panics or hangs: it takes every guest packet; it answers a request for a
  packet with a packet or with no data, and with no data only after it emptied its queue, so that
  no connection of a synchronized queue has anything left to say; and it handles the events of
  one notification, as long as 32 local ports are free. In particular the loop over the receive
  queue ends, and so does the sweep of the kill queue.
\<close>

theorem muxer_returns:
  assumes "uds_env G in_rng byte R U out clk" "mux_reach G R U cid mx" "buf_size pkt < 2 ^ 64"
  shows "(\<exists>h' mx'. mux_send_pkt G R U m pkt (h, mx) = Some (Inr (), (h', mx'))) \<and>
    (\<exists>res pkt' m' h' mx'. mux_recv_pkt G R U m pkt (h, mx) = Some (res, (pkt', m', h', mx')) \<and>
       (isl res \<longrightarrow> res = Inl NoData \<and> rq_q (mx_rxq mx') = [] \<and>
          (rq_synced (mx_rxq mx') \<longrightarrow> (\<forall>k c. map_of (mx_conn_map mx') k = Some c \<longrightarrow> \<not> has_pending_rx c)))) \<and>
    (card (mx_local_port_set mx) + 32 \<le> 2 ^ 30 \<longrightarrow> (\<exists>h' mx'. mux_notify U (h, mx) = Some (h', mx')))"
proof -
  have ok: "mux_ok mx" "port_ok mx" using mux_reach_ok [OF assms(1,2)] by auto
  obtain res pkt' m' h' mx' where r: "mux_recv_pkt G R U m pkt (h, mx) = Some (res, (pkt', m', h', mx'))"
      "mux_keeps mx mx'" "isl res \<longrightarrow> res = Inl NoData \<and> rxq_is_empty (mx_rxq mx')"
    using uds_env.mux_recv_pkt_spec [OF assms(1) ok(1) assms(3), of m h] by blast
  have "mux_ok mx'" using r(2) ok(1) by (simp add: mux_keeps_def)
  then have "\<not> has_pending_rx c" if "rq_synced (mx_rxq mx')" "rq_q (mx_rxq mx') = []" "map_of (mx_conn_map mx') k = Some c" for k c
    using mux_okD(2) [of mx' k c] that by auto
  then have "isl res \<longrightarrow> res = Inl NoData \<and> rq_q (mx_rxq mx') = [] \<and>
      (rq_synced (mx_rxq mx') \<longrightarrow> (\<forall>k c. map_of (mx_conn_map mx') k = Some c \<longrightarrow> \<not> has_pending_rx c))"
    using r(3) unfolding rxq_is_empty_def by blast
  moreover have "\<exists>h' mx'. mux_notify U (h, mx) = Some (h', mx')" if "card (mx_local_port_set mx) + 32 \<le> 2 ^ 30"
    using uds_env.mux_notify_spec [OF assms(1) ok, of h] that by (auto split: option.split_asm)
  ultimately show ?thesis
    using uds_env.mux_send_pkt_spec [OF assms(1) ok(1) assms(3), of m h] r(1) by blast
qed

theorem muxer_returns_witness:
  "buf_size vs_req < 2 ^ 64 \<and>
   (\<exists>res pkt' m' h' mx'. mux_recv_pkt vs_gm vs_regs ref_uds (vs_mem 0) vs_req (0, vs_mux1) = Some (res, (pkt', m', h', mx'))) \<and>
   (\<exists>h' mx'. mux_notify ref_uds (0, vs_mux1) = Some (h', mx'))"
proof -
  have s: "buf_size vs_req < 2 ^ 64" by (simp add: vs_req_def vs_pkt_def)
  have "card (mx_local_port_set vs_mux1) + 32 \<le> 2 ^ 30" by (simp add: vs_mux1_def vs_mux_def)
  then show ?thesis
    using s muxer_returns [OF refu.uds_env_axioms vs_mux1_reach s, of "vs_mem 0" 0] by blast
qed

text \<open>
  C31. The search for a local port ends, in every muxer that a device can have with fewer than \<open>2 ^ 30\<close> ports in
  \<^verbatim>\<open>local_port_set\<close>; it gives a port from \<open>2 ^ 30\<close> to \<open>2 ^ 31 - 1\<close> that was not in that set and now is, and
  the increment does not overflow. A port outside the set may still belong to a live connection, because
  \<^verbatim>\<open>remove_connection\<close> can take out the port of another connection (lemma \<open>remove_connection_frees_port\<close>).
\<close>

theorem allocate_local_port_fresh:
  assumes "uds_env G in_rng byte R U out clk" "mux_reach G R U cid mx" "card (mx_local_port_set mx) < 2 ^ 30"
  shows "\<exists>p. allocate_local_port mx =
      Some (p, mx\<lparr>mx_local_port_last := p, mx_local_port_set := insert p (mx_local_port_set mx)\<rparr>) \<and>
    2 ^ 30 \<le> unat p \<and> unat p < 2 ^ 31 \<and> p \<notin> mx_local_port_set mx"
proof -
  have "port_ok mx" using mux_reach_ok [OF assms(1,2)] by simp
  then show ?thesis
    by (rule allocate_local_port_returns) (use assms(3) in \<open>auto simp: local_ports_def\<close>)
qed

theorem allocate_local_port_fresh_witness:
  "\<exists>p mx'. allocate_local_port vs_mux = Some (p, mx') \<and> 2 ^ 30 \<le> unat p \<and> unat p < 2 ^ 31"
proof -
  have "card (mx_local_port_set vs_mux) < 2 ^ 30" by (simp add: vs_mux_def)
  then show ?thesis using allocate_local_port_fresh [OF refu.uds_env_axioms vs_mux_reach] by blast
qed

end
