(* ===== verification/Virtio_Device.thy ===== *)
theory Virtio_Device
  imports Virtio_Queue Vsock_Txbuf
begin

text \<open>
  The part that all virtio devices share, \<open>src/firecracker/src/devices/src/virtio/device.rs\<close> and
  \<open>virtio/mod.rs\<close>: feature negotiation, interrupts, and the trait \<^verbatim>\<open>VirtioDevice\<close> as a record
  of operations with the laws that a transport relies on. A device is the record of its queues,
  features and interrupt state with an inner part; the memory that an activated device holds is
  the guest memory that the operations take.
\<close>

section \<open>Constants\<close>

definition INIT :: u32 where "INIT = 0"
definition ACKNOWLEDGE :: u32 where "ACKNOWLEDGE = 1"
definition DRIVER :: u32 where "DRIVER = 2"
definition FAILED :: u32 where "FAILED = 128"
definition FEATURES_OK :: u32 where "FEATURES_OK = 8"
definition DRIVER_OK :: u32 where "DRIVER_OK = 4"

lemmas device_status_defs = INIT_def ACKNOWLEDGE_def DRIVER_def FAILED_def FEATURES_OK_def DRIVER_OK_def

definition VIRTIO_MMIO_INT_VRING :: u32 where "VIRTIO_MMIO_INT_VRING = 0x01"
definition VIRTIO_MMIO_INT_CONFIG :: u32 where "VIRTIO_MMIO_INT_CONFIG = 0x02"

datatype ActivateError = EpollCtl ErrorKind | BadActivate

section \<open>Devices\<close>

record 'd virtio_device =
  vd_queues :: "Queue list"
  vd_queue_events :: "int list"
  vd_avail_features :: u64
  vd_acked_features :: u64
  vd_irq_status :: u64
  vd_irq_evt :: int
  vd_activate_evt :: int
  vd_activated :: bool
  vd_inner :: 'd

text \<open>Event descriptors of the host: making one, reading one, and adding to one.\<close>

record 'h eventfds =
  ev_new :: "'h \<Rightarrow> (ErrorKind + int) \<times> 'h"
  ev_read :: "'h \<Rightarrow> int \<Rightarrow> (ErrorKind + u64) \<times> 'h"
  ev_write :: "'h \<Rightarrow> int \<Rightarrow> u64 \<Rightarrow> (ErrorKind + unit) \<times> 'h"

datatype IrqType = IrqConfig | IrqVring

definition trigger_irq :: "'h eventfds \<Rightarrow> 'h \<Rightarrow> IrqType \<Rightarrow> 'd virtio_device \<Rightarrow>
    (ErrorKind + unit) \<times> 'h \<times> 'd virtio_device" where
  "trigger_irq E h ty d =
     (let irq = (case ty of IrqConfig \<Rightarrow> VIRTIO_MMIO_INT_CONFIG | IrqVring \<Rightarrow> VIRTIO_MMIO_INT_VRING);
          d1 = d\<lparr> vd_irq_status := vd_irq_status d OR ucast irq \<rparr>;
          (res, h1) = ev_write E h (vd_irq_evt d1) 1
      in (res, h1, d1))"

text \<open>The shift panics for a feature number of 64 or more.\<close>

definition has_feature :: "u64 \<Rightarrow> 'd virtio_device \<Rightarrow> bool option" where
  "has_feature feature d =
     (if feature < 64 then Some (vd_acked_features d AND push_bit (unat feature) 1 \<noteq> 0) else None)"

definition avail_features_by_page :: "u32 \<Rightarrow> 'd virtio_device \<Rightarrow> u32" where
  "avail_features_by_page page d =
     (if page = 0 then ucast (vd_avail_features d)
      else if page = 1 then ucast (drop_bit 32 (vd_avail_features d))
      else 0)"

definition ack_features_by_page :: "u32 \<Rightarrow> u32 \<Rightarrow> 'd virtio_device \<Rightarrow> 'd virtio_device" where
  "ack_features_by_page page val d =
     (let v = (if page = 0 then ucast val else if page = 1 then push_bit 32 (ucast val) else 0);
          unrequested_features = v AND NOT (vd_avail_features d);
          v' = (if unrequested_features \<noteq> 0 then v AND NOT unrequested_features else v)
      in d\<lparr> vd_acked_features := vd_acked_features d OR v' \<rparr>)"

text \<open>The operations that a device implements itself. A reset tells whether it is supported.\<close>

record ('h, 'd) device_ops =
  dop_type :: u32
  dop_activate :: "'h \<Rightarrow> 'd virtio_device \<Rightarrow> (ActivateError + unit) \<times> 'h \<times> 'd virtio_device"
  dop_read_config :: "'d virtio_device \<Rightarrow> u64 \<Rightarrow> bytes \<Rightarrow> bytes"
  dop_write_config :: "'d virtio_device \<Rightarrow> u64 \<Rightarrow> bytes \<Rightarrow> 'd virtio_device"
  dop_reset :: "'d virtio_device \<Rightarrow> bool \<times> 'd virtio_device"

text \<open>
  What a transport relies on: these operations leave the queues and the features alone, except that an
  activation may switch the notification suppression of queues.
\<close>

definition same_setup :: "'d virtio_device \<Rightarrow> 'd virtio_device \<Rightarrow> bool" where
  "same_setup d d' \<longleftrightarrow> vd_queues d' = vd_queues d \<and> vd_avail_features d' = vd_avail_features d \<and>
     vd_acked_features d' = vd_acked_features d"

definition activated_setup :: "'d virtio_device \<Rightarrow> 'd virtio_device \<Rightarrow> bool" where
  "activated_setup d d' \<longleftrightarrow> list_all2 (\<lambda>q q'. \<exists>b. q' = q\<lparr>uses_notif_suppression := b\<rparr>) (vd_queues d) (vd_queues d') \<and>
     vd_avail_features d' = vd_avail_features d \<and> vd_acked_features d' = vd_acked_features d \<and> vd_activated d'"

locale virtio_device_ops =
  fixes D :: "('h, 'd) device_ops"
  assumes activate_ok: "dop_activate D h d = (Inr (), h', d') \<Longrightarrow> activated_setup d d'"
    and write_config_frame: "same_setup d (dop_write_config D d off data) \<and>
      vd_activated (dop_write_config D d off data) = vd_activated d"
    and reset_frame: "dop_reset D d = (ok, d') \<Longrightarrow> same_setup d d' \<and> (if ok then \<not> vd_activated d' else d' = d)"

text \<open>
  The activation of the network and of the block device, which switches the suppression on when the driver
  acknowledged \<^verbatim>\<open>VIRTIO_RING_F_EVENT_IDX\<close>. Both keep the law.
\<close>

definition VIRTIO_RING_F_EVENT_IDX :: u32 where "VIRTIO_RING_F_EVENT_IDX = 29"

definition net_activate :: "'h eventfds \<Rightarrow> 'h \<Rightarrow> 'd virtio_device \<Rightarrow> (ActivateError + unit) \<times> 'h \<times> 'd virtio_device" where
  "net_activate E h d =
     (let event_idx = has_feature (ucast VIRTIO_RING_F_EVENT_IDX) d = Some True;
          d1 = (if event_idx then d\<lparr> vd_queues := map enable_notif_suppression (vd_queues d) \<rparr> else d)
      in case ev_write E h (vd_activate_evt d1) 1 of
          (Inl _, h1) \<Rightarrow> (Inl BadActivate, h1, d1)
        | (Inr _, h1) \<Rightarrow> (Inr (), h1, d1\<lparr> vd_activated := True \<rparr>))"

definition block_activate :: "'h eventfds \<Rightarrow> 'h \<Rightarrow> 'd virtio_device \<Rightarrow> (ActivateError + unit) \<times> 'h \<times> 'd virtio_device" where
  "block_activate E h d =
     (let event_idx = has_feature (ucast VIRTIO_RING_F_EVENT_IDX) d = Some True;
          d1 = (if event_idx then d\<lparr> vd_queues := map enable_notif_suppression (vd_queues d) \<rparr> else d)
      in case ev_write E h (vd_activate_evt d1) 1 of
          (Inl _, h1) \<Rightarrow> (Inl BadActivate, h1, d1)
        | (Inr _, h1) \<Rightarrow> (Inr (), h1, d1\<lparr> vd_activated := True \<rparr>))"

lemma same_setup_activated: "same_setup d d' \<Longrightarrow> vd_activated d' \<Longrightarrow> activated_setup d d'"
proof -
  have "\<exists>b. q = q\<lparr>uses_notif_suppression := b\<rparr>" for q :: Queue by (rule exI [of _ "uses_notif_suppression q"]) simp
  then show "same_setup d d' \<Longrightarrow> vd_activated d' \<Longrightarrow> activated_setup d d'"
    by (simp add: same_setup_def activated_setup_def list_all2_refl)
qed

lemma event_idx_activate_ok:
  "net_activate E h d = (Inr (), h', d') \<Longrightarrow> activated_setup d d'"
  "block_activate E h d = (Inr (), h', d') \<Longrightarrow> activated_setup d d'"
proof -
  have q: "\<exists>b. q = q\<lparr>uses_notif_suppression := b\<rparr>" for q :: Queue by (rule exI [of _ "uses_notif_suppression q"]) simp
  show n: "net_activate E h d = (Inr (), h', d') \<Longrightarrow> activated_setup d d'"
    by (auto simp: net_activate_def activated_setup_def enable_notif_suppression_def list_all2_conv_all_nth Let_def q
        split: prod.split_asm sum.split_asm if_split_asm)
  show "block_activate E h d = (Inr (), h', d') \<Longrightarrow> activated_setup d d'"
    by (auto simp: block_activate_def activated_setup_def enable_notif_suppression_def list_all2_conv_all_nth Let_def q
        split: prod.split_asm sum.split_asm if_split_asm)
qed

lemma ack_features_subset:
  assumes "vd_acked_features d AND NOT (vd_avail_features d) = 0"
  shows "vd_acked_features (ack_features_by_page page v d) AND NOT (vd_avail_features d) = 0"
proof -
  have "(a OR (b AND NOT (b AND NOT c))) AND NOT c = a AND NOT c" for a b c :: u64
    by (rule bit_word_eqI) (auto simp: bit_simps)
  moreover have "(a OR b) AND NOT c = a AND NOT c" if "b AND NOT c = 0" for a b c :: u64
    using that by (auto simp: bit_eq_iff bit_simps)
  ultimately show ?thesis using assms by (auto simp: ack_features_by_page_def Let_def)
qed

lemma ack_features_frame [simp]:
  "vd_queues (ack_features_by_page page v d) = vd_queues d"
  "vd_avail_features (ack_features_by_page page v d) = vd_avail_features d"
  "vd_activated (ack_features_by_page page v d) = vd_activated d"
  by (simp_all add: ack_features_by_page_def Let_def)

end
