(* ===== verification/Vsock_Device.thy ===== *)
theory Vsock_Device
  imports Vsock_Muxer_Safety Virtio_Device
begin

text \<open>
  The vsock device, \<open>src/firecracker/src/devices/src/virtio/vsock/device.rs\<close> and
  \<open>event_handler.rs\<close>, over the muxer as its backend: it moves packets between the virtio queues
  and the muxer. The state of an operation is the guest memory, the host, and the device.
\<close>

section \<open>The device\<close>

definition RXQ_INDEX :: nat where "RXQ_INDEX = 0"
definition TXQ_INDEX :: nat where "TXQ_INDEX = 1"
definition EVQ_INDEX :: nat where "EVQ_INDEX = 2"
definition VIRTIO_VSOCK_EVENT_TRANSPORT_RESET :: u32 where "VIRTIO_VSOCK_EVENT_TRANSPORT_RESET = 0"

definition AVAIL_FEATURES :: u64 where
  "AVAIL_FEATURES = push_bit VIRTIO_F_VERSION_1 1 OR push_bit VIRTIO_F_IN_ORDER 1"

datatype 'e DeviceError =
    FailedReadTap
  | FailedSignalingIrq ErrorKind
  | DevIoError ErrorKind
  | MalformedPayload
  | MalformedDescriptor
  | DevQueueError "'e QueueError"
  | DevVsockError "'e VsockError"

text \<open>The descriptor of the backend is that of the epoll of the muxer.\<close>

record 's vsock_part =
  vk_cid :: u64
  vk_backend :: "'s VsockMuxer"
  vk_backend_fd :: int

type_synonym 's Vsock = "'s vsock_part virtio_device"

abbreviation backend :: "'s Vsock \<Rightarrow> 's VsockMuxer" where
  "backend d \<equiv> vk_backend (vd_inner d)"

definition set_backend :: "'s VsockMuxer \<Rightarrow> 's Vsock \<Rightarrow> 's Vsock" where
  "set_backend mx d = d\<lparr> vd_inner := (vd_inner d)\<lparr> vk_backend := mx \<rparr> \<rparr>"

definition set_queue :: "nat \<Rightarrow> Queue \<Rightarrow> 'd virtio_device \<Rightarrow> 'd virtio_device" where
  "set_queue i q d = d\<lparr> vd_queues := (vd_queues d)[i := q] \<rparr>"

fun new_events :: "'h eventfds \<Rightarrow> 'h \<Rightarrow> nat \<Rightarrow> (ErrorKind + int list) \<times> 'h" where
  "new_events E h 0 = (Inr [], h)"
| "new_events E h (Suc n) = (case ev_new E h of
     (Inl e, h1) \<Rightarrow> (Inl e, h1)
   | (Inr fd, h1) \<Rightarrow> (case new_events E h1 n of
       (Inl e, h2) \<Rightarrow> (Inl e, h2)
     | (Inr fds, h2) \<Rightarrow> (Inr (fd # fds), h2)))"

definition with_queues :: "'h eventfds \<Rightarrow> 'h \<Rightarrow> u64 \<Rightarrow> 's VsockMuxer \<times> int \<Rightarrow> Queue list \<Rightarrow>
    ('e VsockError + 's Vsock) \<times> 'h" where
  "with_queues E h cid be queues = (case new_events E h (length queues) of
     (Inl e, h1) \<Rightarrow> (Inl (EventFdError e), h1)
   | (Inr queue_events, h1) \<Rightarrow> (case ev_new E h1 of
       (Inl e, h2) \<Rightarrow> (Inl (EventFdError e), h2)
     | (Inr irq_evt, h2) \<Rightarrow> (case ev_new E h2 of
         (Inl e, h3) \<Rightarrow> (Inl (EventFdError e), h3)
       | (Inr activate_evt, h3) \<Rightarrow>
           (Inr \<lparr> vd_queues = queues, vd_queue_events = queue_events, vd_avail_features = AVAIL_FEATURES,
                  vd_acked_features = 0, vd_irq_status = 0, vd_irq_evt = irq_evt,
                  vd_activate_evt = activate_evt, vd_activated = False,
                  vd_inner = \<lparr> vk_cid = cid, vk_backend = fst be, vk_backend_fd = snd be \<rparr> \<rparr>, h3))))"

definition Vsock_new :: "'h eventfds \<Rightarrow> 'h \<Rightarrow> u64 \<Rightarrow> 's VsockMuxer \<times> int \<Rightarrow>
    ('e VsockError + 's Vsock) \<times> 'h" where
  "Vsock_new E h cid be = with_queues E h cid be (map Queue_new (replicate NUM_QUEUES QUEUE_SIZE))"

definition signal_used_queue :: "'h eventfds \<Rightarrow> 'h \<Rightarrow> 's Vsock \<Rightarrow> ('e DeviceError + unit) \<times> 'h \<times> 's Vsock" where
  "signal_used_queue E h d = (let (res, h1, d1) = trigger_irq E h IrqVring d
     in (map_sum FailedSignalingIrq id res, h1, d1))"

section \<open>Packets\<close>

type_synonym ('m, 'h, 's) vstate = "'m \<times> 'h \<times> 's Vsock"

text \<open>\<^verbatim>\<open>add_used\<close> on a queue of the device; an error is only logged.\<close>

definition use_chain :: "('m, 'e) gmem \<Rightarrow> nat \<Rightarrow> u16 \<Rightarrow> u32 \<Rightarrow> 'm \<Rightarrow> 's Vsock \<Rightarrow> ('m \<times> 's Vsock) option" where
  "use_chain G i index len m d = do {
     q \<leftarrow> idx (vd_queues d) i;
     (q1, m1, _) \<leftarrow> add_used G q m index len;
     Some (m1, set_queue i q1 d)
   }"

text \<open>One round of the loop of \<^verbatim>\<open>process_rx\<close>: whether a chain was used, and the state after it.\<close>

definition rx_round :: "('m, 'e) gmem \<Rightarrow> ('m, 'r, 'e, 's) guest_regions \<Rightarrow> ('h, 's) uds \<Rightarrow>
    ('m, 'h, 's) vstate \<Rightarrow> (bool \<times> ('m, 'h, 's) vstate) option" where
  "rx_round G R U st = do {
     let (m, h, d) = st;
     q \<leftarrow> idx (vd_queues d) RXQ_INDEX;
     (popped, q1) \<leftarrow> queue_pop G q m;
     let d1 = set_queue RXQ_INDEX q1 d;
     case popped of
       None \<Rightarrow> Some (False, (m, h, d1))
     | Some head \<Rightarrow> (case from_rx_virtq_head G R m head of
         Inl _ \<Rightarrow> do {
           (m1, d2) \<leftarrow> use_chain G RXQ_INDEX (dc_index head) 0 m d1;
           Some (True, (m1, h, d2))
         }
       | Inr pkt \<Rightarrow> do {
           (res, pkt1, m1, h1, mx1) \<leftarrow> mux_recv_pkt G R U m pkt (h, backend d1);
           let d2 = set_backend mx1 d1;
           case res of
             Inl _ \<Rightarrow> Some (False, (m1, h1, set_queue RXQ_INDEX (undo_pop q1) d2))
           | Inr _ \<Rightarrow> do {
               let (m2, committed) = commit_hdr G m1 pkt1;
               used_len \<leftarrow> (case committed of
                 Inr _ \<Rightarrow> add_c (of_nat VSOCK_PKT_HDR_SIZE) (h_len (hdr pkt1)) | Inl _ \<Rightarrow> Some 0);
               (m3, d3) \<leftarrow> use_chain G RXQ_INDEX (dc_index head) used_len m2 d2;
               Some (True, (m3, h1, d3))
             }
         })
   }"

partial_function (option) rx_loop :: "('m, 'e) gmem \<Rightarrow> ('m, 'r, 'e, 's) guest_regions \<Rightarrow> ('h, 's) uds \<Rightarrow>
    bool \<Rightarrow> ('m, 'h, 's) vstate \<Rightarrow> (bool \<times> ('m, 'h, 's) vstate) option" where
  "rx_loop G R U have_used st = do {
     (used, st1) \<leftarrow> rx_round G R U st;
     if used then rx_loop G R U True st1 else Some (have_used, st1)
   }"

definition process_rx :: "('m, 'e) gmem \<Rightarrow> ('m, 'r, 'e, 's) guest_regions \<Rightarrow> ('h, 's) uds \<Rightarrow>
    ('m, 'h, 's) vstate \<Rightarrow> (bool \<times> ('m, 'h, 's) vstate) option" where
  "process_rx G R U st = do {
     assert_that (vd_activated (snd (snd st)));
     rx_loop G R U False st
   }"

text \<open>The same for \<^verbatim>\<open>process_tx\<close>.\<close>

definition tx_round :: "('m, 'e) gmem \<Rightarrow> ('m, 'r, 'e, 's) guest_regions \<Rightarrow> ('h, 's) uds \<Rightarrow>
    ('m, 'h, 's) vstate \<Rightarrow> (bool \<times> ('m, 'h, 's) vstate) option" where
  "tx_round G R U st = do {
     let (m, h, d) = st;
     q \<leftarrow> idx (vd_queues d) TXQ_INDEX;
     (popped, q1) \<leftarrow> queue_pop G q m;
     let d1 = set_queue TXQ_INDEX q1 d;
     case popped of
       None \<Rightarrow> Some (False, (m, h, d1))
     | Some head \<Rightarrow> (case from_tx_virtq_head G R m head of
         Inl _ \<Rightarrow> do {
           (m1, d2) \<leftarrow> use_chain G TXQ_INDEX (dc_index head) 0 m d1;
           Some (True, (m1, h, d2))
         }
       | Inr pkt \<Rightarrow> do {
           (res, (h1, mx1)) \<leftarrow> mux_send_pkt G R U m pkt (h, backend d1);
           let d2 = set_backend mx1 d1;
           case res of
             Inl _ \<Rightarrow> Some (False, (m, h1, set_queue TXQ_INDEX (undo_pop q1) d2))
           | Inr _ \<Rightarrow> do {
               (m1, d3) \<leftarrow> use_chain G TXQ_INDEX (dc_index head) 0 m d2;
               Some (True, (m1, h1, d3))
             }
         })
   }"

partial_function (option) tx_loop :: "('m, 'e) gmem \<Rightarrow> ('m, 'r, 'e, 's) guest_regions \<Rightarrow> ('h, 's) uds \<Rightarrow>
    bool \<Rightarrow> ('m, 'h, 's) vstate \<Rightarrow> (bool \<times> ('m, 'h, 's) vstate) option" where
  "tx_loop G R U have_used st = do {
     (used, st1) \<leftarrow> tx_round G R U st;
     if used then tx_loop G R U True st1 else Some (have_used, st1)
   }"

definition process_tx :: "('m, 'e) gmem \<Rightarrow> ('m, 'r, 'e, 's) guest_regions \<Rightarrow> ('h, 's) uds \<Rightarrow>
    ('m, 'h, 's) vstate \<Rightarrow> (bool \<times> ('m, 'h, 's) vstate) option" where
  "process_tx G R U st = do {
     assert_that (vd_activated (snd (snd st)));
     tx_loop G R U False st
   }"

definition send_transport_reset_event :: "('m, 'e) gmem \<Rightarrow> 'h eventfds \<Rightarrow> ('m, 'h, 's) vstate \<Rightarrow>
    (('e DeviceError + unit) \<times> ('m, 'h, 's) vstate) option" where
  "send_transport_reset_event G E st = do {
     let (m, h, d) = st;
     assert_that (vd_activated d);
     q \<leftarrow> idx (vd_queues d) EVQ_INDEX;
     (popped, q1) \<leftarrow> queue_pop G q m;
     let d1 = set_queue EVQ_INDEX q1 d;
     case popped of
       None \<Rightarrow> Some (Inl (DevVsockError EmptyQueue), (m, h, d1))
     | Some head \<Rightarrow> do {
         let (m1, _) = write_u32 G m VIRTIO_VSOCK_EVENT_TRANSPORT_RESET (dc_addr head);
         (m2, d2) \<leftarrow> use_chain G EVQ_INDEX (dc_index head) (dc_len head) m1 d1;
         let (res, h1, d3) = signal_used_queue E h d2;
         Some (res, (m2, h1, d3))
       }
   }"

section \<open>The device under a transport\<close>

definition vsock_read_config :: "'s Vsock \<Rightarrow> u64 \<Rightarrow> bytes \<Rightarrow> bytes" where
  "vsock_read_config d offset data =
     (let cid = vk_cid (vd_inner d) in
      if offset = 0 \<and> length data = 8 then le_bytes 8 (unat cid)
      else if offset = 0 \<and> length data = 4 then le_bytes 4 (unat (ucast (cid AND 0xffffffff) :: u32))
      else if offset = 4 \<and> length data = 4 then le_bytes 4 (unat (ucast (drop_bit 32 cid AND 0xffffffff) :: u32))
      else data)"

definition vsock_write_config :: "'s Vsock \<Rightarrow> u64 \<Rightarrow> bytes \<Rightarrow> 's Vsock" where
  "vsock_write_config d offset data = d"

definition vsock_activate :: "'h eventfds \<Rightarrow> 'h \<Rightarrow> 's Vsock \<Rightarrow> (ActivateError + unit) \<times> 'h \<times> 's Vsock" where
  "vsock_activate E h d =
     (if length (vd_queues d) \<noteq> NUM_QUEUES then (Inl BadActivate, h, d)
      else (case ev_write E h (vd_activate_evt d) 1 of
          (Inl _, h1) \<Rightarrow> (Inl BadActivate, h1, d)
        | (Inr _, h1) \<Rightarrow> (Inr (), h1, d\<lparr> vd_activated := True \<rparr>)))"

text \<open>The default \<^verbatim>\<open>VirtioDevice::reset\<close>, which no device overrides.\<close>

definition default_reset :: "'d virtio_device \<Rightarrow> bool \<times> 'd virtio_device" where
  "default_reset d = (False, d)"

definition vsock_ops :: "'h eventfds \<Rightarrow> ('h, 's vsock_part) device_ops" where
  "vsock_ops E = \<lparr> dop_type = VIRTIO_ID_VSOCK, dop_activate = vsock_activate E,
     dop_read_config = vsock_read_config, dop_write_config = vsock_write_config,
     dop_reset = default_reset \<rparr>"

interpretation vsd: virtio_device_ops "vsock_ops E" for E
  by unfold_locales
    (auto simp: vsock_ops_def vsock_activate_def vsock_write_config_def default_reset_def same_setup_def
      intro!: same_setup_activated split: if_split_asm prod.split_asm sum.split_asm)

section \<open>Events\<close>

definition handle_rxq_event :: "('m, 'e) gmem \<Rightarrow> ('m, 'r, 'e, 's) guest_regions \<Rightarrow> ('h, 's) uds \<Rightarrow> 'h eventfds \<Rightarrow>
    EventSet \<Rightarrow> ('m, 'h, 's) vstate \<Rightarrow> (bool \<times> ('m, 'h, 's) vstate) option" where
  "handle_rxq_event G R U E evset st = do {
     let (m, h, d) = st;
     if evset \<noteq> EventSet_IN then Some (False, (m, h, d))
     else do {
       fd \<leftarrow> idx (vd_queue_events d) RXQ_INDEX;
       (case ev_read E h fd of
          (Inl _, h1) \<Rightarrow> Some (False, (m, h1, d))
        | (Inr _, h1) \<Rightarrow>
            if mux_has_pending_rx (backend d) then process_rx G R U (m, h1, d) else Some (False, (m, h1, d)))
     }
   }"

text \<open>\<^verbatim>\<open>process_tx\<close> and then, when the backend has something to say, \<^verbatim>\<open>process_rx\<close>.\<close>

definition process_both :: "('m, 'e) gmem \<Rightarrow> ('m, 'r, 'e, 's) guest_regions \<Rightarrow> ('h, 's) uds \<Rightarrow>
    ('m, 'h, 's) vstate \<Rightarrow> (bool \<times> ('m, 'h, 's) vstate) option" where
  "process_both G R U st = do {
     (raise_irq, (m, h, d)) \<leftarrow> process_tx G R U st;
     if mux_has_pending_rx (backend d)
     then do { (r, st1) \<leftarrow> process_rx G R U (m, h, d); Some (raise_irq \<or> r, st1) }
     else Some (raise_irq, (m, h, d))
   }"

definition handle_txq_event :: "('m, 'e) gmem \<Rightarrow> ('m, 'r, 'e, 's) guest_regions \<Rightarrow> ('h, 's) uds \<Rightarrow> 'h eventfds \<Rightarrow>
    EventSet \<Rightarrow> ('m, 'h, 's) vstate \<Rightarrow> (bool \<times> ('m, 'h, 's) vstate) option" where
  "handle_txq_event G R U E evset st = do {
     let (m, h, d) = st;
     if evset \<noteq> EventSet_IN then Some (False, (m, h, d))
     else do {
       fd \<leftarrow> idx (vd_queue_events d) TXQ_INDEX;
       (case ev_read E h fd of
          (Inl _, h1) \<Rightarrow> Some (False, (m, h1, d))
        | (Inr _, h1) \<Rightarrow> process_both G R U (m, h1, d))
     }
   }"

definition handle_evq_event :: "'h eventfds \<Rightarrow> EventSet \<Rightarrow> ('m, 'h, 's) vstate \<Rightarrow>
    (bool \<times> ('m, 'h, 's) vstate) option" where
  "handle_evq_event E evset st = do {
     let (m, h, d) = st;
     if evset \<noteq> EventSet_IN then Some (False, (m, h, d))
     else do {
       fd \<leftarrow> idx (vd_queue_events d) EVQ_INDEX;
       let (_, h1) = ev_read E h fd;
       Some (False, (m, h1, d))
     }
   }"

definition notify_backend :: "('m, 'e) gmem \<Rightarrow> ('m, 'r, 'e, 's) guest_regions \<Rightarrow> ('h, 's) uds \<Rightarrow>
    ('m, 'h, 's) vstate \<Rightarrow> (bool \<times> ('m, 'h, 's) vstate) option" where
  "notify_backend G R U st = do {
     let (m, h, d) = st;
     (h1, mx1) \<leftarrow> mux_notify U (h, backend d);
     process_both G R U (m, h1, set_backend mx1 d)
   }"

text \<open>
  The calls to \<^verbatim>\<open>EventOps\<close>, whose errors are only logged, are returned as a list.
\<close>

datatype event_op = OpAdd int EventSet | OpRemove int EventSet

definition register_runtime_events :: "'s Vsock \<Rightarrow> event_op list option" where
  "register_runtime_events d = do {
     rxq \<leftarrow> idx (vd_queue_events d) RXQ_INDEX;
     txq \<leftarrow> idx (vd_queue_events d) TXQ_INDEX;
     evq \<leftarrow> idx (vd_queue_events d) EVQ_INDEX;
     Some [OpAdd rxq EventSet_IN, OpAdd txq EventSet_IN, OpAdd evq EventSet_IN,
           OpAdd (vk_backend_fd (vd_inner d)) EventSet_IN]
   }"

definition register_activate_event :: "'s Vsock \<Rightarrow> event_op list" where
  "register_activate_event d = [OpAdd (vd_activate_evt d) EventSet_IN]"

definition handle_activate_event :: "'h eventfds \<Rightarrow> 'h \<Rightarrow> 's Vsock \<Rightarrow> (event_op list \<times> 'h) option" where
  "handle_activate_event E h d = do {
     let (_, h1) = ev_read E h (vd_activate_evt d);
     ops \<leftarrow> register_runtime_events d;
     Some (ops @ [OpRemove (vd_activate_evt d) EventSet_IN], h1)
   }"

text \<open>The match on the source of an event: the calls, whether to interrupt the driver, and the state.\<close>

definition vsock_dispatch :: "('m, 'e) gmem \<Rightarrow> ('m, 'r, 'e, 's) guest_regions \<Rightarrow> ('h, 's) uds \<Rightarrow> 'h eventfds \<Rightarrow>
    int \<times> int \<times> int \<Rightarrow> int \<Rightarrow> EventSet \<Rightarrow> ('m, 'h, 's) vstate \<Rightarrow>
    (event_op list \<times> bool \<times> ('m, 'h, 's) vstate) option" where
  "vsock_dispatch G R U E qs source evset st =
     (let (rxq, txq, evq) = qs; (m, h, d) = st in
      if source = rxq then map_option (Pair []) (handle_rxq_event G R U E evset st)
      else if source = txq then map_option (Pair []) (handle_txq_event G R U E evset st)
      else if source = evq then map_option (Pair []) (handle_evq_event E evset st)
      else if source = vk_backend_fd (vd_inner d) then map_option (Pair []) (notify_backend G R U st)
      else if source = vd_activate_evt d then
        map_option (\<lambda>(ops, h1). (ops, False, (m, h1, d))) (handle_activate_event E h d)
      else Some ([], False, st))"

definition vsock_process :: "('m, 'e) gmem \<Rightarrow> ('m, 'r, 'e, 's) guest_regions \<Rightarrow> ('h, 's) uds \<Rightarrow> 'h eventfds \<Rightarrow>
    int \<Rightarrow> EventSet \<Rightarrow> ('m, 'h, 's) vstate \<Rightarrow> (event_op list \<times> ('m, 'h, 's) vstate) option" where
  "vsock_process G R U E source evset st = do {
     let d = snd (snd st);
     rxq \<leftarrow> idx (vd_queue_events d) RXQ_INDEX;
     txq \<leftarrow> idx (vd_queue_events d) TXQ_INDEX;
     evq \<leftarrow> idx (vd_queue_events d) EVQ_INDEX;
     if vd_activated d then do {
       (ops, raise_irq, (m1, h1, d1)) \<leftarrow> vsock_dispatch G R U E (rxq, txq, evq) source evset st;
       if raise_irq
       then (let (_ :: 'e DeviceError + unit, h2, d2) = signal_used_queue E h1 d1 in Some (ops, (m1, h2, d2)))
       else Some (ops, (m1, h1, d1))
     }
     else Some ([], st)
   }"

definition vsock_init :: "'s Vsock \<Rightarrow> event_op list option" where
  "vsock_init d = (if vd_activated d then register_runtime_events d else Some (register_activate_event d))"

end
