(* ===== verification/Queue_Service.thy ===== *)
theory Queue_Service
  imports Virtio_Queue
begin

text \<open>
  How a device serves a virtio queue, \<open>src/firecracker/src/devices/src/virtio/queue.rs\<close>: it pops
  chains in the order of the available ring and reports them in the used ring. The lemmas follow
  such a run through the memory that driver and device share.
\<close>

section \<open>The memory of a queue\<close>

definition driver_area :: "Queue \<Rightarrow> nat set" where
  "driver_area q = {unat (desc_table q) ..< unat (desc_table q) + 16 * unat (q_size q)} \<union>
     {unat (avail_ring q) ..< unat (avail_ring q) + (6 + 2 * unat (q_size q))}"

definition device_area :: "Queue \<Rightarrow> nat set" where
  "device_area q = {unat (used_ring q) ..< unat (used_ring q) + (6 + 8 * unat (q_size q))}"

definition rings_apart :: "Queue \<Rightarrow> bool" where
  "rings_apart q \<longleftrightarrow> driver_area q \<inter> device_area q = {}"

definition agree :: "nat set \<Rightarrow> (nat \<Rightarrow> u8) \<Rightarrow> (nat \<Rightarrow> u8) \<Rightarrow> bool" where
  "agree S b b' \<longleftrightarrow> (\<forall>k\<in>S. b' k = b k)"

lemma agree_refl [simp]: "agree S b b" by (simp add: agree_def)

lemma agree_trans: "agree S b b1 \<Longrightarrow> agree S b1 b2 \<Longrightarrow> agree S b b2" by (simp add: agree_def)

lemma agree_sub: "agree S b b' \<Longrightarrow> T \<subseteq> S \<Longrightarrow> agree T b b'" by (auto simp: agree_def)

lemma agree_bytes_at: "agree S b b' \<Longrightarrow> {a ..< a + n} \<subseteq> S \<Longrightarrow> bytes_at b' a n = bytes_at b a n"
  by (auto simp: agree_def bytes_at_def subset_iff)

text \<open>What the device reads of the driver's rings, and what the driver reads of the device's.\<close>

lemma agree_avail:
  assumes "agree (driver_area q) b b'" "q_size q \<noteq> 0"
  shows "avail_idx_at b' q = avail_idx_at b q" "avail_entry b' q i = avail_entry b q i"
    "pending b' q = pending b q"
proof -
  have "unat i mod unat (q_size q) < unat (q_size q)" for i :: u16 using assms(2) by (simp add: unat_gt_0)
  then have r: "2 * (unat i mod unat (q_size q)) + 2 \<le> 2 * unat (q_size q)" for i :: u16
    by (metis Suc_leI add_2_eq_Suc' mult_Suc_right mult_le_mono2 add.commute)
  have e: "avail_entry b' q i = avail_entry b q i" for i
    using r [of i] unfolding avail_entry_def u16_at_def
    by (subst agree_bytes_at [OF assms(1)]) (auto simp: driver_area_def)
  have x: "avail_idx_at b' q = avail_idx_at b q"
    unfolding avail_idx_at_def u16_at_def
    by (subst agree_bytes_at [OF assms(1)]) (auto simp: driver_area_def)
  show "avail_idx_at b' q = avail_idx_at b q" "avail_entry b' q i = avail_entry b q i"
    "pending b' q = pending b q" using e x by (simp_all add: pending_def)
qed

lemma agree_used:
  assumes "agree (device_area q) b b'" "q_size q \<noteq> 0"
  shows "used_entry b' q i = used_entry b q i" "used_idx_at b' q = used_idx_at b q"
proof -
  note bd = used_slot_bounds [OF assms(2), of i]
  show "used_entry b' q i = used_entry b q i" unfolding used_entry_def u32_at_def using bd
    by (subst (1 2) agree_bytes_at [OF assms(1)]) (auto simp: device_area_def)
  show "used_idx_at b' q = used_idx_at b q" unfolding used_idx_at_def u16_at_def
    by (subst agree_bytes_at [OF assms(1)]) (auto simp: device_area_def)
qed

definition desc_at :: "(nat \<Rightarrow> u8) \<Rightarrow> Queue \<Rightarrow> nat \<Rightarrow> Descriptor" where
  "desc_at b q i = Descriptor_of_bytes (bytes_at b (unat (desc_table q) + 16 * i) 16)"

definition desc_buf :: "(nat \<Rightarrow> u8) \<Rightarrow> Queue \<Rightarrow> nat \<Rightarrow> nat set" where
  "desc_buf b q i = {unat (d_addr (desc_at b q i)) ..< unat (d_addr (desc_at b q i)) + unat (d_len (desc_at b q i))}"

text \<open>No buffer of a descriptor of the queue overlaps the queue's own memory.\<close>

definition bufs_private :: "(nat \<Rightarrow> u8) \<Rightarrow> Queue \<Rightarrow> bool" where
  "bufs_private b q \<longleftrightarrow> (\<forall>i < unat (q_size q). desc_buf b q i \<inter> (driver_area q \<union> device_area q) = {})"

lemma agree_desc_at:
  assumes "agree (driver_area q) b b'" "i < unat (q_size q)"
  shows "desc_at b' q i = desc_at b q i"
  using assms(2) unfolding desc_at_def
  by (subst agree_bytes_at [OF assms(1)]) (auto simp: driver_area_def)

lemma agree_bufs_private: "agree (driver_area q) b b' \<Longrightarrow> bufs_private b' q = bufs_private b q"
  by (simp add: bufs_private_def desc_buf_def agree_desc_at)

text \<open>These notions depend on the rings of the queue only.\<close>

lemma queue_area_upd [simp]:
  "driver_area (q\<lparr>next_avail := x\<rparr>) = driver_area q" "device_area (q\<lparr>next_avail := x\<rparr>) = device_area q"
  "driver_area (q\<lparr>num_added := y\<rparr>) = driver_area q" "device_area (q\<lparr>num_added := y\<rparr>) = device_area q"
  "driver_area (q\<lparr>next_used := z\<rparr>) = driver_area q" "device_area (q\<lparr>next_used := z\<rparr>) = device_area q"
  by (simp_all add: driver_area_def device_area_def)

lemma avail_entry_upd [simp]:
  "avail_entry b (q\<lparr>next_avail := x\<rparr>) = avail_entry b q" "avail_entry b (q\<lparr>num_added := y\<rparr>) = avail_entry b q"
  "avail_entry b (q\<lparr>next_used := z\<rparr>) = avail_entry b q"
  "avail_idx_at b (q\<lparr>next_avail := x\<rparr>) = avail_idx_at b q" "avail_idx_at b (q\<lparr>num_added := y\<rparr>) = avail_idx_at b q"
  "avail_idx_at b (q\<lparr>next_used := z\<rparr>) = avail_idx_at b q"
  by (simp_all add: avail_entry_def avail_idx_at_def fun_eq_iff)

lemma used_slot_upd [simp]:
  "used_slot (q\<lparr>next_avail := x\<rparr>) = used_slot q" "used_slot (q\<lparr>num_added := y\<rparr>) = used_slot q"
  "used_slot (q\<lparr>next_used := z\<rparr>) = used_slot q"
  by (simp_all add: used_slot_def fun_eq_iff)

context guest_memory
begin

lemma checked_new_read:
  assumes "queue_mapped (in_rng m) q" "checked_new G m (desc_table q) (q_size q) i = Some c"
  shows "i < q_size q" "dc_addr c = d_addr (desc_at (byte m) q (unat i))"
    "dc_len c = d_len (desc_at (byte m) q (unat i))" "dc_index c = i" "dc_queue_size c = q_size q"
    "dc_desc_table c = desc_table q" "dc_next c = d_next (desc_at (byte m) q (unat i))"
proof -
  show i: "i < q_size q" using assms(2) by (simp add: checked_new_def split: if_split_asm)
  have s: "unat (q_size q) \<le> 8191"
    using assms(1) queue_sizedD [of q] by (simp add: queue_mapped_def)
  have iu: "unat (ucast i * 16 :: u64) = 16 * unat i"
    using i s by (simp add: unat_word_ariths unat_ucast_up word_less_nat_alt)
  obtain hd where hd: "add_c (desc_table q) (ucast i * 16) = Some hd"
    using assms(2) by (auto simp: checked_new_def checked_offset elim!: bindE split: if_split_asm option.split_asm)
  have hu: "unat hd = unat (desc_table q) + 16 * unat i" using unat_add_c [OF hd] iu by simp
  have "all_in (in_rng m) (unat hd) 16"
    using assms(1) i unfolding queue_mapped_def hu
    by (auto simp: word_less_nat_alt intro: all_in_sub [of _ "unat (desc_table q)" "16 * unat (q_size q)"])
  then have rd: "gm_read G m hd 16 = Inr (bytes_at (byte m) (unat (desc_table q) + 16 * unat i) 16)"
    using read_ok hu by simp
  note c = assms(2) [unfolded checked_new_def checked_offset hd Let_def, simplified rd]
  show "dc_addr c = d_addr (desc_at (byte m) q (unat i))" "dc_len c = d_len (desc_at (byte m) q (unat i))"
    "dc_index c = i" "dc_queue_size c = q_size q" "dc_desc_table c = desc_table q"
    "dc_next c = d_next (desc_at (byte m) q (unat i))"
    using c rd by (auto simp: desc_at_def split: if_split_asm option.split_asm elim!: bindE)
qed

lemma checked_new_agree:
  assumes "queue_mapped (in_rng m) q" "in_rng m' = in_rng m" "agree (driver_area q) (byte m) (byte m')"
  shows "checked_new G m' (desc_table q) (q_size q) i = checked_new G m (desc_table q) (q_size q) i"
proof (cases "i < q_size q")
  case True
  have s: "unat (q_size q) \<le> 8191"
    using assms(1) queue_sizedD [of q] by (simp add: queue_mapped_def)
  have iu: "unat (ucast i * 16 :: u64) = 16 * unat i"
    using True s by (simp add: unat_word_ariths unat_ucast_up word_less_nat_alt)
  have "gm_read G m' hd 16 = gm_read G m hd 16" if "add_c (desc_table q) (ucast i * 16) = Some hd" for hd
  proof -
    have hu: "unat hd = unat (desc_table q) + 16 * unat i" using unat_add_c [OF that] iu by simp
    have a: "all_in (in_rng m) (unat hd) 16"
      using assms(1) True unfolding queue_mapped_def hu
      by (auto simp: word_less_nat_alt intro: all_in_sub [of _ "unat (desc_table q)" "16 * unat (q_size q)"])
    have "bytes_at (byte m') (unat hd) 16 = bytes_at (byte m) (unat hd) 16"
      using True unfolding hu by (intro agree_bytes_at [OF assms(3)]) (auto simp: driver_area_def word_less_nat_alt)
    then show ?thesis using read_ok [OF a] read_ok [of m' hd 16] a assms(2) by simp
  qed
  then show ?thesis
    using assms(2) by (auto simp: checked_new_def checked_offset split: option.split)
qed (simp add: checked_new_def not_less)

end

section \<open>Runs\<close>

text \<open>The chains that a device can pop: those available, up to the first with a bad head.\<close>

definition good_heads :: "('m, 'e) guest_mem \<Rightarrow> 'm \<Rightarrow> (nat \<Rightarrow> u8) \<Rightarrow> Queue \<Rightarrow> u16 list" where
  "good_heads G m b q =
     takeWhile (\<lambda>i. checked_new G m (desc_table q) (q_size q) i \<noteq> None) (pending b q)"

text \<open>The queue and the memory after a device served \<open>n\<close> chains of a queue in order.\<close>

definition served :: "(nat \<Rightarrow> u8) \<Rightarrow> Queue \<Rightarrow> nat \<Rightarrow> (nat \<Rightarrow> u8) \<Rightarrow> Queue \<Rightarrow> bool" where
  "served b0 q0 n b q \<longleftrightarrow>
     (\<exists>x. q = q0\<lparr>next_avail := next_avail q0 + of_nat n, next_used := next_used q0 + of_nat n, num_added := x\<rparr>) \<and>
     agree (driver_area q0) b0 b \<and>
     (\<forall>k<n. fst (used_entry b q0 (next_used q0 + of_nat k)) = ucast (pending b0 q0 ! k)) \<and>
     (0 < n \<longrightarrow> used_idx_at b q0 = next_used q0 + of_nat n)"

lemma served_0: "served b q 0 b q"
  by (auto simp: served_def intro: exI [of _ "num_added q"])

lemma served_agree:
  assumes "served b0 q0 n b q" "agree (driver_area q0 \<union> device_area q0) b b'" "q_size q0 \<noteq> 0"
  shows "served b0 q0 n b' q"
proof -
  have a: "agree (driver_area q0) b b'" "agree (device_area q0) b b'"
    using assms(2) by (auto intro: agree_sub)
  show ?thesis
    using assms(1) agree_trans [OF _ a(1)] agree_used [OF a(2) assms(3)] by (simp add: served_def)
qed

lemma of_nat_lt_ne: "n < unat w \<Longrightarrow> w - of_nat n \<noteq> 0" for w :: u16
  by (auto simp: unat_of_nat dest: leD)

lemma length_good_heads: "length (good_heads G m b q) \<le> unat (avail_idx_at b q - next_avail q)"
  using length_takeWhile_le [of _ "pending b q"] by (simp add: good_heads_def pending_def)

lemma good_heads_nth: "n < length (good_heads G m b q) \<Longrightarrow> good_heads G m b q ! n = pending b q ! n"
  by (simp add: good_heads_def takeWhile_nth)

lemma pending_nth: "n < unat (avail_idx_at b q - next_avail q) \<Longrightarrow> pending b q ! n = avail_entry b q (next_avail q + of_nat n)"
  by (simp add: pending_def)

context guest_memory
begin

lemma served_mapped: "served b0 q0 n b q \<Longrightarrow> queue_mapped rng q = queue_mapped rng q0"
  by (auto simp: served_def queue_mapped_def queue_sized_def)

text \<open>The next pop of a run gives the next good head, or nothing after the last.\<close>

lemma served_pop:
  assumes mp: "queue_mapped (in_rng m0) q0" and sv: "served (byte m0) q0 n (byte m) q" "in_rng m = in_rng m0"
    and n: "n \<le> length (good_heads G m0 (byte m0) q0)"
  shows "queue_pop G q m = Some (if n < length (good_heads G m0 (byte m0) q0)
     then (checked_new G m0 (desc_table q0) (q_size q0) (good_heads G m0 (byte m0) q0 ! n),
           q\<lparr>next_avail := next_avail q + 1\<rparr>)
     else (None, q))"
proof -
  let ?gh = "good_heads G m0 (byte m0) q0" and ?N = "unat (avail_idx_at (byte m0) q0 - next_avail q0)"
  have mq: "queue_mapped (in_rng m) q" using served_mapped [OF sv(1)] mp sv(2) by simp
  obtain x where q: "q = q0\<lparr>next_avail := next_avail q0 + of_nat n, next_used := next_used q0 + of_nat n, num_added := x\<rparr>"
    and ag: "agree (driver_area q0) (byte m0) (byte m)" using sv(1) by (auto simp: served_def)
  have z: "q_size q0 \<noteq> 0" using mp by (simp add: queue_mapped_def queue_sized_def)
  note av = agree_avail [OF ag z]
  have len: "queue_len G q m = Some (avail_idx_at (byte m0) q0 - next_avail q0 - of_nat n)"
    using queue_len_ok [OF mq] av(1) by (simp add: q)
  have nN: "n \<le> ?N" using n length_good_heads [of G m0 "byte m0" q0] by simp
  have dp: "do_pop_unchecked G q m = Some (case checked_new G m0 (desc_table q0) (q_size q0)
      (avail_entry (byte m0) q0 (next_avail q0 + of_nat n)) of None \<Rightarrow> (None, q)
      | Some dc \<Rightarrow> (Some dc, q\<lparr>next_avail := next_avail q + 1\<rparr>))"
    using do_pop_unchecked_ok [OF mq] checked_new_agree [OF mp sv(2) ag] av(2) by (simp add: q)
  show ?thesis
  proof (cases "n < length ?gh")
    case True
    then have lt: "n < ?N" using length_good_heads [of G m0 "byte m0" q0] by simp
    then have ne: "avail_idx_at (byte m0) q0 - next_avail q0 - of_nat n \<noteq> 0" using of_nat_lt_ne by blast
    have "checked_new G m0 (desc_table q0) (q_size q0) (?gh ! n) \<noteq> None"
      using nth_mem [OF True] set_takeWhileD by (force simp: good_heads_def)
    then show ?thesis
      using True len ne dp good_heads_nth [OF True] pending_nth [OF lt] by (auto simp: queue_pop_def)
  next
    case False
    then have nl: "n = length ?gh" using n by simp
    show ?thesis
    proof (cases "n = ?N")
      case True
      then have "avail_idx_at (byte m0) q0 - next_avail q0 - of_nat n = 0" by simp
      then show ?thesis using False len by (simp add: queue_pop_def)
    next
      case False
      then have lt: "n < ?N" using nN by simp
      then have ne: "avail_idx_at (byte m0) q0 - next_avail q0 - of_nat n \<noteq> 0" using of_nat_lt_ne by blast
      have "\<not> checked_new G m0 (desc_table q0) (q_size q0) (pending (byte m0) q0 ! n) \<noteq> None"
        using nth_length_takeWhile [of "\<lambda>i. checked_new G m0 (desc_table q0) (q_size q0) i \<noteq> None" "pending (byte m0) q0"]
          nl lt by (simp add: good_heads_def pending_def)
      then show ?thesis using len ne dp pending_nth [OF lt] nl by (simp add: queue_pop_def)
    qed
  qed
qed

text \<open>Completing the chain of that pop continues the run.\<close>

lemma served_use:
  assumes mp: "queue_mapped (in_rng m0) q0" and p2: "pow2 (q_size q0)" and apart: "rings_apart q0"
    and sv: "served (byte m0) q0 n (byte m) q" "in_rng m = in_rng m0"
    and n: "n < length (good_heads G m0 (byte m0) q0)" "n < unat (q_size q0)"
  obtains q' m' where "add_used G (q\<lparr>next_avail := next_avail q + 1\<rparr>) m (good_heads G m0 (byte m0) q0 ! n) len = Some (q', m', Inr ())"
    "served (byte m0) q0 (Suc n) (byte m') q'" "in_rng m' = in_rng m0"
    "agree (- device_area q0) (byte m) (byte m')"
proof -
  let ?gh = "good_heads G m0 (byte m0) q0" and ?q1 = "q\<lparr>next_avail := next_avail q + 1\<rparr>"
  let ?i = "?gh ! n"
  obtain x where q: "q = q0\<lparr>next_avail := next_avail q0 + of_nat n, next_used := next_used q0 + of_nat n, num_added := x\<rparr>"
    and ag: "agree (driver_area q0) (byte m0) (byte m)"
    and ent: "\<And>k. k < n \<Longrightarrow> fst (used_entry (byte m) q0 (next_used q0 + of_nat k)) = ucast (pending (byte m0) q0 ! k)"
    using sv(1) by (auto simp: served_def)
  have z: "q_size q0 \<noteq> 0" using mp by (simp add: queue_mapped_def queue_sized_def)
  have "checked_new G m0 (desc_table q0) (q_size q0) ?i \<noteq> None"
    using nth_mem [OF n(1)] set_takeWhileD by (force simp: good_heads_def)
  then have i: "?i < q_size ?q1" by (auto simp: q checked_new_def split: if_split_asm)
  have mq: "queue_mapped (in_rng m) ?q1" using served_mapped [OF sv(1)] mp sv(2) by simp
  let ?u = "next_used q0 + of_nat n"
  obtain m' where m': "add_used G ?q1 m ?i len = Some (?q1\<lparr>num_added := num_added ?q1 + 1, next_used := next_used ?q1 + 1\<rparr>, m', Inr ())"
    "in_rng m' = in_rng m"
    and b: "byte m' = upd_bytes (upd_bytes (upd_bytes (byte m) (used_slot q0 ?u) (le_bytes 4 (unat ?i)))
       (used_slot q0 ?u + 4) (le_bytes 4 (unat len))) (unat (used_ring q0) + 2) (le_bytes 2 (unat (?u + 1)))"
    using add_used_ok [OF mq i, of len] by (auto simp: q)
  note aft = used_ring_after [OF b z]
  have out: "agree (- device_area q0) (byte m) (byte m')"
    unfolding agree_def device_area_def by (auto intro!: aft(4))
  have "used_entry (byte m') q0 (next_used q0 + of_nat k) = used_entry (byte m) q0 (next_used q0 + of_nat k)" if "k < n" for k
    using that n(2) used_slot_disjoint [OF p2, of k n "next_used q0"] by (intro aft(3)) simp
  then have "fst (used_entry (byte m') q0 (next_used q0 + of_nat k)) = ucast (pending (byte m0) q0 ! k)" if "k < Suc n" for k
    using that ent aft(2) good_heads_nth [OF n(1)] by (cases "k = n") auto
  moreover have "agree (driver_area q0) (byte m0) (byte m')"
    using apart by (intro agree_trans [OF ag] agree_sub [OF out]) (auto simp: rings_apart_def)
  ultimately have "served (byte m0) q0 (Suc n) (byte m') (?q1\<lparr>num_added := num_added ?q1 + 1, next_used := next_used ?q1 + 1\<rparr>)"
    using aft(1) by (auto simp: served_def q algebra_simps intro!: exI [of _ "x + 1"])
  then show ?thesis using that [OF m'(1)] m'(2) sv(2) out by simp
qed

end

end
