(* ===== verification/Vsock_Device_Safety.thy ===== *)
theory Vsock_Device_Safety
  imports Vsock_Device Queue_Service
begin

text \<open>
  The vsock device serves its queues in order: what one run over the transmit or the receive queue
  does to the queue, the guest memory and the muxer, and that it ends.
\<close>

section \<open>What receiving a packet may write\<close>

definition buf_area :: "VsockPacket \<Rightarrow> nat set" where
  "buf_area pkt = (case buf_addr pkt of None \<Rightarrow> {} | Some a \<Rightarrow> {unat a ..< unat a + buf_size pkt})"

definition same_buf :: "VsockPacket \<Rightarrow> VsockPacket \<Rightarrow> bool" where
  "same_buf pkt pkt' \<longleftrightarrow> hdr_addr pkt' = hdr_addr pkt \<and> buf_addr pkt' = buf_addr pkt \<and> buf_size pkt' = buf_size pkt"

lemma same_buf_area: "same_buf pkt pkt' \<Longrightarrow> buf_area pkt' = buf_area pkt"
  by (auto simp: same_buf_def buf_area_def split: option.split)

lemma same_buf_set [simp]:
  "same_buf p (set_op a q) = same_buf p q" "same_buf p (set_len b q) = same_buf p q"
  "same_buf p (set_flag c q) = same_buf p q" "same_buf p (init_pkt cn q) = same_buf p q"
  "same_buf p (rst_pkt cid lp pp q) = same_buf p q" "same_buf (init_pkt cn p) q = same_buf p q"
  by (simp_all add: same_buf_def pkt_set_defs init_pkt_def rst_pkt_def)

lemma same_buf_refl [simp]: "same_buf p p" by (simp add: same_buf_def)

context uds_env
begin

definition rx_writes :: "VsockPacket \<Rightarrow> 'm \<Rightarrow> VsockPacket \<Rightarrow> 'm \<Rightarrow> bool" where
  "rx_writes pkt m pkt' m' \<longleftrightarrow> same_buf pkt pkt' \<and> in_rng m' = in_rng m \<and>
     agree (- buf_area pkt) (byte m) (byte m')"

lemma rx_writes_same [simp]: "rx_writes pkt m pkt' m \<longleftrightarrow> same_buf pkt pkt'"
  by (simp add: rx_writes_def)

lemma rx_writes_trans: "rx_writes p m p1 m1 \<Longrightarrow> rx_writes p1 m1 p2 m2 \<Longrightarrow> rx_writes p m p2 m2"
  using same_buf_area [of p p1] agree_trans by (auto simp: rx_writes_def same_buf_def)

lemma read_writes:
  assumes "read_at_offset_from G R (us_read U) m pkt 0 s n = (res, m', s')" "buf_size pkt < 2 ^ 64"
  shows "rx_writes pkt m pkt m'"
proof (rule read_cases [OF assms])
  fix a bs
  assume a: "length bs \<le> n" "buf_addr pkt = Some a" "0 + n \<le> buf_size pkt" "in_rng m' = in_rng m"
    "byte m' = upd_bytes (byte m) (unat a + 0) bs"
  then show ?thesis by (auto simp: rx_writes_def agree_def buf_area_def upd_bytes_def)
qed auto

lemma recv_rw_writes:
  assumes "recv_rw G R (us_read U) now m pkt c = (b, pkt', m', c')" "buf_size pkt < 2 ^ 64"
  shows "rx_writes pkt m pkt' m'"
proof -
  have "rx_writes pkt m q m'" if "read_at_offset_from G R (us_read U) m pkt 0 s n = (res, m', s')" "same_buf pkt q" for s n res s' q
    using read_writes [OF that(1) assms(2)] that(2) by (simp add: rx_writes_def)
  then show ?thesis using assms(1)
    by (fastforce simp: recv_rw_def Let_def split: if_split_asm prod.split_asm sum.split_asm)
qed

lemma conn_recv_pkt_writes:
  assumes "conn_recv_pkt G R (us_read U) now m pkt c = (r, pkt', m', c')" "buf_size pkt < 2 ^ 64"
  shows "rx_writes pkt m pkt' m'"
  using assms(1)
proof (cases rule: conn_recv_pkt_split)
  case (data p b q c7)
  have "rx_writes (init_pkt c pkt) m q m'"
    using data(6) recv_rw_writes [of now m "init_pkt c pkt" "c\<lparr> c_pending_rx := p \<rparr>" b q m' c7] assms(2)
    by (cases "prs_contains Rw (c_pending_rx c)") (simp_all add: init_pkt_def pkt_set_defs)
  moreover have "buf_area (init_pkt c pkt) = buf_area pkt" by (rule same_buf_area) simp
  ultimately have "rx_writes pkt m q m'" by (simp add: rx_writes_def)
  then show ?thesis using data(7) by (auto simp: rx_writes_def)
qed simp_all

lemma recv_step_writes:
  assumes "recv_step G R U (pkt, m, h, mx) = Some (stop, res, (pkt', m', h', mx'))" "buf_size pkt < 2 ^ 64"
  shows "rx_writes pkt m pkt' m'"
proof (cases "rxq_peek (mx_rxq mx)")
  case None
  then show ?thesis using assms(1) by (simp add: recv_step_def)
next
  case (Some e)
  show ?thesis
  proof (cases e)
    case (RstPkt lp pp)
    then show ?thesis using assms(1) Some
      by (auto simp: recv_step_def elim!: bindE split: prod.split_asm)
  next
    case (ConnRx key)
    obtain r h1 mx1 where a: "apply_conn_mutation U key (recv_fn G R U m pkt) (h, mx) = Some (r, (h1, mx1))"
      "(pkt', m') = (case r of None \<Rightarrow> (pkt, m) | Some (x, y, p, n) \<Rightarrow> (p, n))"
      using assms(1) Some ConnRx
      by (auto simp: recv_step_def Let_def elim!: bindE split: prod.split_asm sum.split_asm option.split_asm)
    from a(1) show ?thesis
    proof (cases rule: apply_conn_mutation_cases)
      case absent
      then show ?thesis using a(2) by simp
    next
      case (present c h1 x h2 c1 kq lm)
      then show ?thesis using a(2) conn_recv_pkt_writes [OF _ assms(2)]
        by (auto simp: recv_fn_def split: prod.split_asm)
    qed
  qed
qed

lemma recv_loop_writes:
  assumes "mux_ok mx" "buf_size pkt < 2 ^ 64" "recv_loop G R U (pkt, m, h, mx) = Some (res, (pkt', m', h', mx'))"
  shows "rx_writes pkt m pkt' m'"
  using assms
proof (induction "rx_work mx" arbitrary: pkt m h mx rule: less_induct)
  case less
  obtain stop r pkt1 m1 h1 mx1 where s: "recv_step G R U (pkt, m, h, mx) = Some (stop, r, (pkt1, m1, h1, mx1))"
    "mux_keeps mx mx1" "buf_size pkt1 = buf_size pkt" "\<not> stop \<Longrightarrow> rx_work mx1 < rx_work mx"
    by (rule recv_step_spec [OF less(2,3), of m h]) blast
  note w = recv_step_writes [OF s(1) less(3)]
  show ?case
  proof (cases stop)
    case True
    then show ?thesis using w s(1) less(4) by (subst (asm) recv_loop.simps) simp
  next
    case False
    then have r: "recv_loop G R U (pkt1, m1, h1, mx1) = Some (res, (pkt', m', h', mx'))"
      using s(1) less(4) by (subst (asm) recv_loop.simps) simp
    have "mux_ok mx1" using s(2) less(2) by (simp add: mux_keeps_def)
    from less(1) [OF s(4) [OF False] this _ r] show ?thesis
      using s(3) less(3) rx_writes_trans [OF w] by simp
  qed
qed

lemma mux_recv_pkt_full:
  assumes "mux_ok mx" "buf_size pkt < 2 ^ 64"
  obtains res pkt' m' h' mx' where "mux_recv_pkt G R U m pkt (h, mx) = Some (res, (pkt', m', h', mx'))"
    "mux_keeps mx mx'" "isl res \<Longrightarrow> rxq_is_empty (mx_rxq mx')" "rx_writes pkt m pkt' m'"
proof -
  let ?mx = "if rxq_is_empty (mx_rxq mx) \<and> \<not> rq_synced (mx_rxq mx)
     then mx\<lparr> mx_rxq := rxq_from_conn_map (us_iter U (mx_conn_map mx)) \<rparr> else mx"
  have ok: "mux_ok ?mx" using rxq_resync_keeps [of mx] assms(1) by (simp add: mux_keeps_def)
  have e: "mux_recv_pkt G R U m pkt (h, mx) = recv_loop G R U (pkt, m, h, ?mx)"
    by (simp add: mux_recv_pkt_def Let_def)
  obtain res pkt' m' h' mx' where r: "mux_recv_pkt G R U m pkt (h, mx) = Some (res, (pkt', m', h', mx'))"
    "mux_keeps mx mx'" "isl res \<longrightarrow> res = Inl NoData \<and> rxq_is_empty (mx_rxq mx')"
    using mux_recv_pkt_spec [OF assms, of m h] by blast
  then show ?thesis using that recv_loop_writes [OF ok assms(2) r(1) [unfolded e]] by blast
qed

end

section \<open>Runs of the device\<close>

lemma set_queue_simps [simp]:
  "vd_queues (set_queue i q d) = (vd_queues d)[i := q]" "vd_inner (set_queue i q d) = vd_inner d"
  "set_queue i q (set_queue i q' d) = set_queue i q d" "set_queue i (vd_queues d ! i) d = d"
  "vd_activated (set_queue i q d) = vd_activated d" "vd_queue_events (set_queue i q d) = vd_queue_events d"
  by (simp_all add: set_queue_def)

lemma set_backend_simps [simp]:
  "vd_queues (set_backend mx d) = vd_queues d" "vk_backend (vd_inner (set_backend mx d)) = mx"
  "set_backend mx (set_backend mx' d) = set_backend mx d" "set_backend (backend d) d = d"
  "set_queue i q (set_backend mx d) = set_backend mx (set_queue i q d)"
  "vd_activated (set_backend mx d) = vd_activated d" "vd_queue_events (set_backend mx d) = vd_queue_events d"
  by (simp_all add: set_backend_def set_queue_def)

text \<open>A queue as its driver must keep it, and the memory its chains name.\<close>

definition queue_usable :: "(nat \<Rightarrow> bool) \<Rightarrow> (nat \<Rightarrow> u8) \<Rightarrow> Queue \<Rightarrow> bool" where
  "queue_usable rng b q \<longleftrightarrow> queue_mapped rng q \<and> pow2 (q_size q) \<and> rings_apart q \<and>
     length (pending b q) \<le> unat (q_size q)"

definition queue_bufs :: "(nat \<Rightarrow> u8) \<Rightarrow> Queue \<Rightarrow> nat set" where
  "queue_bufs b q = (\<Union>i < unat (q_size q). desc_buf b q i)"

lemma agree_queue_bufs: "agree (driver_area q) b b' \<Longrightarrow> queue_bufs b' q = queue_bufs b q"
  by (simp add: queue_bufs_def desc_buf_def agree_desc_at)

lemma bufs_private_iff: "bufs_private b q \<longleftrightarrow> queue_bufs b q \<inter> (driver_area q \<union> device_area q) = {}"
  by (auto simp: bufs_private_def queue_bufs_def)

text \<open>After \<open>n\<close> chains of queue \<open>i\<close>, having written only the used ring and \<open>W\<close>.\<close>

definition dev_run :: "('m \<Rightarrow> nat \<Rightarrow> bool) \<Rightarrow> ('m \<Rightarrow> nat \<Rightarrow> u8) \<Rightarrow> nat \<Rightarrow> nat set \<Rightarrow> 'm \<Rightarrow> 's Vsock \<Rightarrow> nat \<Rightarrow>
    'm \<Rightarrow> 's Vsock \<Rightarrow> bool" where
  "dev_run in_rng byte i W m0 d0 n m d \<longleftrightarrow>
     (\<exists>q mx. d = set_backend mx (set_queue i q d0) \<and> mux_keeps (backend d0) mx \<and>
        served (byte m0) (vd_queues d0 ! i) n (byte m) q \<and> in_rng m = in_rng m0 \<and>
        agree (- (device_area (vd_queues d0 ! i) \<union> W)) (byte m0) (byte m))"

lemma dev_run_0: "dev_run in_rng byte i W m d 0 m d"
  unfolding dev_run_def
  by (rule exI [of _ "vd_queues d ! i"], rule exI [of _ "backend d"]) (simp add: served_0)

context uds_env
begin

lemma good_heads_le: "queue_usable (in_rng m) (byte m) q \<Longrightarrow> length (good_heads G m (byte m) q) \<le> unat (q_size q)"
  by (auto simp: queue_usable_def good_heads_def intro: order_trans [OF length_takeWhile_le])

lemma unat_u32_small: "unat (w :: u32) < 2 ^ 64"
  by (rule order_less_le_trans [OF unsigned_less]) simp

lemma tx_buf_small: "from_tx_virtq_head G R m c = Inr pkt \<Longrightarrow> buf_size pkt < 2 ^ 64"
proof -
  assume a: "from_tx_virtq_head G R m c = Inr pkt"
  note t = from_tx_virtq_head_Inr(5,6) [OF a]
  show ?thesis
  proof (cases "h_len (hdr pkt) = 0")
    case False
    then obtain p0 where "init_buf G R m p0 c False = Inr pkt" using t(2) by blast
    then show ?thesis
    proof (rule init_buf_Inr)
      fix d assume "pkt = p0\<lparr>buf_addr := Some (dc_addr d), buf_size := unat (dc_len d)\<rparr>"
      then show ?thesis using unat_u32_small [of "dc_len d"] by simp
    qed
  qed (use t in simp)
qed

text \<open>Completing the chain that was just popped.\<close>

lemma dev_run_use:
  fixes d0 :: "'s Vsock"
  assumes u: "queue_usable (in_rng m0) (byte m0) (vd_queues d0 ! i)" and i: "i < length (vd_queues d0)"
    and sv: "served (byte m0) (vd_queues d0 ! i) n (byte m) q" "in_rng m = in_rng m0"
      "agree (- (device_area (vd_queues d0 ! i) \<union> W)) (byte m0) (byte m)"
    and n: "n < length (good_heads G m0 (byte m0) (vd_queues d0 ! i))" and k: "mux_keeps (backend d0) mx"
  obtains m' d' where "use_chain G i (good_heads G m0 (byte m0) (vd_queues d0 ! i) ! n) len m
      (set_backend mx (set_queue i (q\<lparr>next_avail := next_avail q + 1\<rparr>) d0)) = Some (m', d')"
    "dev_run in_rng byte i W m0 d0 (Suc n) m' d'"
proof -
  have mp: "queue_mapped (in_rng m0) (vd_queues d0 ! i)" "pow2 (q_size (vd_queues d0 ! i))"
    "rings_apart (vd_queues d0 ! i)" using u by (auto simp: queue_usable_def)
  have n2: "n < unat (q_size (vd_queues d0 ! i))" using n good_heads_le [OF u] by simp
  obtain q' m' where a: "add_used G (q\<lparr>next_avail := next_avail q + 1\<rparr>) m (good_heads G m0 (byte m0) (vd_queues d0 ! i) ! n) len = Some (q', m', Inr ())"
    "served (byte m0) (vd_queues d0 ! i) (Suc n) (byte m') q'" "in_rng m' = in_rng m0"
    "agree (- device_area (vd_queues d0 ! i)) (byte m) (byte m')"
    by (rule served_use [OF mp sv(1,2) n n2])
  have "agree (- (device_area (vd_queues d0 ! i) \<union> W)) (byte m0) (byte m')"
    by (rule agree_trans [OF sv(3) agree_sub [OF a(4)]]) auto
  then have "dev_run in_rng byte i W m0 d0 (Suc n) m' (set_backend mx (set_queue i q' d0))"
    using a(2,3) k unfolding dev_run_def by blast
  moreover have "use_chain G i (good_heads G m0 (byte m0) (vd_queues d0 ! i) ! n) len m
      (set_backend mx (set_queue i (q\<lparr>next_avail := next_avail q + 1\<rparr>) d0)) = Some (m', set_backend mx (set_queue i q' d0))"
    using a(1) i by (simp add: use_chain_def idx_def)
  ultimately show ?thesis using that by blast
qed

subsection \<open>Transmission\<close>

lemma tx_round_run:
  fixes d0 :: "'s Vsock"
  assumes u: "queue_usable (in_rng m0) (byte m0) (vd_queues d0 ! TXQ_INDEX)" and i: "TXQ_INDEX < length (vd_queues d0)"
    and ok: "mux_ok (backend d0)" and run: "dev_run in_rng byte TXQ_INDEX {} m0 d0 n m d"
    and n: "n \<le> length (good_heads G m0 (byte m0) (vd_queues d0 ! TXQ_INDEX))"
  shows "if n < length (good_heads G m0 (byte m0) (vd_queues d0 ! TXQ_INDEX))
    then \<exists>m' h' d'. tx_round G R U (m, h, d) = Some (True, (m', h', d')) \<and> dev_run in_rng byte TXQ_INDEX {} m0 d0 (Suc n) m' d'
    else tx_round G R U (m, h, d) = Some (False, (m, h, d))"
proof -
  let ?q0 = "vd_queues d0 ! TXQ_INDEX"
  let ?gh = "good_heads G m0 (byte m0) ?q0"
  have mp: "queue_mapped (in_rng m0) ?q0" using u by (simp add: queue_usable_def)
  obtain q mx where d: "d = set_backend mx (set_queue TXQ_INDEX q d0)" and k: "mux_keeps (backend d0) mx"
    and sv: "served (byte m0) ?q0 n (byte m) q" "in_rng m = in_rng m0"
      "agree (- (device_area ?q0 \<union> {})) (byte m0) (byte m)"
    using run unfolding dev_run_def by blast
  let ?q1 = "q\<lparr>next_avail := next_avail q + 1\<rparr>"
  have x: "idx (vd_queues d) TXQ_INDEX = Some q" using i by (simp add: d idx_def)
  note pop = served_pop [OF mp sv(1,2) n]
  show ?thesis
  proof (cases "n < length ?gh")
    case False
    then show ?thesis using x pop by (simp add: tx_round_def d)
  next
    case True
    have "checked_new G m0 (desc_table ?q0) (q_size ?q0) (?gh ! n) \<noteq> None"
      using nth_mem [OF True] set_takeWhileD by (force simp: good_heads_def)
    then obtain c where c: "checked_new G m0 (desc_table ?q0) (q_size ?q0) (?gh ! n) = Some c" by blast
    have ci: "dc_index c = ?gh ! n" using checked_newD [OF c] by simp
    have p: "queue_pop G q m = Some (Some c, ?q1)" using pop True c by simp
    have use: "\<exists>m' d'. use_chain G TXQ_INDEX (dc_index c) 0 m (set_backend mx' (set_queue TXQ_INDEX ?q1 d0)) = Some (m', d') \<and>
        dev_run in_rng byte TXQ_INDEX {} m0 d0 (Suc n) m' d'" if "mux_keeps (backend d0) mx'" for mx'
      using dev_run_use [OF u i sv True that, of 0] unfolding ci by metis
    show ?thesis
    proof (cases "from_tx_virtq_head G R m c")
      case (Inl e)
      then show ?thesis using True x p use [OF k] by (auto simp: tx_round_def d)
    next
      case (Inr pkt)
      have "mux_ok mx" using k ok by (simp add: mux_keeps_def)
      then obtain h' mx' where s: "mux_send_pkt G R U m pkt (h, mx) = Some (Inr (), (h', mx'))" "mux_keeps mx mx'"
        using mux_send_pkt_spec [of mx pkt m h] tx_buf_small [OF Inr] by blast
      from use [OF keeps_trans [OF k s(2)]] show ?thesis
        using True x p s(1) Inr by (auto simp: tx_round_def d)
    qed
  qed
qed

lemma tx_loop_run:
  fixes d0 :: "'s Vsock"
  assumes u: "queue_usable (in_rng m0) (byte m0) (vd_queues d0 ! TXQ_INDEX)" and i: "TXQ_INDEX < length (vd_queues d0)"
    and ok: "mux_ok (backend d0)" and "dev_run in_rng byte TXQ_INDEX {} m0 d0 n m d"
    and "n \<le> length (good_heads G m0 (byte m0) (vd_queues d0 ! TXQ_INDEX))"
  shows "\<exists>m' h' d'. tx_loop G R U b (m, h, d) =
      Some (b \<or> n < length (good_heads G m0 (byte m0) (vd_queues d0 ! TXQ_INDEX)), (m', h', d')) \<and>
    dev_run in_rng byte TXQ_INDEX {} m0 d0 (length (good_heads G m0 (byte m0) (vd_queues d0 ! TXQ_INDEX))) m' d'"
  using assms(4,5)
proof (induction "length (good_heads G m0 (byte m0) (vd_queues d0 ! TXQ_INDEX)) - n" arbitrary: n m h d b)
  case 0
  then have "n = length (good_heads G m0 (byte m0) (vd_queues d0 ! TXQ_INDEX))" by simp
  then show ?case using tx_round_run [OF u i ok 0(2,3), of h] 0(2) by (subst tx_loop.simps) simp
next
  case (Suc k)
  have lt: "n < length (good_heads G m0 (byte m0) (vd_queues d0 ! TXQ_INDEX))" using Suc(2) by simp
  then obtain m1 h1 d1 where r: "tx_round G R U (m, h, d) = Some (True, (m1, h1, d1))"
    "dev_run in_rng byte TXQ_INDEX {} m0 d0 (Suc n) m1 d1"
    using tx_round_run [OF u i ok Suc(3,4), of h] by auto
  have "k = length (good_heads G m0 (byte m0) (vd_queues d0 ! TXQ_INDEX)) - Suc n" using Suc(2) by simp
  from Suc(1) [OF this r(2), of True h1] lt show ?case using r(1) by (subst tx_loop.simps) simp
qed

subsection \<open>Reception\<close>

lemma desc_in_bufs:
  assumes "queue_mapped (in_rng m) q" "checked_new G m (desc_table q) (q_size q) i = Some c"
  shows "{unat (dc_addr c) ..< unat (dc_addr c) + unat (dc_len c)} \<subseteq> queue_bufs (byte m) q"
  using checked_new_read [OF assms] by (auto simp: queue_bufs_def desc_buf_def word_less_nat_alt)

lemma rx_pkt_bufs:
  assumes mp: "queue_mapped (in_rng m) q" and c: "checked_new G m (desc_table q) (q_size q) i = Some c"
    and p: "from_rx_virtq_head G R m c = Inr pkt"
  shows "buf_area pkt \<subseteq> queue_bufs (byte m) q" "{unat (hdr_addr pkt) ..< unat (hdr_addr pkt) + 44} \<subseteq> queue_bufs (byte m) q"
    "buf_size pkt < 2 ^ 64"
proof -
  obtain p0 where h: "check_hdr_desc R m c True = Inr ()" and ib: "init_buf G R m p0 c True = Inr pkt" "hdr_addr p0 = dc_addr c"
    using p by (cases "check_hdr_desc R m c True :: 'e VsockError + unit") (auto simp: from_rx_virtq_head_def)
  obtain d where d: "next_descriptor G m c = Some d"
    "pkt = p0\<lparr>buf_addr := Some (dc_addr d), buf_size := unat (dc_len d)\<rparr>"
    by (rule init_buf_Inr [OF ib(1)])
  obtain d0 where d0: "checked_new G m (desc_table q) (q_size q) (dc_next c) = Some d0"
    "dc_addr d = dc_addr d0" "dc_len d = dc_len d0"
    using d(1) checked_newD [OF c] by (auto simp: next_descriptor_def split: if_split_asm)
  show "buf_area pkt \<subseteq> queue_bufs (byte m) q"
    using desc_in_bufs [OF mp d0(1)] d0(2,3) by (simp add: buf_area_def d(2))
  have "44 \<le> unat (dc_len c)" using check_hdr_desc_Inr [OF h] by (simp add: word_le_nat_alt)
  then show "{unat (hdr_addr pkt) ..< unat (hdr_addr pkt) + 44} \<subseteq> queue_bufs (byte m) q"
    using desc_in_bufs [OF mp c] ib(2) by (auto simp: d(2))
  show "buf_size pkt < 2 ^ 64" using unat_u32_small by (simp add: d(2))
qed

lemma commit_hdr_writes:
  assumes "commit_hdr G m pkt = (m', r)"
  shows "in_rng m' = in_rng m" "agree (- {unat (hdr_addr pkt) ..< unat (hdr_addr pkt) + 44}) (byte m) (byte m')"
    "r = Inr () \<Longrightarrow> add_c (of_nat VSOCK_PKT_HDR_SIZE) (h_len (hdr pkt)) = Some (44 + h_len (hdr pkt))"
proof -
  have f: "in_rng m' = in_rng m \<and> agree (- {unat (hdr_addr pkt) ..< unat (hdr_addr pkt) + 44}) (byte m) (byte m')"
    using assms write_frame [of m "hdr_addr pkt" "hdr_bytes (hdr pkt)"]
    by (fastforce simp: commit_hdr_def agree_def split: sum.split_asm prod.split_asm)
  then show "in_rng m' = in_rng m" "agree (- {unat (hdr_addr pkt) ..< unat (hdr_addr pkt) + 44}) (byte m) (byte m')" by auto
  assume "r = Inr ()"
  then have "h_len (hdr pkt) \<le> 65536"
    using assms by (auto simp: commit_hdr_def check_len_def MAX_PKT_BUF_SIZE_def split: if_split_asm)
  then show "add_c (of_nat VSOCK_PKT_HDR_SIZE) (h_len (hdr pkt)) = Some (44 + h_len (hdr pkt))"
    by (simp add: add_c_def VSOCK_PKT_HDR_SIZE_def word_le_nat_alt)
qed

text \<open>Writing into private buffers changes neither the rings nor the run so far.\<close>

lemma served_private:
  assumes "served (byte m0) q0 n (byte m) q" "queue_mapped (in_rng m0) q0" "bufs_private (byte m0) q0"
    and "agree (- queue_bufs (byte m0) q0) (byte m) (byte m1)"
  shows "served (byte m0) q0 n (byte m1) q"
  using assms(1)
proof (rule served_agree)
  show "agree (driver_area q0 \<union> device_area q0) (byte m) (byte m1)"
    using assms(3) by (intro agree_sub [OF assms(4)]) (auto simp: bufs_private_iff)
  show "q_size q0 \<noteq> 0" using assms(2) by (simp add: queue_mapped_def queue_sized_def)
qed

lemma rx_round_run:
  fixes m0 :: 'm and d0 :: "'s Vsock"
  defines "q0 \<equiv> vd_queues d0 ! RXQ_INDEX"
  defines "gh \<equiv> good_heads G m0 (byte m0) q0" and "W \<equiv> queue_bufs (byte m0) q0"
  assumes u: "queue_usable (in_rng m0) (byte m0) q0" and i: "RXQ_INDEX < length (vd_queues d0)"
    and pr: "bufs_private (byte m0) q0" and ok: "mux_ok (backend d0)"
    and run: "dev_run in_rng byte RXQ_INDEX W m0 d0 n m d" and n: "n \<le> length gh"
  obtains (used) m' h' d' where "n < length gh" "rx_round G R U (m, h, d) = Some (True, (m', h', d'))"
      "dev_run in_rng byte RXQ_INDEX W m0 d0 (Suc n) m' d'"
  | (stop) m' h' d' where "rx_round G R U (m, h, d) = Some (False, (m', h', d'))"
      "dev_run in_rng byte RXQ_INDEX W m0 d0 n m' d'" "n < length gh \<Longrightarrow> rxq_is_empty (mx_rxq (backend d'))"
proof -
  have mp: "queue_mapped (in_rng m0) q0" using u by (simp add: queue_usable_def)
  obtain q mx where d: "d = set_backend mx (set_queue RXQ_INDEX q d0)" and k: "mux_keeps (backend d0) mx"
    and sv: "served (byte m0) q0 n (byte m) q" "in_rng m = in_rng m0" "agree (- (device_area q0 \<union> W)) (byte m0) (byte m)"
    using run unfolding dev_run_def q0_def by blast
  let ?q1 = "q\<lparr>next_avail := next_avail q + 1\<rparr>"
  have x: "idx (vd_queues d) RXQ_INDEX = Some q" using i by (simp add: d idx_def)
  note pop = served_pop [OF mp sv(1,2) n [unfolded gh_def]]
  show ?thesis
  proof (cases "n < length gh")
    case False
    then have "rx_round G R U (m, h, d) = Some (False, (m, h, d))" using x pop by (simp add: rx_round_def d gh_def)
    then show ?thesis using stop run False by blast
  next
    case True
    have "checked_new G m0 (desc_table q0) (q_size q0) (gh ! n) \<noteq> None"
      using nth_mem [OF True] set_takeWhileD by (force simp: good_heads_def gh_def)
    then obtain c where c: "checked_new G m0 (desc_table q0) (q_size q0) (gh ! n) = Some c" by blast
    have ci: "dc_index c = gh ! n" using checked_newD [OF c] by simp
    have p: "queue_pop G q m = Some (Some c, ?q1)" using pop True c by (simp add: gh_def)
    have ag: "agree (driver_area q0) (byte m0) (byte m)" using sv(1) by (simp add: served_def)
    have use: "\<exists>m2 d2. use_chain G RXQ_INDEX (dc_index c) len m1 (set_backend mx' (set_queue RXQ_INDEX ?q1 d0)) = Some (m2, d2) \<and>
        dev_run in_rng byte RXQ_INDEX W m0 d0 (Suc n) m2 d2"
      if "mux_keeps (backend d0) mx'" "in_rng m1 = in_rng m0" "agree (- W) (byte m) (byte m1)" for mx' m1 len
    proof -
      have "agree (- (device_area q0 \<union> W)) (byte m0) (byte m1)"
        by (rule agree_trans [OF sv(3) agree_sub [OF that(3)]]) auto
      from dev_run_use [OF u [unfolded q0_def] i served_private [OF sv(1) mp pr that(3) [unfolded W_def], unfolded q0_def]
          that(2) this [unfolded q0_def] True [unfolded gh_def q0_def] that(1), of len]
      show ?thesis unfolding ci gh_def q0_def by metis
    qed
    show ?thesis
    proof (cases "from_rx_virtq_head G R m c")
      case (Inl e)
      obtain m2 d2 where "use_chain G RXQ_INDEX (dc_index c) 0 m (set_backend mx (set_queue RXQ_INDEX ?q1 d0)) = Some (m2, d2)"
        "dev_run in_rng byte RXQ_INDEX W m0 d0 (Suc n) m2 d2" using use [OF k sv(2) agree_refl] by blast
      then show ?thesis using used [OF True, of m2 h d2] x p Inl by (simp add: rx_round_def d)
    next
      case (Inr pkt)
      have cm: "checked_new G m (desc_table q0) (q_size q0) (gh ! n) = Some c"
        using c checked_new_agree [OF mp sv(2) ag] by simp
      note pb = rx_pkt_bufs [OF _ cm Inr, unfolded sv(2), OF mp, unfolded agree_queue_bufs [OF ag], folded W_def]
      have "mux_ok mx" using k ok by (simp add: mux_keeps_def)
      then obtain res pkt' m1 h1 mx1 where r: "mux_recv_pkt G R U m pkt (h, mx) = Some (res, (pkt', m1, h1, mx1))"
        "mux_keeps mx mx1" "isl res \<Longrightarrow> rxq_is_empty (mx_rxq mx1)" "rx_writes pkt m pkt' m1"
        by (rule mux_recv_pkt_full [OF _ pb(3), of mx m h]) blast
      note k1 = keeps_trans [OF k r(2)]
      have w: "in_rng m1 = in_rng m0" "agree (- W) (byte m) (byte m1)" "hdr_addr pkt' = hdr_addr pkt"
        using r(4) pb(1) sv(2) by (auto simp: rx_writes_def same_buf_def intro: agree_sub)
      show ?thesis
      proof (cases res)
        case (Inl e)
        have q: "undo_pop ?q1 = q" by (simp add: undo_pop_def)
        have "agree (- (device_area q0 \<union> W)) (byte m0) (byte m1)"
          by (rule agree_trans [OF sv(3) agree_sub [OF w(2)]]) auto
        then have "dev_run in_rng byte RXQ_INDEX W m0 d0 n m1 (set_backend mx1 (set_queue RXQ_INDEX q d0))"
          using k1 w(1) served_private [OF sv(1) mp pr w(2) [unfolded W_def]] unfolding dev_run_def q0_def by blast
        moreover have "rx_round G R U (m, h, d) = Some (False, (m1, h1, set_backend mx1 (set_queue RXQ_INDEX q d0)))"
          using x p Inr Inl r(1) q by (simp add: rx_round_def d)
        ultimately show ?thesis using stop r(3) Inl by simp
      next
        case (Inr un)
        obtain m2 cr where cr: "commit_hdr G m1 pkt' = (m2, cr)" by fastforce
        note cw = commit_hdr_writes [OF cr]
        obtain ul where ul: "(case cr of Inr _ \<Rightarrow> add_c (of_nat VSOCK_PKT_HDR_SIZE) (h_len (hdr pkt')) | Inl _ \<Rightarrow> Some 0) = Some ul"
          using cw(3) by (cases cr) auto
        have "agree (- W) (byte m) (byte m2)"
          using pb(2) w(3) by (intro agree_trans [OF w(2)] agree_sub [OF cw(2)]) auto
        then obtain m3 d3 where "use_chain G RXQ_INDEX (dc_index c) ul m2 (set_backend mx1 (set_queue RXQ_INDEX ?q1 d0)) = Some (m3, d3)"
          "dev_run in_rng byte RXQ_INDEX W m0 d0 (Suc n) m3 d3" using use [OF k1, of m2 ul] cw(1) w(1) by auto
        then show ?thesis
          using used [OF True, of m3 h1 d3] x p \<open>from_rx_virtq_head G R m c = Inr pkt\<close> Inr r(1) cr ul
          by (simp add: rx_round_def d)
      qed
    qed
  qed
qed

lemma rx_loop_run:
  fixes m0 :: 'm and d0 :: "'s Vsock"
  defines "q0 \<equiv> vd_queues d0 ! RXQ_INDEX"
  defines "gh \<equiv> good_heads G m0 (byte m0) q0" and "W \<equiv> queue_bufs (byte m0) q0"
  assumes u: "queue_usable (in_rng m0) (byte m0) q0" and i: "RXQ_INDEX < length (vd_queues d0)"
    and pr: "bufs_private (byte m0) q0" and ok: "mux_ok (backend d0)"
    and "dev_run in_rng byte RXQ_INDEX W m0 d0 n m d" "n \<le> length gh"
  shows "\<exists>k m' h' d'. rx_loop G R U b (m, h, d) = Some (b \<or> n < k, (m', h', d')) \<and> n \<le> k \<and> k \<le> length gh \<and>
    dev_run in_rng byte RXQ_INDEX W m0 d0 k m' d' \<and> (k < length gh \<longrightarrow> rxq_is_empty (mx_rxq (backend d')))"
  using assms(8,9)
proof (induction "length gh - n" arbitrary: n m h d b rule: less_induct)
  case less
  note step = rx_round_run [OF u [unfolded q0_def] i pr [unfolded q0_def] ok less(2) [unfolded W_def q0_def]
      less(3) [unfolded gh_def q0_def], of h thesis for thesis, folded q0_def, folded gh_def W_def]
  show ?case
  proof (rule step)
    fix m' h' d'
    assume a: "n < length gh" "rx_round G R U (m, h, d) = Some (True, (m', h', d'))"
      "dev_run in_rng byte RXQ_INDEX W m0 d0 (Suc n) m' d'"
    have "length gh - Suc n < length gh - n" "Suc n \<le> length gh" using a(1) by auto
    from less(1) [OF this(1) a(3) this(2), of True h'] obtain k m'' h'' d''
      where "rx_loop G R U True (m', h', d') = Some (True, (m'', h'', d''))" "Suc n \<le> k" "k \<le> length gh"
      "dev_run in_rng byte RXQ_INDEX W m0 d0 k m'' d''" "k < length gh \<longrightarrow> rxq_is_empty (mx_rxq (backend d''))" by auto
    then show ?thesis using a(2) by (subst rx_loop.simps) (auto intro!: exI [of _ k])
  next
    fix m' h' d'
    assume "rx_round G R U (m, h, d) = Some (False, (m', h', d'))"
      "dev_run in_rng byte RXQ_INDEX W m0 d0 n m' d'" "n < length gh \<Longrightarrow> rxq_is_empty (mx_rxq (backend d'))"
    then show ?thesis using less(3) by (subst rx_loop.simps) (auto intro!: exI [of _ n])
  qed
qed

end

section \<open>Events\<close>

text \<open>
  An activated device with a conforming driver. The receive and the transmit queue lie in guest memory and have
  a size that is a power of two; the descriptor table and the available ring of each are apart from its used
  ring; each has at most as many chains available as its size; the buffers of the receive queue are apart from the
  rings of that queue; and the used ring of the transmit queue is apart from the rings of the receive queue. The driver
  decides all but the first of these: a device write would otherwise change the rings that the device
  is reading, and a queue with too many available chains makes \<^verbatim>\<open>Queue::pop\<close> panic.
\<close>

definition vsock_ready :: "('m \<Rightarrow> nat \<Rightarrow> bool) \<Rightarrow> ('m \<Rightarrow> nat \<Rightarrow> u8) \<Rightarrow> 'm \<Rightarrow> 's Vsock \<Rightarrow> bool" where
  "vsock_ready in_rng byte m d \<longleftrightarrow> vd_activated d \<and> length (vd_queues d) = 3 \<and> length (vd_queue_events d) = 3 \<and>
     queue_usable (in_rng m) (byte m) (vd_queues d ! RXQ_INDEX) \<and>
     queue_usable (in_rng m) (byte m) (vd_queues d ! TXQ_INDEX) \<and> bufs_private (byte m) (vd_queues d ! RXQ_INDEX) \<and>
     device_area (vd_queues d ! TXQ_INDEX) \<inter>
       (driver_area (vd_queues d ! RXQ_INDEX) \<union> device_area (vd_queues d ! RXQ_INDEX)) = {}"

lemmas vsock_index_defs = RXQ_INDEX_def TXQ_INDEX_def EVQ_INDEX_def

definition used_some :: "'s Vsock \<Rightarrow> 's Vsock \<Rightarrow> bool" where
  "used_some d d' \<longleftrightarrow> (\<exists>i<3. next_used (vd_queues d' ! i) \<noteq> next_used (vd_queues d ! i))"

lemma used_some_refl [simp]: "\<not> used_some d d" by (simp add: used_some_def)

lemma used_some_trans: "used_some d d'' \<Longrightarrow> used_some d d' \<or> used_some d' d''"
  by (auto simp: used_some_def)

lemma used_some_backend [simp]:
  "used_some (set_backend mx d) d' = used_some d d'" "used_some d (set_backend mx d') = used_some d d'"
  by (simp_all add: used_some_def)

lemma dev_run_used: "dev_run in_rng byte i W m0 d0 n m d \<Longrightarrow> used_some d0 d \<Longrightarrow> 0 < n"
proof (rule ccontr)
  assume a: "dev_run in_rng byte i W m0 d0 n m d" "used_some d0 d" "\<not> 0 < n"
  then obtain q mx where q: "d = set_backend mx (set_queue i q d0)" "next_used q = next_used (vd_queues d0 ! i)"
    by (auto simp: dev_run_def served_def)
  have "next_used (vd_queues d ! j) = next_used (vd_queues d0 ! j)" for j
    using q(2) by (cases "j = i \<and> i < length (vd_queues d0)") (auto simp: q(1) nth_list_update list_update_beyond)
  then show False using a(2) by (simp add: used_some_def)
qed

context uds_env
begin

lemma process_tx_ready:
  fixes d :: "'s Vsock"
  assumes "vsock_ready in_rng byte m d" "mux_ok (backend d)"
  obtains m' h' d' where "process_tx G R U (m, h, d) =
      Some (good_heads G m (byte m) (vd_queues d ! TXQ_INDEX) \<noteq> [], (m', h', d'))"
    "dev_run in_rng byte TXQ_INDEX {} m d (length (good_heads G m (byte m) (vd_queues d ! TXQ_INDEX))) m' d'"
proof -
  have u: "queue_usable (in_rng m) (byte m) (vd_queues d ! TXQ_INDEX)" "TXQ_INDEX < length (vd_queues d)" "vd_activated d"
    using assms(1) by (auto simp: vsock_ready_def vsock_index_defs)
  from tx_loop_run [OF u(1,2) assms(2) dev_run_0, of False h] u(3) that show ?thesis
    by (auto simp: process_tx_def)
qed

lemma process_rx_ready:
  fixes d :: "'s Vsock"
  assumes "vsock_ready in_rng byte m d" "mux_ok (backend d)"
  obtains n m' h' d' where "process_rx G R U (m, h, d) = Some (0 < n, (m', h', d'))"
    "n \<le> length (good_heads G m (byte m) (vd_queues d ! RXQ_INDEX))"
    "dev_run in_rng byte RXQ_INDEX (queue_bufs (byte m) (vd_queues d ! RXQ_INDEX)) m d n m' d'"
    "n < length (good_heads G m (byte m) (vd_queues d ! RXQ_INDEX)) \<Longrightarrow> rxq_is_empty (mx_rxq (backend d'))"
proof -
  have u: "queue_usable (in_rng m) (byte m) (vd_queues d ! RXQ_INDEX)" "RXQ_INDEX < length (vd_queues d)"
    "bufs_private (byte m) (vd_queues d ! RXQ_INDEX)" "vd_activated d"
    using assms(1) by (auto simp: vsock_ready_def vsock_index_defs)
  from rx_loop_run [OF u(1-3) assms(2) dev_run_0, of False h] u(4) that show ?thesis
    by (auto simp: process_rx_def)
qed

text \<open>The transmit queue leaves the receive queue ready.\<close>

lemma tx_keeps_rx:
  fixes d :: "'s Vsock"
  assumes r: "vsock_ready in_rng byte m d" and run: "dev_run in_rng byte TXQ_INDEX {} m d n m' d'"
  shows "vd_activated d'" "RXQ_INDEX < length (vd_queues d')" "vd_queues d' ! RXQ_INDEX = vd_queues d ! RXQ_INDEX"
    "queue_usable (in_rng m') (byte m') (vd_queues d' ! RXQ_INDEX)" "bufs_private (byte m') (vd_queues d' ! RXQ_INDEX)"
proof -
  let ?q = "vd_queues d ! RXQ_INDEX" and ?t = "vd_queues d ! TXQ_INDEX"
  obtain q mx where d': "d' = set_backend mx (set_queue TXQ_INDEX q d)" and rg: "in_rng m' = in_rng m"
    and ag: "agree (- (device_area ?t \<union> {})) (byte m) (byte m')"
    using run unfolding dev_run_def by blast
  have "agree (driver_area ?q) (byte m) (byte m')"
    using r by (intro agree_sub [OF ag]) (auto simp: vsock_ready_def)
  moreover have "q_size ?q \<noteq> 0" using r by (simp add: vsock_ready_def queue_usable_def pow2_def)
  ultimately show "vd_activated d'" "RXQ_INDEX < length (vd_queues d')" "vd_queues d' ! RXQ_INDEX = ?q"
    "queue_usable (in_rng m') (byte m') (vd_queues d' ! RXQ_INDEX)" "bufs_private (byte m') (vd_queues d' ! RXQ_INDEX)"
    using r agree_avail(3) [of ?q "byte m" "byte m'"] agree_bufs_private [of ?q "byte m" "byte m'"]
    by (auto simp: d' vsock_ready_def vsock_index_defs queue_usable_def rg)
qed

lemma process_both_returns:
  fixes d :: "'s Vsock"
  assumes r: "vsock_ready in_rng byte m d" and ok: "mux_ok (backend d)"
  obtains b m' h' d' where "process_both G R U (m, h, d) = Some (b, (m', h', d'))"
    "used_some d d' \<Longrightarrow> b" "mux_keeps (backend d) (backend d')"
proof -
  obtain m1 h1 d1 where t: "process_tx G R U (m, h, d) =
      Some (good_heads G m (byte m) (vd_queues d ! TXQ_INDEX) \<noteq> [], (m1, h1, d1))"
    "dev_run in_rng byte TXQ_INDEX {} m d (length (good_heads G m (byte m) (vd_queues d ! TXQ_INDEX))) m1 d1"
    by (rule process_tx_ready [OF r ok, of h])
  have k1: "mux_keeps (backend d) (backend d1)" using t(2) by (auto simp: dev_run_def)
  have u1: "used_some d d1 \<Longrightarrow> good_heads G m (byte m) (vd_queues d ! TXQ_INDEX) \<noteq> []"
    using dev_run_used [OF t(2)] by simp
  show ?thesis
  proof (cases "mux_has_pending_rx (backend d1)")
    case False
    then show ?thesis using that t(1) k1 u1 by (auto simp: process_both_def)
  next
    case True
    note rx = tx_keeps_rx [OF r t(2)]
    have ok1: "mux_ok (backend d1)" using k1 ok by (simp add: mux_keeps_def)
    from rx_loop_run [OF rx(4,2,5) ok1 dev_run_0, of False h1] obtain n m2 h2 d2
      where p: "rx_loop G R U False (m1, h1, d1) = Some (0 < n, (m2, h2, d2))"
        "dev_run in_rng byte RXQ_INDEX (queue_bufs (byte m1) (vd_queues d1 ! RXQ_INDEX)) m1 d1 n m2 d2" by auto
    have k2: "mux_keeps (backend d1) (backend d2)" using p(2) by (auto simp: dev_run_def)
    have "process_both G R U (m, h, d) =
        Some (good_heads G m (byte m) (vd_queues d ! TXQ_INDEX) \<noteq> [] \<or> 0 < n, (m2, h2, d2))"
      using t(1) True rx(1) p(1) by (simp add: process_both_def process_rx_def)
    then show ?thesis
      using that keeps_trans [OF k1 k2] u1 dev_run_used [OF p(2)] used_some_trans [of d d2 d1] by blast
  qed
qed

lemma rxq_event_returns:
  fixes d :: "'s Vsock"
  assumes r: "vsock_ready in_rng byte m d" and ok: "mux_ok (backend d)"
  obtains b m' h' d' where "handle_rxq_event G R U E evset (m, h, d) = Some (b, (m', h', d'))" "used_some d d' \<Longrightarrow> b"
proof -
  obtain x h1 where e: "ev_read E h (vd_queue_events d ! RXQ_INDEX) = (x, h1)" by fastforce
  obtain n m' h' d' where p: "process_rx G R U (m, h1, d) = Some (0 < n, (m', h', d'))"
    "dev_run in_rng byte RXQ_INDEX (queue_bufs (byte m) (vd_queues d ! RXQ_INDEX)) m d n m' d'"
    by (rule process_rx_ready [OF r ok, of h1]) blast
  have "idx (vd_queue_events d) RXQ_INDEX = Some (vd_queue_events d ! RXQ_INDEX)"
    using r by (simp add: vsock_ready_def idx_def vsock_index_defs)
  then show ?thesis
    using that [of False m h d] that [of False m h1 d] that [of "0 < n" m' h' d'] e p(1) dev_run_used [OF p(2)]
    by (cases x; cases "evset = EventSet_IN"; cases "mux_has_pending_rx (backend d)") (simp_all add: handle_rxq_event_def)
qed

lemma txq_event_returns:
  fixes d :: "'s Vsock"
  assumes r: "vsock_ready in_rng byte m d" and ok: "mux_ok (backend d)"
  obtains b m' h' d' where "handle_txq_event G R U E evset (m, h, d) = Some (b, (m', h', d'))" "used_some d d' \<Longrightarrow> b"
proof -
  obtain x h1 where e: "ev_read E h (vd_queue_events d ! TXQ_INDEX) = (x, h1)" by fastforce
  obtain b m' h' d' where p: "process_both G R U (m, h1, d) = Some (b, (m', h', d'))" "used_some d d' \<Longrightarrow> b"
    by (rule process_both_returns [OF r ok, of h1]) blast
  have "idx (vd_queue_events d) TXQ_INDEX = Some (vd_queue_events d ! TXQ_INDEX)"
    using r by (simp add: vsock_ready_def idx_def vsock_index_defs)
  then show ?thesis
    using that [of False m h d] that [of False m h1 d] that [of b m' h' d'] e p
    by (cases x; cases "evset = EventSet_IN") (simp_all add: handle_txq_event_def)
qed

lemma notify_backend_returns:
  fixes d :: "'s Vsock"
  assumes r: "vsock_ready in_rng byte m d" and n: "mux_notify U (h, backend d) = Some (h1, mx1)" "mux_ok mx1"
  obtains b m' h' d' where "notify_backend G R U (m, h, d) = Some (b, (m', h', d'))" "used_some d d' \<Longrightarrow> b"
proof -
  have "vsock_ready in_rng byte m (set_backend mx1 d)" "mux_ok (backend (set_backend mx1 d))"
    using r n(2) by (simp_all add: vsock_ready_def)
  then obtain b m' h' d' where "process_both G R U (m, h1, set_backend mx1 d) = Some (b, (m', h', d'))"
    "used_some (set_backend mx1 d) d' \<Longrightarrow> b"
    by (rule process_both_returns [of m "set_backend mx1 d" h1]) blast
  then show ?thesis using that n(1) by (auto simp: notify_backend_def)
qed

lemma vsock_dispatch_returns:
  fixes d :: "'s Vsock"
  assumes r: "vsock_ready in_rng byte m d" and ok: "mux_ok (backend d)"
    and n: "mux_notify U (h, backend d) = Some (h1, mx1)" "mux_ok mx1"
  obtains ops b m' h' d' where "vsock_dispatch G R U E qs source evset (m, h, d) = Some (ops, b, (m', h', d'))"
    "used_some d d' \<Longrightarrow> b"
proof -
  obtain rxq txq evq where qs: "qs = (rxq, txq, evq)" by (cases qs)
  have ix: "idx (vd_queue_events d) i = Some (vd_queue_events d ! i)" if "i < 3" for i
    using that r by (simp add: vsock_ready_def idx_def)
  obtain h2 where evq: "handle_evq_event E evset (m, h, d) = Some (False, (m, h2, d))"
    using ix [of EVQ_INDEX] that
    by (cases "ev_read E h (vd_queue_events d ! EVQ_INDEX)"; cases "evset = EventSet_IN")
      (simp_all add: handle_evq_event_def, simp add: EVQ_INDEX_def)
  obtain ops h3 where ac: "handle_activate_event E h d = Some (ops, h3)"
    using ix by (cases "ev_read E h (vd_activate_evt d)")
      (auto simp: handle_activate_event_def register_runtime_events_def vsock_index_defs)
  obtain b4 m4 h4 d4 where rx: "handle_rxq_event G R U E evset (m, h, d) = Some (b4, (m4, h4, d4))" "used_some d d4 \<Longrightarrow> b4"
    by (rule rxq_event_returns [OF r ok, of E evset h]) blast
  obtain b5 m5 h5 d5 where tx: "handle_txq_event G R U E evset (m, h, d) = Some (b5, (m5, h5, d5))" "used_some d d5 \<Longrightarrow> b5"
    by (rule txq_event_returns [OF r ok, of E evset h]) blast
  obtain b6 m6 h6 d6 where nb: "notify_backend G R U (m, h, d) = Some (b6, (m6, h6, d6))" "used_some d d6 \<Longrightarrow> b6"
    by (rule notify_backend_returns [OF r n]) blast
  note d = vsock_dispatch_def qs Let_def
  consider "source = rxq" | "source \<noteq> rxq" "source = txq" | "source \<notin> {rxq, txq}" "source = evq"
    | "source \<notin> {rxq, txq, evq}" "source = vk_backend_fd (vd_inner d)"
    | "source \<notin> {rxq, txq, evq, vk_backend_fd (vd_inner d)}" "source = vd_activate_evt d"
    | "source \<notin> {rxq, txq, evq, vk_backend_fd (vd_inner d), vd_activate_evt d}" by blast
  then show ?thesis
  proof cases
    case 1 then show ?thesis using that [OF _ rx(2)] rx(1) by (simp add: d)
  next
    case 2 then show ?thesis using that [OF _ tx(2)] tx(1) by (simp add: d)
  next
    case 3 then show ?thesis using that [of "[]" False m h2 d] evq by (simp add: d)
  next
    case 4 then show ?thesis using that [OF _ nb(2)] nb(1) by (simp add: d)
  next
    case 5 then show ?thesis using that [of ops False m h3 d] ac by (simp add: d)
  next
    case 6 then show ?thesis using that [of "[]" False m h d] by (simp add: d)
  qed
qed

end

lemma irq_after_signal:
  obtains r h' d' where "signal_used_queue E h d = (r, h', d')" "bit (vd_irq_status d') 0" "used_some d0 d' = used_some d0 d"
  by (cases "ev_write E h (vd_irq_evt d) 1")
    (simp add: signal_used_queue_def trigger_irq_def VIRTIO_MMIO_INT_VRING_def bit_simps used_some_def)

section \<open>Properties\<close>

definition ref_ev :: "nat eventfds" where
  "ref_ev = \<lparr> ev_new = (\<lambda>h. (Inr (int h), Suc h)), ev_read = (\<lambda>h fd. (Inr 1, h)), ev_write = (\<lambda>h fd v. (Inr (), h)) \<rparr>"

text \<open>A device with a chain in its transmit queue and an empty receive queue.\<close>

definition vs_rx_queue :: Queue where
  "vs_rx_queue = ex_queue\<lparr> desc_table := 0x800, avail_ring := 0x900, used_ring := 0xA00 \<rparr>"

definition vs_dev :: "ref_stream Vsock" where
  "vs_dev = \<lparr> vd_queues = [vs_rx_queue, ex_queue, vs_rx_queue], vd_queue_events = [10, 11, 12],
     vd_avail_features = AVAIL_FEATURES, vd_acked_features = 0, vd_irq_status = 0, vd_irq_evt = 13,
     vd_activate_evt = 14, vd_activated = True,
     vd_inner = \<lparr> vk_cid = 3, vk_backend = vs_mux, vk_backend_fd = 15 \<rparr> \<rparr>"

lemma vs_dev_pending:
  "pending (rm_bytes ex_mem) ex_queue = [0]" "pending (rm_bytes ex_mem) vs_rx_queue = []"
  by (simp_all add: pending_def avail_idx_at_def u16_at_def bytes_at_def upt_rec avail_entry_def vs_rx_queue_def)
    (simp_all add: ex_mem_def ex_queue_def)

lemma vs_dev_mapped: "queue_mapped (ref_in ex_mem) vs_rx_queue"
  by (simp add: queue_mapped_def queue_sized_def vs_rx_queue_def ex_queue_def all_in_def ex_mem_in)

lemma vs_dev_desc: "desc_at (rm_bytes ex_mem) vs_rx_queue i = \<lparr> d_addr = 0, d_len = 0, d_flags = 0, d_next = 0 \<rparr>"
  by (simp add: desc_at_def Descriptor_of_bytes_def bytes_at_def vs_rx_queue_def upt_rec) (simp add: ex_mem_def)

lemma vs_dev_ready: "vsock_ready ref_in rm_bytes ex_mem vs_dev"
proof -
  have "vd_queues vs_dev ! RXQ_INDEX = vs_rx_queue" "vd_queues vs_dev ! TXQ_INDEX = ex_queue"
    by (simp_all add: vs_dev_def vsock_index_defs)
  moreover have "pow2 2" by (simp add: pow2_def)
  ultimately show ?thesis
    using ex_queue_mapped vs_dev_mapped vs_dev_desc vs_dev_pending
    by (auto simp: vsock_ready_def queue_usable_def bufs_private_def desc_buf_def rings_apart_def
        driver_area_def device_area_def vs_dev_def)
      (auto simp: vs_rx_queue_def ex_queue_def)
qed

lemma vs_dev_heads: "good_heads vs_gm ex_mem (rm_bytes ex_mem) (vd_queues vs_dev ! TXQ_INDEX) = [0]"
proof -
  have q: "vd_queues vs_dev ! TXQ_INDEX = ex_queue" by (simp add: vs_dev_def vsock_index_defs)
  have "checked_new vs_gm ex_mem (desc_table ex_queue) (q_size ex_queue) 0 \<noteq> None"
    by (simp add: checked_new_def ref_gm_err_def add_c_def ex_mem_in ex_queue_def ref_all_in_def bytes_at_def
        upt_rec Descriptor_of_bytes_def chain_is_valid_def has_next_def VIRTQ_DESC_F_NEXT_def Let_def)
      (simp add: ex_mem_def)
  then show ?thesis using vs_dev_pending(1) by (simp add: good_heads_def q)
qed

text \<open>
  C33. With a driver that conforms (\<open>vsock_ready\<close>: rings apart, at most a queue size of chains available, receive buffers apart
  from the receive rings, transmit used ring apart from the receive rings) an activated vsock device
  serves its queues in order and completes every chain that it takes. A run
  over the transmit queue ends after all the available chains, up to the first with a bad head:
  the muxer takes each of them, the used ring reports them in the order in which they were
  available, and no other memory changes. A run over the receive queue ends as well, after some
  of the available chains, and before the last only when the muxer has no packet left; it reports
  the chains that it filled in order, gives back the one it could not fill, and writes only the
  used ring and buffers of the queue. The result tells in both cases whether a chain was used.
\<close>

theorem vsock_serves_queues:
  assumes "uds_env G in_rng byte R U out clk" "mux_reach G R U cid (backend d)" "vsock_ready in_rng byte m d"
  shows "(\<exists>m' h' d'. let q = vd_queues d ! TXQ_INDEX; n = length (good_heads G m (byte m) q) in
      process_tx G R U (m, h, d) = Some (0 < n, (m', h', d')) \<and>
      served (byte m) q n (byte m') (vd_queues d' ! TXQ_INDEX) \<and>
      (\<forall>k. k \<notin> device_area q \<longrightarrow> byte m' k = byte m k)) \<and>
    (\<exists>n m' h' d'. let q = vd_queues d ! RXQ_INDEX; N = length (good_heads G m (byte m) q) in
      process_rx G R U (m, h, d) = Some (0 < n, (m', h', d')) \<and> n \<le> N \<and>
      (n < N \<longrightarrow> rq_q (mx_rxq (backend d')) = []) \<and>
      served (byte m) q n (byte m') (vd_queues d' ! RXQ_INDEX) \<and>
      (\<forall>k. k \<notin> device_area q \<union> queue_bufs (byte m) q \<longrightarrow> byte m' k = byte m k))"
proof -
  have ok: "mux_ok (backend d)" using mux_reach_ok [OF assms(1,2)] by simp
  have l: "TXQ_INDEX < length (vd_queues d)" "RXQ_INDEX < length (vd_queues d)"
    using assms(3) by (simp_all add: vsock_ready_def vsock_index_defs)
  obtain m1 h1 d1 where t: "process_tx G R U (m, h, d) =
      Some (good_heads G m (byte m) (vd_queues d ! TXQ_INDEX) \<noteq> [], (m1, h1, d1))"
    "dev_run in_rng byte TXQ_INDEX {} m d (length (good_heads G m (byte m) (vd_queues d ! TXQ_INDEX))) m1 d1"
    by (rule uds_env.process_tx_ready [OF assms(1,3) ok, of h])
  obtain n m2 h2 d2 where r: "process_rx G R U (m, h, d) = Some (0 < n, (m2, h2, d2))"
    "n \<le> length (good_heads G m (byte m) (vd_queues d ! RXQ_INDEX))"
    "dev_run in_rng byte RXQ_INDEX (queue_bufs (byte m) (vd_queues d ! RXQ_INDEX)) m d n m2 d2"
    "n < length (good_heads G m (byte m) (vd_queues d ! RXQ_INDEX)) \<Longrightarrow> rxq_is_empty (mx_rxq (backend d2))"
    by (rule uds_env.process_rx_ready [OF assms(1,3) ok, of h]) blast
  have "served (byte m) (vd_queues d ! i) n' (byte m') (vd_queues d' ! i) \<and>
      (\<forall>k. k \<notin> device_area (vd_queues d ! i) \<union> W \<longrightarrow> byte m' k = byte m k)"
    if "dev_run in_rng byte i W m d n' m' d'" "i < length (vd_queues d)" for i W n' m' d'
    using that by (auto simp: dev_run_def agree_def)
  from this [OF t(2) l(1)] this [OF r(3) l(2)] show ?thesis
    using t(1) r(1,2,4) unfolding Let_def rxq_is_empty_def length_greater_0_conv by blast
qed

theorem vsock_serves_queues_witness:
  "\<exists>m' h' d'. process_tx vs_gm vs_regs ref_uds (ex_mem, 0, vs_dev) = Some (True, (m', h', d')) \<and>
     fst (used_entry (rm_bytes m') ex_queue 0) = 0 \<and> used_idx_at (rm_bytes m') ex_queue = 1"
proof -
  have b: "backend vs_dev = vs_mux" and q: "vd_queues vs_dev ! TXQ_INDEX = ex_queue"
    by (simp_all add: vs_dev_def vsock_index_defs)
  from conjunct1 [OF vsock_serves_queues [OF refu.uds_env_axioms, of 3 vs_dev ex_mem 0]] show ?thesis
    using vs_mux_reach vs_dev_ready vs_dev_heads vs_dev_pending(1)
    by (auto simp: b q served_def Let_def ex_queue_def)
qed

text \<open>
  C34. The event handler of an activated vsock device returns, for every source and every
  set of events, as long as the driver conforms (\<open>vsock_ready\<close>: rings apart, at most a queue size of chains available, receive
  buffers apart from the receive rings, transmit used ring apart from the receive rings) and 32 local ports are free. Whenever
  it completed a chain of some queue, the interrupt status tells the driver so. An event of an
  inactive device changes nothing.
\<close>

theorem vsock_process_returns:
  fixes G :: "('m, 'e) gmem"
  assumes "uds_env G in_rng byte R U out clk" "mux_reach G R U cid (backend d)" "vsock_ready in_rng byte m d"
    and "card (mx_local_port_set (backend d)) + 32 \<le> 2 ^ 30"
  shows "(\<exists>ops m' h' d'. vsock_process G R U E source evset (m, h, d) = Some (ops, (m', h', d')) \<and>
      (used_some d d' \<longrightarrow> bit (vd_irq_status d') 0)) \<and>
    vsock_process G R U E source evset (m, h, d\<lparr>vd_activated := False\<rparr>) = Some ([], (m, h, d\<lparr>vd_activated := False\<rparr>))"
proof -
  have ok: "mux_ok (backend d)" "port_ok (backend d)" using mux_reach_ok [OF assms(1,2)] by auto
  obtain h1 mx1 where nt: "mux_notify U (h, backend d) = Some (h1, mx1)" "mux_ok mx1"
    using uds_env.mux_notify_spec [OF assms(1) ok, of h] assms(4) by (auto split: option.split_asm)
  have ix: "idx (vd_queue_events d) i = Some (vd_queue_events d ! i)" if "i < 3" for i
    using that assms(3) by (simp add: vsock_ready_def idx_def)
  have act: "vd_activated d" using assms(3) by (simp add: vsock_ready_def)
  obtain ops b m' h' d' where r: "vsock_dispatch G R U E (vd_queue_events d ! 0, vd_queue_events d ! 1, vd_queue_events d ! 2)
      source evset (m, h, d) = Some (ops, b, (m', h', d'))" "used_some d d' \<Longrightarrow> b"
    by (rule uds_env.vsock_dispatch_returns [OF assms(1,3) ok(1) nt, of E _ source evset]) blast
  obtain x :: "'e DeviceError + unit" and h2 d2 where s: "signal_used_queue E h' d' = (x, h2, d2)" "bit (vd_irq_status d2) 0"
    "used_some d d2 = used_some d d'" by (rule irq_after_signal)
  have "vsock_process G R U E source evset (m, h, d) =
      Some (ops, if b then (m', h2, d2) else (m', h', d'))"
    using act ix [of 0] ix [of 1] ix [of 2] r(1) s(1) by (simp add: vsock_process_def vsock_index_defs)
  moreover have "vsock_process G R U E source evset (m, h, d\<lparr>vd_activated := False\<rparr>) = Some ([], (m, h, d\<lparr>vd_activated := False\<rparr>))"
    using ix [of 0] ix [of 1] ix [of 2] by (simp add: vsock_process_def vsock_index_defs)
  ultimately show ?thesis using r(2) s(2,3) by (cases b) auto
qed

theorem vsock_process_returns_witness:
  "\<exists>ops m' h' d'. vsock_process vs_gm vs_regs ref_uds ref_ev 11 EventSet_IN (ex_mem, 0, vs_dev) = Some (ops, (m', h', d')) \<and>
     (used_some vs_dev d' \<longrightarrow> bit (vd_irq_status d') 0)"
proof -
  have b: "backend vs_dev = vs_mux" by (simp add: vs_dev_def)
  show ?thesis
    using vsock_process_returns [OF refu.uds_env_axioms, of 3 vs_dev ex_mem ref_ev 11 EventSet_IN 0] vs_mux_reach vs_dev_ready
    by (simp add: b) (simp add: vs_mux_def)
qed

end
