(* ===== verification/Mmio_Transport.thy ===== *)
theory Mmio_Transport
  imports Vsock_Device_Safety
begin

text \<open>
  The MMIO transport of a virtio device, \<open>src/firecracker/src/devices/src/virtio/mmio.rs\<close>: the
  registers through which a driver negotiates features, sets up the queues and activates the
  device. The transport owns the device of the model; the interrupt status that both share is a
  field of the device. \<^verbatim>\<open>read_config\<close> and \<^verbatim>\<open>write_config\<close> of the device are called at an offset
  from \<open>0x100\<close>.
\<close>

section \<open>Registers\<close>

definition VENDOR_ID :: u32 where "VENDOR_ID = 0"
definition MMIO_MAGIC_VALUE :: u32 where "MMIO_MAGIC_VALUE = 0x74726976"
definition MMIO_VERSION :: u32 where "MMIO_VERSION = 2"

record 'd MmioTransport =
  mt_device :: "'d virtio_device"
  mt_features_select :: u32
  mt_acked_features_select :: u32
  mt_queue_select :: u32
  mt_device_status :: u32
  mt_config_generation :: u32

definition MmioTransport_new :: "'d virtio_device \<Rightarrow> 'd MmioTransport" where
  "MmioTransport_new d = \<lparr> mt_device = d, mt_features_select = 0, mt_acked_features_select = 0,
     mt_queue_select = 0, mt_device_status = INIT, mt_config_generation = 0 \<rparr>"

definition check_device_status :: "u32 \<Rightarrow> u32 \<Rightarrow> 'd MmioTransport \<Rightarrow> bool" where
  "check_device_status set_bits clr_bits t \<longleftrightarrow> mt_device_status t AND (set_bits OR clr_bits) = set_bits"

fun all_valid :: "('m, 'e) guest_mem \<Rightarrow> 'm \<Rightarrow> Queue list \<Rightarrow> bool option" where
  "all_valid G m [] = Some True"
| "all_valid G m (q # qs) = do {
     v \<leftarrow> queue_is_valid G q m;
     if v then all_valid G m qs else Some False
   }"

definition are_queues_valid :: "('m, 'e) guest_mem \<Rightarrow> 'm \<Rightarrow> 'd MmioTransport \<Rightarrow> bool option" where
  "are_queues_valid G m t = all_valid G m (vd_queues (mt_device t))"

definition with_queue :: "'a \<Rightarrow> (Queue \<Rightarrow> 'a) \<Rightarrow> 'd MmioTransport \<Rightarrow> 'a" where
  "with_queue dflt f t =
     (case idx (vd_queues (mt_device t)) (unat (mt_queue_select t)) of Some q \<Rightarrow> f q | None \<Rightarrow> dflt)"

definition with_queue_mut :: "(Queue \<Rightarrow> Queue) \<Rightarrow> 'd MmioTransport \<Rightarrow> bool \<times> 'd MmioTransport" where
  "with_queue_mut f t =
     (let d = mt_device t; i = unat (mt_queue_select t) in
      case idx (vd_queues d) i of
        Some q \<Rightarrow> (True, t\<lparr> mt_device := d\<lparr> vd_queues := (vd_queues d)[i := f q] \<rparr> \<rparr>)
      | None \<Rightarrow> (False, t))"

definition update_queue_field :: "(Queue \<Rightarrow> Queue) \<Rightarrow> 'd MmioTransport \<Rightarrow> 'd MmioTransport" where
  "update_queue_field f t =
     (if check_device_status FEATURES_OK (DRIVER_OK OR FAILED) t then snd (with_queue_mut f t) else t)"

definition mmio_reset :: "'d MmioTransport \<Rightarrow> 'd MmioTransport" where
  "mmio_reset t = t\<lparr> mt_features_select := 0, mt_acked_features_select := 0, mt_queue_select := 0,
     mt_device_status := INIT,
     mt_device := (mt_device t)\<lparr> vd_irq_status := 0,
       vd_queues := map (\<lambda>q. Queue_new (max_size q)) (vd_queues (mt_device t)) \<rparr> \<rparr>"

text \<open>A failed activation panics.\<close>

definition activate_device :: "('m, 'e) guest_mem \<Rightarrow> ('h, 'd) device_ops \<Rightarrow> 'm \<Rightarrow> 'h \<Rightarrow> 'd MmioTransport \<Rightarrow>
    ('h \<times> 'd MmioTransport) option" where
  "activate_device G D m h t =
     (if vd_activated (mt_device t) then Some (h, t)
      else do {
        v \<leftarrow> are_queues_valid G m t;
        if v then
          (case dop_activate D h (mt_device t) of
             (Inl _, _) \<Rightarrow> None
           | (Inr _, h1, d1) \<Rightarrow> Some (h1, t\<lparr> mt_device := d1 \<rparr>))
        else Some (h, t)
      })"

definition set_device_status :: "('m, 'e) guest_mem \<Rightarrow> ('h, 'd) device_ops \<Rightarrow> 'm \<Rightarrow> u32 \<Rightarrow>
    'h \<times> 'd MmioTransport \<Rightarrow> ('h \<times> 'd MmioTransport) option" where
  "set_device_status G D m status st =
     (let (h, t) = st;
          old = mt_device_status t;
          changed = NOT old AND status
      in if changed = ACKNOWLEDGE \<and> old = INIT then Some (h, t\<lparr> mt_device_status := status \<rparr>)
         else if changed = DRIVER \<and> old = ACKNOWLEDGE then Some (h, t\<lparr> mt_device_status := status \<rparr>)
         else if changed = FEATURES_OK \<and> old = ACKNOWLEDGE OR DRIVER then Some (h, t\<lparr> mt_device_status := status \<rparr>)
         else if changed = DRIVER_OK \<and> old = ACKNOWLEDGE OR DRIVER OR FEATURES_OK then
           activate_device G D m h (t\<lparr> mt_device_status := status \<rparr>)
         else if status AND FAILED \<noteq> 0 then Some (h, t\<lparr> mt_device_status := old OR FAILED \<rparr>)
         else if status = 0 then
           (let t1 = (if vd_activated (mt_device t)
                      then (let (ok, d1) = dop_reset D (mt_device t)
                            in t\<lparr> mt_device := d1, mt_device_status := (if ok then old else old OR FAILED) \<rparr>)
                      else t)
            in Some (h, if mt_device_status t1 AND FAILED = 0 then mmio_reset t1 else t1))
         else Some (h, t))"

text \<open>The 32-bit registers that can be read, and the accesses of the bus.\<close>

definition read_register :: "('h, 'd) device_ops \<Rightarrow> u64 \<Rightarrow> 'd MmioTransport \<Rightarrow> u32 option" where
  "read_register D offset t =
     (if offset = 0x0 then Some MMIO_MAGIC_VALUE
      else if offset = 0x04 then Some MMIO_VERSION
      else if offset = 0x08 then Some (dop_type D)
      else if offset = 0x0c then Some VENDOR_ID
      else if offset = 0x10 then
        (let features = avail_features_by_page (mt_features_select t) (mt_device t)
         in Some (if mt_features_select t = 1 then features OR 0x1 else features))
      else if offset = 0x34 then Some (with_queue 0 (\<lambda>q. ucast (max_size q)) t)
      else if offset = 0x44 then Some (with_queue 0 (\<lambda>q. of_bool (ready q)) t)
      else if offset = 0x60 then Some (ucast (vd_irq_status (mt_device t)))
      else if offset = 0x70 then Some (mt_device_status t)
      else if offset = 0xfc then Some (mt_config_generation t)
      else None)"

definition mmio_read :: "('h, 'd) device_ops \<Rightarrow> u64 \<Rightarrow> bytes \<Rightarrow> 'd MmioTransport \<Rightarrow> bytes" where
  "mmio_read D offset data t =
     (if offset \<le> 0xff \<and> length data = 4 then
        (case read_register D offset t of Some v \<Rightarrow> le_bytes 4 (unat v) | None \<Rightarrow> data)
      else if 0x100 \<le> offset \<and> offset \<le> 0xfff then dop_read_config D (mt_device t) (offset - 0x100) data
      else data)"

definition hi :: "u64 \<Rightarrow> u32 \<Rightarrow> u64" where
  "hi v x = (v AND 0xffffffff) OR push_bit 32 (ucast x)"

definition lo :: "u64 \<Rightarrow> u32 \<Rightarrow> u64" where
  "lo v x = (v AND NOT 0xffffffff) OR ucast x"

definition write_register :: "('m, 'e) guest_mem \<Rightarrow> ('h, 'd) device_ops \<Rightarrow> 'm \<Rightarrow> u64 \<Rightarrow> u32 \<Rightarrow>
    'h \<times> 'd MmioTransport \<Rightarrow> ('h \<times> 'd MmioTransport) option" where
  "write_register G D m offset v st =
     (let (h, t) = st in
      if offset = 0x14 then Some (h, t\<lparr> mt_features_select := v \<rparr>)
      else if offset = 0x20 then
        Some (h, if check_device_status DRIVER (FEATURES_OK OR FAILED) t
                 then t\<lparr> mt_device := ack_features_by_page (mt_acked_features_select t) v (mt_device t) \<rparr> else t)
      else if offset = 0x24 then Some (h, t\<lparr> mt_acked_features_select := v \<rparr>)
      else if offset = 0x30 then Some (h, t\<lparr> mt_queue_select := v \<rparr>)
      else if offset = 0x38 then Some (h, update_queue_field (\<lambda>q. q\<lparr> q_size := ucast v \<rparr>) t)
      else if offset = 0x44 then Some (h, update_queue_field (\<lambda>q. q\<lparr> ready := (v = 1) \<rparr>) t)
      else if offset = 0x64 then
        Some (h, if check_device_status DRIVER_OK 0 t
                 then t\<lparr> mt_device := (mt_device t)\<lparr> vd_irq_status := vd_irq_status (mt_device t) AND NOT (ucast v) \<rparr> \<rparr>
                 else t)
      else if offset = 0x70 then set_device_status G D m v (h, t)
      else if offset = 0x80 then Some (h, update_queue_field (\<lambda>q. q\<lparr> desc_table := lo (desc_table q) v \<rparr>) t)
      else if offset = 0x84 then Some (h, update_queue_field (\<lambda>q. q\<lparr> desc_table := hi (desc_table q) v \<rparr>) t)
      else if offset = 0x90 then Some (h, update_queue_field (\<lambda>q. q\<lparr> avail_ring := lo (avail_ring q) v \<rparr>) t)
      else if offset = 0x94 then Some (h, update_queue_field (\<lambda>q. q\<lparr> avail_ring := hi (avail_ring q) v \<rparr>) t)
      else if offset = 0xa0 then Some (h, update_queue_field (\<lambda>q. q\<lparr> used_ring := lo (used_ring q) v \<rparr>) t)
      else if offset = 0xa4 then Some (h, update_queue_field (\<lambda>q. q\<lparr> used_ring := hi (used_ring q) v \<rparr>) t)
      else Some (h, t))"

definition mmio_write :: "('m, 'e) guest_mem \<Rightarrow> ('h, 'd) device_ops \<Rightarrow> 'm \<Rightarrow> u64 \<Rightarrow> bytes \<Rightarrow>
    'h \<times> 'd MmioTransport \<Rightarrow> ('h \<times> 'd MmioTransport) option" where
  "mmio_write G D m offset data st =
     (let (h, t) = st in
      if offset \<le> 0xff \<and> length data = 4 then write_register G D m offset (of_nat (le_nat data)) (h, t)
      else if 0x100 \<le> offset \<and> offset \<le> 0xfff then
        Some (h, if check_device_status DRIVER FAILED t
                 then t\<lparr> mt_device := dop_write_config D (mt_device t) (offset - 0x100) data \<rparr> else t)
      else Some (h, t))"

section \<open>The state machine\<close>

lemma status_bits:
  fixes s :: u32
  shows "s AND FAILED = 0 \<longleftrightarrow> \<not> bit s 7" "s AND DRIVER_OK = 0 \<longleftrightarrow> \<not> bit s 2"
  using and_exp_eq_0_iff_not_bit [of s 7] and_exp_eq_0_iff_not_bit [of s 2] by (simp_all add: device_status_defs)

lemma check_queue_update:
  "check_device_status FEATURES_OK (DRIVER_OK OR FAILED) t \<Longrightarrow>
   \<not> bit (mt_device_status t) 2 \<and> \<not> bit (mt_device_status t) 7"
proof -
  assume "check_device_status FEATURES_OK (DRIVER_OK OR FAILED) t"
  then have e: "mt_device_status t AND 0x8C = 8" by (simp add: check_device_status_def device_status_defs)
  have "bit (mt_device_status t AND 0x8C) n = bit (8 :: u32) n" for n by (simp only: e)
  from this [of 2] this [of 7] show ?thesis by (simp add: bit_simps)
qed

text \<open>What a write of the driver to the status register does.\<close>

lemma set_device_status_cases [consumes 1, case_names step ready activated failed reset noreset ignored]:
  assumes "set_device_status G D m s (h, t) = Some (h', t')"
  obtains (step) "mt_device_status t \<in> {0, 1, 3}" "h' = h" "t' = t\<lparr> mt_device_status := s \<rparr>"
  | (ready) "mt_device_status t = 11" "bit s 2" "h' = h" "t' = t\<lparr> mt_device_status := s \<rparr>"
  | (activated) d where "mt_device_status t = 11" "bit s 2" "\<not> vd_activated (mt_device t)"
      "all_valid G m (vd_queues (mt_device t)) = Some True"
      "dop_activate D h (mt_device t) = (Inr (), h', d)" "t' = t\<lparr> mt_device_status := s, mt_device := d \<rparr>"
  | (failed) "bit s 7" "h' = h" "t' = t\<lparr> mt_device_status := mt_device_status t OR FAILED \<rparr>"
  | (reset) d where "s = 0" "h' = h" "\<not> bit (mt_device_status t) 7"
      "if vd_activated (mt_device t) then dop_reset D (mt_device t) = (True, d) else d = mt_device t"
      "t' = mmio_reset (t\<lparr> mt_device := d \<rparr>)"
  | (noreset) ok d where "s = 0" "h' = h"
      "if vd_activated (mt_device t) then dop_reset D (mt_device t) = (ok, d) \<and> (bit (mt_device_status t) 7 \<or> \<not> ok)
       else d = mt_device t \<and> ok \<and> bit (mt_device_status t) 7"
      "t' = t\<lparr> mt_device := d, mt_device_status := (if ok then mt_device_status t else mt_device_status t OR FAILED) \<rparr>"
  | (ignored) "h' = h" "t' = t"
proof -
  let ?old = "mt_device_status t"
  let ?ch = "NOT ?old AND s"
  have b: "bit s 2" if "?ch = DRIVER_OK"
    using arg_cong [OF that, of "\<lambda>w. bit w 2"] by (simp add: bit_simps DRIVER_OK_def)
  consider (a) "?ch = ACKNOWLEDGE \<and> ?old = INIT \<or> ?ch = DRIVER \<and> ?old = ACKNOWLEDGE \<or> ?ch = FEATURES_OK \<and> ?old = ACKNOWLEDGE OR DRIVER"
    | (b) "\<not> (?ch = ACKNOWLEDGE \<and> ?old = INIT \<or> ?ch = DRIVER \<and> ?old = ACKNOWLEDGE \<or> ?ch = FEATURES_OK \<and> ?old = ACKNOWLEDGE OR DRIVER)"
      "?ch = DRIVER_OK \<and> ?old = ACKNOWLEDGE OR DRIVER OR FEATURES_OK"
    | (c) "\<not> (?ch = ACKNOWLEDGE \<and> ?old = INIT \<or> ?ch = DRIVER \<and> ?old = ACKNOWLEDGE \<or> ?ch = FEATURES_OK \<and> ?old = ACKNOWLEDGE OR DRIVER)"
      "\<not> (?ch = DRIVER_OK \<and> ?old = ACKNOWLEDGE OR DRIVER OR FEATURES_OK)" by blast
  then show ?thesis
  proof cases
    case a
    then have "Some (h', t') = Some (h, t\<lparr> mt_device_status := s \<rparr>)" "?old \<in> {0, 1, 3}"
      using assms by (auto simp: set_device_status_def Let_def device_status_defs)
    then show ?thesis using step by simp
  next
    case b
    then have r: "activate_device G D m h (t\<lparr> mt_device_status := s \<rparr>) = Some (h', t')" "?old = 11" "bit s 2"
      using assms b(2) \<open>?ch = DRIVER_OK \<Longrightarrow> bit s 2\<close> by (simp_all add: set_device_status_def Let_def device_status_defs)
    show ?thesis
      using r(1) ready [OF r(2,3)] activated [OF r(2,3)]
      by (auto simp: activate_device_def are_queues_valid_def elim!: bindE
          split: if_split_asm prod.split_asm sum.split_asm)
  next
    case c
    then have r: "(if s AND FAILED \<noteq> 0 then Some (h, t\<lparr> mt_device_status := ?old OR FAILED \<rparr>)
         else if s = 0 then
           (let t1 = (if vd_activated (mt_device t)
                      then (let (ok, d1) = dop_reset D (mt_device t)
                            in t\<lparr> mt_device := d1, mt_device_status := (if ok then ?old else ?old OR FAILED) \<rparr>)
                      else t)
            in Some (h, if mt_device_status t1 AND FAILED = 0 then mmio_reset t1 else t1))
         else Some (h, t)) = Some (h', t')"
      using assms by (auto simp: set_device_status_def Let_def)
    obtain ok d where rs: "dop_reset D (mt_device t) = (ok, d)" by fastforce
    have f: "bit (?old OR FAILED) 7" by (simp add: bit_simps FAILED_def)
    consider "bit s 7" | "\<not> bit s 7" "s \<noteq> 0" | "s = 0" "vd_activated (mt_device t)" | "s = 0" "\<not> vd_activated (mt_device t)"
      by blast
    then show ?thesis
    proof cases
      case 1
      then show ?thesis using r failed by (simp add: status_bits)
    next
      case 2
      then show ?thesis using r ignored by (simp add: status_bits)
    next
      case 3
      show ?thesis
      proof (cases "ok \<and> \<not> bit ?old 7")
        case True
        then have "t' = mmio_reset (t\<lparr> mt_device := d \<rparr>)" "h' = h"
          using r 3 rs by (simp_all add: status_bits mmio_reset_def)
        then show ?thesis using reset [of d] 3 rs True by simp
      next
        case False
        then have "t' = t\<lparr> mt_device := d, mt_device_status := (if ok then ?old else ?old OR FAILED) \<rparr>" "h' = h"
          using r 3 rs f by (auto simp: status_bits Let_def split: if_split_asm)
        then show ?thesis using noreset [of ok d] 3 rs False by auto
      qed
    next
      case 4
      show ?thesis
      proof (cases "bit ?old 7")
        case True
        then show ?thesis using noreset [of True "mt_device t"] r 4 by (simp add: status_bits)
      next
        case False
        then show ?thesis using reset [of "mt_device t"] r 4 by (simp add: status_bits)
      qed
    qed
  qed
qed

text \<open>What any write of the driver does.\<close>

lemma update_queue_field_cases:
  obtains (none) "update_queue_field f t = t"
  | (field) i where "i < length (vd_queues (mt_device t))" "\<not> bit (mt_device_status t) 2" "\<not> bit (mt_device_status t) 7"
    "update_queue_field f t = t\<lparr> mt_device := (mt_device t)\<lparr> vd_queues :=
       (vd_queues (mt_device t))[i := f (vd_queues (mt_device t) ! i)] \<rparr> \<rparr>"
  using check_queue_update [of t]
  by (cases "check_device_status FEATURES_OK (DRIVER_OK OR FAILED) t";
      cases "unat (mt_queue_select t) < length (vd_queues (mt_device t))")
    (auto simp: update_queue_field_def with_queue_mut_def idx_def Let_def)

lemma mmio_write_cases [consumes 2, case_names same ack field status]:
  fixes t :: "'d MmioTransport"
  assumes "virtio_device_ops D" "mmio_write G D m offset data (h, t) = r"
  obtains (same) t' where "r = Some (h, t')" "mt_device_status t' = mt_device_status t"
      "same_setup (mt_device t) (mt_device t')" "vd_activated (mt_device t') = vd_activated (mt_device t)"
  | (ack) p v where "r = Some (h, t\<lparr> mt_device := ack_features_by_page p v (mt_device t) \<rparr>)"
  | (field) i f where "i < length (vd_queues (mt_device t))" "\<not> bit (mt_device_status t) 2" "\<not> bit (mt_device_status t) 7"
      "\<And>q. max_size (f q) = max_size q"
      "r = Some (h, t\<lparr> mt_device := (mt_device t)\<lparr> vd_queues :=
         (vd_queues (mt_device t))[i := f (vd_queues (mt_device t) ! i)] \<rparr> \<rparr>)"
  | (status) v where "offset = 0x70" "r = set_device_status G D m v (h, t)"
proof -
  have no: thesis if "r = Some (h, t)" using same [OF that] by (simp add: same_setup_def)
  have field': thesis if "r = Some (h, update_queue_field f t)" "\<And>q. max_size (f q) = max_size q" for f
    by (rule update_queue_field_cases [of f t]) (use that no field [of _ f] in auto)
  let ?v = "of_nat (le_nat data) :: u32"
  consider (reg) "offset \<le> 0xff \<and> length data = 4" | (cfg) "\<not> (offset \<le> 0xff \<and> length data = 4)" by blast
  then show ?thesis
  proof cases
    case cfg
    then show ?thesis
      using no same [of "t\<lparr> mt_device := dop_write_config D (mt_device t) (offset - 0x100) data \<rparr>"] assms(2)
        virtio_device_ops.write_config_frame [OF assms(1), of "mt_device t" "offset - 0x100" data]
      by (auto simp: mmio_write_def split: if_split_asm)
  next
    case reg
    then have r: "r = write_register G D m offset ?v (h, t)" using assms(2) by (simp add: mmio_write_def)
    consider "offset \<in> {0x38, 0x44, 0x80, 0x84, 0x90, 0x94, 0xa0, 0xa4}" | "offset \<in> {0x14, 0x24, 0x30, 0x64}"
      | "offset = 0x20" | "offset = 0x70" | "offset \<notin> {0x38, 0x44, 0x80, 0x84, 0x90, 0x94, 0xa0, 0xa4, 0x14, 0x24, 0x30, 0x64, 0x20, 0x70}"
      by blast
    then show ?thesis
    proof cases
      case 1
      then show ?thesis using r
        by (auto simp: write_register_def intro: field')
    next
      case 2
      then have "\<exists>t'. r = Some (h, t') \<and> mt_device_status t' = mt_device_status t \<and>
          same_setup (mt_device t) (mt_device t') \<and> vd_activated (mt_device t') = vd_activated (mt_device t)"
        using r by (auto simp: write_register_def same_setup_def)
      then show ?thesis using same by blast
    next
      case 3
      then show ?thesis using r ack no by (auto simp: write_register_def split: if_split_asm)
    next
      case 4
      then show ?thesis using r status by (simp add: write_register_def)
    next
      case 5
      then show ?thesis using r no by (simp add: write_register_def)
    qed
  qed
qed

section \<open>Invariant\<close>

definition mmio_ok :: "(nat \<Rightarrow> bool) \<Rightarrow> u16 list \<Rightarrow> 'd MmioTransport \<Rightarrow> bool" where
  "mmio_ok rng sizes t \<longleftrightarrow>
     (vd_activated (mt_device t) \<longrightarrow> bit (mt_device_status t) 2 \<and>
        (\<forall>q\<in>set (vd_queues (mt_device t)). queue_mapped rng q \<and> pow2 (q_size q))) \<and>
     vd_acked_features (mt_device t) AND NOT (vd_avail_features (mt_device t)) = 0 \<and>
     map max_size (vd_queues (mt_device t)) = sizes"

lemma all_valid_mapped:
  assumes "guest_memory G in_rng byte" "contiguous (in_rng m)" "list_all (\<lambda>q. max_size q \<le> 8191) qs"
  shows "all_valid G m qs \<noteq> None"
    "all_valid G m qs = Some True \<Longrightarrow> \<forall>q\<in>set qs. queue_mapped (in_rng m) q \<and> pow2 (q_size q)"
proof -
  have "all_valid G m qs \<noteq> None \<and>
    (all_valid G m qs = Some True \<longrightarrow> (\<forall>q\<in>set qs. queue_mapped (in_rng m) q \<and> pow2 (q_size q)))"
    using assms(3)
  proof (induction qs)
    case (Cons q qs)
    obtain v where v: "queue_is_valid G q m = Some v"
      using guest_memory.queue_is_valid_returns [OF assms(1,2), of q] Cons.prems by auto
    show ?case
      using Cons v guest_memory.valid_mapped [OF assms(1,2), of q] by (cases v) auto
  qed simp
  then show "all_valid G m qs \<noteq> None"
    "all_valid G m qs = Some True \<Longrightarrow> \<forall>q\<in>set qs. queue_mapped (in_rng m) q \<and> pow2 (q_size q)" by blast+
qed

text \<open>What holds of queues holds of queues with the same rings.\<close>

lemma same_rings_queues:
  assumes "list_all2 same_rings qs qs'"
  shows "map max_size qs' = map max_size qs"
    "\<forall>q\<in>set qs. queue_mapped rng q \<and> pow2 (q_size q) \<Longrightarrow> \<forall>q\<in>set qs'. queue_mapped rng q \<and> pow2 (q_size q)"
proof -
  have "map max_size qs' = map max_size qs \<and>
    ((\<forall>q\<in>set qs. queue_mapped rng q \<and> pow2 (q_size q)) \<longrightarrow> (\<forall>q\<in>set qs'. queue_mapped rng q \<and> pow2 (q_size q)))"
    using assms
  proof induction
    case (Cons q qs q' qs')
    then have "queue_mapped rng q' = queue_mapped rng q" "q_size q' = q_size q" "max_size q' = max_size q"
      using same_rings_mapped [of q q' rng] by (auto simp: same_rings_def)
    then show ?case using Cons.IH by simp
  qed simp
  then show "map max_size qs' = map max_size qs"
    "\<forall>q\<in>set qs. queue_mapped rng q \<and> pow2 (q_size q) \<Longrightarrow> \<forall>q\<in>set qs'. queue_mapped rng q \<and> pow2 (q_size q)"
    by blast+
qed

lemma activated_setup_rings: "activated_setup d d' \<Longrightarrow> list_all2 same_rings (vd_queues d) (vd_queues d')"
  unfolding activated_setup_def by (auto simp: same_rings_def elim!: list_all2_mono)

lemma mmio_ok_device:
  assumes "mmio_ok rng sizes t" "same_setup (mt_device t) d" "vd_activated d = vd_activated (mt_device t)"
  shows "mmio_ok rng sizes (t\<lparr> mt_device := d \<rparr>)"
  using assms by (simp add: mmio_ok_def same_setup_def)

lemma set_device_status_ok:
  assumes gm: "guest_memory G in_rng byte" and dv: "virtio_device_ops D" and rng: "contiguous (in_rng m)" "list_all (\<lambda>n. n \<le> 8191) sizes"
    and ok: "mmio_ok (in_rng m) sizes t" and r: "set_device_status G D m s (h, t) = Some (h', t')"
  shows "mmio_ok (in_rng m) sizes t'"
  using r
proof (cases rule: set_device_status_cases)
  case step
  then have "\<not> bit (mt_device_status t) 2" by (auto simp: bit_simps)
  then show ?thesis using ok step by (auto simp: mmio_ok_def)
next
  case ready
  then show ?thesis using ok by (auto simp: mmio_ok_def)
next
  case (activated d)
  have sz: "list_all (\<lambda>q. max_size q \<le> 8191) (vd_queues (mt_device t))"
    using rng(2) ok by (auto simp: mmio_ok_def list_all_iff)
  show ?thesis
  proof -
    have a: "activated_setup (mt_device t) d" by (rule virtio_device_ops.activate_ok [OF dv activated(5)])
    note r = activated_setup_rings [OF a]
    note q = same_rings_queues(1) [OF r] same_rings_queues(2) [OF r, of "in_rng m"]
    show ?thesis using activated ok q all_valid_mapped(2) [OF gm rng(1) sz] a
      by (auto simp: mmio_ok_def activated_setup_def)
  qed
next
  case failed
  then show ?thesis using ok by (auto simp: mmio_ok_def bit_simps)
next
  case (reset d)
  have "same_setup (mt_device t) d \<and> \<not> vd_activated d"
    using reset(4) virtio_device_ops.reset_frame [OF dv, of "mt_device t" True d]
    by (auto simp: same_setup_def split: if_split_asm)
  then show ?thesis using ok reset(5)
    by (auto simp: mmio_ok_def mmio_reset_def same_setup_def comp_def Queue_new_def)
next
  case (noreset rs d)
  have d: "same_setup (mt_device t) d \<and> (vd_activated d \<longrightarrow> vd_activated (mt_device t))"
    using noreset(3) virtio_device_ops.reset_frame [OF dv, of "mt_device t" rs d]
    by (cases rs) (auto simp: same_setup_def split: if_split_asm)
  then show ?thesis using ok noreset(4) by (auto simp: mmio_ok_def same_setup_def bit_simps)
next
  case ignored
  then show ?thesis using ok by simp
qed

lemma mmio_write_ok:
  assumes gm: "guest_memory G in_rng byte" and dv: "virtio_device_ops D" and rng: "contiguous (in_rng m)" "list_all (\<lambda>n. n \<le> 8191) sizes"
    and ok: "mmio_ok (in_rng m) sizes t" and r: "mmio_write G D m offset data (h, t) = Some (h', t')"
  shows "mmio_ok (in_rng m) sizes t'"
  using dv r
proof (cases rule: mmio_write_cases)
  case (same t1)
  then show ?thesis using ok by (simp add: mmio_ok_def same_setup_def)
next
  case (ack p v)
  then show ?thesis using ok ack_features_subset [of "mt_device t" p v] by (simp add: mmio_ok_def)
next
  case (field i f)
  then have "\<not> vd_activated (mt_device t)" using ok by (auto simp: mmio_ok_def)
  moreover have "map max_size ((vd_queues (mt_device t))[i := f (vd_queues (mt_device t) ! i)]) = map max_size (vd_queues (mt_device t))"
    using field(1,4) by (simp add: map_update) (metis list_update_id nth_map)
  ultimately show ?thesis using ok field(5) by (simp add: mmio_ok_def)
next
  case (status v)
  then show ?thesis using set_device_status_ok [OF gm dv rng ok, of v h h' t'] by simp
qed

text \<open>
  The transports that a driver and a device can reach: the driver writes registers while the
  memory may have changed but not moved, and the device works on its queues.
\<close>

inductive mmio_reach :: "('m, 'e) guest_mem \<Rightarrow> ('m \<Rightarrow> nat \<Rightarrow> bool) \<Rightarrow> ('h, 'd) device_ops \<Rightarrow> (nat \<Rightarrow> bool) \<Rightarrow>
    u16 list \<Rightarrow> 'd MmioTransport \<Rightarrow> bool" for G in_rng D rng sizes where
  create: "\<not> vd_activated d \<Longrightarrow> vd_acked_features d = 0 \<Longrightarrow> vd_queues d = map Queue_new sizes \<Longrightarrow>
    mmio_reach G in_rng D rng sizes (MmioTransport_new d)"
| driver: "mmio_reach G in_rng D rng sizes t \<Longrightarrow> in_rng m = rng \<Longrightarrow>
    mmio_write G D m offset data (h, t) = Some (h', t') \<Longrightarrow> mmio_reach G in_rng D rng sizes t'"
| device: "mmio_reach G in_rng D rng sizes t \<Longrightarrow> list_all2 same_rings (vd_queues (mt_device t)) (vd_queues d) \<Longrightarrow>
    vd_avail_features d = vd_avail_features (mt_device t) \<Longrightarrow> vd_acked_features d = vd_acked_features (mt_device t) \<Longrightarrow>
    vd_activated d = vd_activated (mt_device t) \<Longrightarrow> mmio_reach G in_rng D rng sizes (t\<lparr> mt_device := d \<rparr>)"

lemma mmio_reach_ok:
  assumes "guest_memory G in_rng byte" "virtio_device_ops D" "contiguous rng" "list_all (\<lambda>n. n \<le> 8191) sizes"
    and "mmio_reach G in_rng D rng sizes t"
  shows "mmio_ok rng sizes t"
  using assms(5)
proof induction
  case (create d)
  then show ?case by (simp add: mmio_ok_def MmioTransport_new_def Queue_new_def comp_def)
next
  case (driver t m offset data h h' t')
  then show ?case using mmio_write_ok [OF assms(1,2) _ assms(4), of m t offset data h h' t'] assms(3) by simp
next
  case (device t d)
  note q = same_rings_queues(1) [OF device(2)] same_rings_queues(2) [OF device(2), of rng]
  have f: "mt_device (t\<lparr> mt_device := d \<rparr>) = d" "mt_device_status (t\<lparr> mt_device := d \<rparr>) = mt_device_status t" by simp_all
  show ?case unfolding mmio_ok_def f device(3-5) q(1) using device.IH q(2) unfolding mmio_ok_def by blast
qed

section \<open>Properties\<close>

lemma mmio_write_frozen:
  assumes dv: "virtio_device_ops D" and ok: "mmio_ok rng sizes t" and r: "mmio_write G D m offset data (h, t) = Some (h', t')"
    and act: "vd_activated (mt_device t)" "\<not> fst (dop_reset D (mt_device t))"
  shows "vd_activated (mt_device t') \<and> vd_queues (mt_device t') = vd_queues (mt_device t)"
proof -
  have b: "bit (mt_device_status t) 2" using ok act(1) by (simp add: mmio_ok_def)
  show ?thesis using dv r
  proof (cases rule: mmio_write_cases)
    case (status v)
    from status(2) [symmetric] show ?thesis
    proof (cases rule: set_device_status_cases)
      case (noreset rs d)
      then show ?thesis using act virtio_device_ops.reset_frame [OF dv, of "mt_device t" rs d] by auto
    qed (use act b in \<open>auto simp: bit_simps\<close>)
  qed (use act b in \<open>auto simp: same_setup_def\<close>)
qed

lemma mmio_write_activates:
  assumes dv: "virtio_device_ops D" and r: "mmio_write G D m offset data (h, t) = Some (h', t')"
    and act: "\<not> vd_activated (mt_device t)" "vd_activated (mt_device t')"
  shows "offset = 0x70 \<and> mt_device_status t = ACKNOWLEDGE OR DRIVER OR FEATURES_OK \<and>
    all_valid G m (vd_queues (mt_device t)) = Some True"
  using dv r
proof (cases rule: mmio_write_cases)
  case (status v)
  from status(2) [symmetric] show ?thesis
    by (cases rule: set_device_status_cases)
      (use status(1) act in \<open>auto simp: device_status_defs mmio_reset_def split: if_split_asm\<close>)
qed (use act in auto)

lemma mmio_write_failed:
  assumes dv: "virtio_device_ops D" and r: "mmio_write G D m offset data (h, t) = Some (h', t')"
    and f: "bit (mt_device_status t) 7"
  shows "mt_device_status t' = mt_device_status t \<and> vd_queues (mt_device t') = vd_queues (mt_device t)"
proof -
  have n: "mt_device_status t \<notin> {0, 1, 3, 11}" using f by (auto simp: bit_simps)
  have o: "mt_device_status t OR FAILED = mt_device_status t"
  proof -
    have F: "FAILED = 2 ^ 7" by (simp add: FAILED_def)
    show ?thesis unfolding F by (rule bit_word_eqI) (use f in \<open>auto simp only: bit_or_iff bit_exp_iff\<close>)
  qed
  show ?thesis using dv r
  proof (cases rule: mmio_write_cases)
    case (status v)
    from status(2) [symmetric] show ?thesis
    proof (cases rule: set_device_status_cases)
      case (noreset rs d)
      then have "vd_queues d = vd_queues (mt_device t)"
        using virtio_device_ops.reset_frame [OF dv, of "mt_device t" rs d] by (auto simp: same_setup_def split: if_split_asm)
      then show ?thesis using noreset o by simp
    qed (use n o f in auto)
  qed (use f in \<open>auto simp: same_setup_def\<close>)
qed

lemma mmio_write_None:
  assumes gm: "guest_memory G in_rng byte" and dv: "virtio_device_ops D" and rng: "contiguous (in_rng m)" "list_all (\<lambda>n. n \<le> 8191) sizes"
    and ok: "mmio_ok (in_rng m) sizes t" and r: "mmio_write G D m offset data (h, t) = None"
  shows "isl (fst (dop_activate D h (mt_device t)))"
  using dv r
proof (cases rule: mmio_write_cases)
  case (status v)
  have sz: "list_all (\<lambda>q. max_size q \<le> 8191) (vd_queues (mt_device t))"
    using rng(2) ok by (auto simp: mmio_ok_def list_all_iff)
  have "activate_device G D m h (t\<lparr> mt_device_status := v \<rparr>) = None"
    using status(2) by (auto simp: set_device_status_def Let_def split: if_split_asm)
  then show ?thesis
    using all_valid_mapped(1) [OF gm rng(1) sz]
    by (auto simp: activate_device_def are_queues_valid_def split: if_split_asm prod.split_asm sum.split_asm)
qed auto

text \<open>
  C35. Safety of the transport, for guest memory without holes (the bounds check of \<^verbatim>\<open>Queue::is_valid\<close> looks at the end
  of a ring only) and queues of maximal size 8191 at most, and a device whose own operations leave the rings
  and features alone. Whatever a driver writes and a device does:
  an activated device has DRIVER_OK set and every queue of it lies in guest memory, with a
  size that is a power of two; acknowledged features were offered; the queues keep their maximal
  sizes. A write activates a device only at the end of the initialization sequence and with all
  queues valid, and it panics only if the activation fails. While a device without reset is
  active, no write moves or resizes its queues or deactivates it. FAILED is final: no write
  changes the status or the queues any more.
\<close>

theorem mmio_transport_safe:
  assumes "guest_memory G in_rng byte" "virtio_device_ops D" "contiguous rng" "list_all (\<lambda>n. n \<le> 8191) sizes"
    and "mmio_reach G in_rng D rng sizes t" "in_rng m = rng"
  shows "(vd_activated (mt_device t) \<longrightarrow> mt_device_status t AND DRIVER_OK \<noteq> 0 \<and>
      (\<forall>q\<in>set (vd_queues (mt_device t)). queue_mapped rng q \<and> pow2 (q_size q))) \<and>
    vd_acked_features (mt_device t) AND NOT (vd_avail_features (mt_device t)) = 0 \<and>
    map max_size (vd_queues (mt_device t)) = sizes \<and>
    (case mmio_write G D m offset data (h, t) of
       None \<Rightarrow> isl (fst (dop_activate D h (mt_device t)))
     | Some (h', t') \<Rightarrow>
         (\<not> vd_activated (mt_device t) \<and> vd_activated (mt_device t') \<longrightarrow>
            offset = 0x70 \<and> mt_device_status t = ACKNOWLEDGE OR DRIVER OR FEATURES_OK \<and> are_queues_valid G m t = Some True) \<and>
         (vd_activated (mt_device t) \<and> \<not> fst (dop_reset D (mt_device t)) \<longrightarrow>
            vd_activated (mt_device t') \<and> vd_queues (mt_device t') = vd_queues (mt_device t)) \<and>
         (mt_device_status t AND FAILED \<noteq> 0 \<longrightarrow>
            mt_device_status t' = mt_device_status t \<and> vd_queues (mt_device t') = vd_queues (mt_device t)))"
proof -
  have ok: "mmio_ok rng sizes t" by (rule mmio_reach_ok [OF assms(1-5)])
  note w = mmio_write_None [OF assms(1,2) _ assms(4), of m t offset data h, unfolded assms(6), OF assms(3) ok]
  show ?thesis
  proof (cases "mmio_write G D m offset data (h, t)")
    case None
    then show ?thesis using ok w by (simp add: mmio_ok_def status_bits)
  next
    case (Some st)
    obtain h' t' where s: "st = (h', t')" by fastforce
    note r = Some [unfolded s]
    show ?thesis
      using ok r mmio_write_activates [OF assms(2) r] mmio_write_frozen [OF assms(2) ok r] mmio_write_failed [OF assms(2) r]
      by (simp add: mmio_ok_def status_bits are_queues_valid_def)
  qed
qed

text \<open>The transport of a new vsock device, and its driver at the beginning.\<close>

definition vs_new_dev :: "ref_stream Vsock" where
  "vs_new_dev = vs_dev\<lparr> vd_activated := False, vd_queues := map Queue_new [256, 256, 256] \<rparr>"

theorem mmio_transport_safe_witness:
  "(\<exists>h' t'. mmio_write vs_gm (vsock_ops ref_ev) ex_mem 0x70 [1, 0, 0, 0] (0, MmioTransport_new vs_new_dev) = Some (h', t')) \<and>
   map max_size (vd_queues (mt_device (MmioTransport_new vs_new_dev))) = [256, 256, 256]"
proof -
  have "mmio_reach vs_gm ref_in (vsock_ops ref_ev) (ref_in ex_mem) [256, 256, 256] (MmioTransport_new vs_new_dev)"
    by (rule mmio_reach.create) (simp_all add: vs_new_dev_def vs_dev_def)
  note w = mmio_transport_safe [OF refr.guest_memory_axioms vsd.virtio_device_ops_axioms ex_mem_contiguous _ this refl,
      where offset = "0x70" and data = "[1, 0, 0, 0]" and h = 0]
  have "\<not> isl (fst (dop_activate (vsock_ops ref_ev) 0 (mt_device (MmioTransport_new vs_new_dev))))"
    by (simp add: vsock_ops_def vsock_activate_def MmioTransport_new_def vs_new_dev_def NUM_QUEUES_def ref_ev_def)
  then show ?thesis using w by (auto split: option.split_asm)
qed

text \<open>
  The driver may clear bits when it sets DRIVER_OK. Then features can still be acknowledged on the
  active device.
\<close>

lemma late_feature_ack:
  assumes "mt_device_status t = 11" "set_device_status G D m 6 (h, t) = Some (h', t')"
  shows "check_device_status DRIVER (FEATURES_OK OR FAILED) t'"
  using assms
  by (auto simp: set_device_status_def activate_device_def check_device_status_def device_status_defs
      elim!: bindE split: if_split_asm prod.split_asm sum.split_asm)

end
