(* ===== verification/Bus.thy ===== *)
theory Bus
  imports Prelude
begin

text \<open>
  The routing of guest accesses to devices, \<open>src/firecracker/src/devices/src/bus.rs\<close>. A
  \<^verbatim>\<open>BTreeMap\<close> is a list of entries in the order of its keys; \<^verbatim>\<open>Ord\<close> and \<^verbatim>\<open>Eq\<close> of a
  \<^verbatim>\<open>BusRange\<close> look at its base only. The devices are shared, so the bus holds references into a
  store of devices.
\<close>

section \<open>The bus\<close>

datatype BusError = Overlap

record BusRange =
  br_base :: u64
  br_len :: u64

record Bus =
  devices :: "(BusRange \<times> nat) list"

definition Bus_new :: Bus where
  "Bus_new = \<lparr> devices = [] \<rparr>"

text \<open>\<^verbatim>\<open>BTreeMap::insert\<close>: an entry with an equal key keeps its key and gets the new value.\<close>

fun btree_insert :: "BusRange \<Rightarrow> 'd \<Rightarrow> (BusRange \<times> 'd) list \<Rightarrow> 'd option \<times> (BusRange \<times> 'd) list" where
  "btree_insert r d [] = (None, [(r, d)])"
| "btree_insert r d ((r', d') # es) =
     (if br_base r < br_base r' then (None, (r, d) # (r', d') # es)
      else if br_base r = br_base r' then (Some d', (r', d) # es)
      else (let (old, es') = btree_insert r d es in (old, (r', d') # es')))"

definition first_before :: "Bus \<Rightarrow> u64 \<Rightarrow> (BusRange \<times> nat) option" where
  "first_before b addr = List.find (\<lambda>(rg, dev). br_base rg \<le> addr) (rev (devices b))"

definition get_device :: "Bus \<Rightarrow> u64 \<Rightarrow> (u64 \<times> nat) option" where
  "get_device b addr = (case first_before b addr of
     None \<Rightarrow> None
   | Some (rg, dev) \<Rightarrow>
       (let offset = addr - br_base rg in if offset < br_len rg then Some (offset, dev) else None))"

text \<open>\<^verbatim>\<open>base + len - 1\<close> panics when the sum overflows.\<close>

definition bus_insert :: "nat \<Rightarrow> u64 \<Rightarrow> u64 \<Rightarrow> Bus \<Rightarrow> ((BusError + unit) \<times> Bus) option" where
  "bus_insert dev base len b =
     (if len = 0 then Some (Inl Overlap, b)
      else if get_device b base \<noteq> None then Some (Inl Overlap, b)
      else do {
        e \<leftarrow> add_c base len;
        a \<leftarrow> sub_c e 1;
        if (case first_before b a of None \<Rightarrow> False | Some (rg, _) \<Rightarrow> br_base rg \<ge> base)
        then Some (Inl Overlap, b)
        else (let (old, ds) = btree_insert \<lparr> br_base = base, br_len = len \<rparr> dev (devices b);
                  b' = \<lparr> devices = ds \<rparr>
              in Some (if old \<noteq> None then Inl Overlap else Inr (), b'))
      })"

text \<open>\<^verbatim>\<open>BusDevice\<close>: a read fills the data, a write changes the device.\<close>

record 'd bus_device =
  bd_read :: "'d \<Rightarrow> u64 \<Rightarrow> bytes \<Rightarrow> bytes \<times> 'd"
  bd_write :: "'d \<Rightarrow> u64 \<Rightarrow> bytes \<Rightarrow> 'd"

definition bus_read :: "'d bus_device \<Rightarrow> (nat \<Rightarrow> 'd) \<Rightarrow> Bus \<Rightarrow> u64 \<Rightarrow> bytes \<Rightarrow> bool \<times> bytes \<times> (nat \<Rightarrow> 'd)" where
  "bus_read D st b addr data = (case get_device b addr of
     None \<Rightarrow> (False, data, st)
   | Some (offset, dev) \<Rightarrow> (let (data', d') = bd_read D (st dev) offset data in (True, data', st(dev := d'))))"

definition bus_write :: "'d bus_device \<Rightarrow> (nat \<Rightarrow> 'd) \<Rightarrow> Bus \<Rightarrow> u64 \<Rightarrow> bytes \<Rightarrow> bool \<times> (nat \<Rightarrow> 'd)" where
  "bus_write D st b addr data = (case get_device b addr of
     None \<Rightarrow> (False, st)
   | Some (offset, dev) \<Rightarrow> (True, st(dev := bd_write D (st dev) offset data)))"

section \<open>Ranges\<close>

text \<open>
  The address space that a bus implements: each entry owns the addresses of its range. In a
  well-formed bus the entries are ordered, not empty, within the address space, and each ends
  before the next begins.
\<close>

definition range_end :: "BusRange \<Rightarrow> nat" where
  "range_end r = unat (br_base r) + unat (br_len r)"

definition in_range :: "BusRange \<Rightarrow> u64 \<Rightarrow> bool" where
  "in_range r a \<longleftrightarrow> unat (br_base r) \<le> unat a \<and> unat a < range_end r"

definition range_ok :: "BusRange \<Rightarrow> bool" where
  "range_ok r \<longleftrightarrow> br_len r \<noteq> 0 \<and> range_end r < 2 ^ 64"

definition ranges_ok :: "(BusRange \<times> nat) list \<Rightarrow> bool" where
  "ranges_ok ds \<longleftrightarrow> list_all (range_ok \<circ> fst) ds \<and>
     sorted_wrt (\<lambda>r r'. range_end (fst r) \<le> unat (br_base (fst r'))) ds"

definition owner :: "Bus \<Rightarrow> u64 \<Rightarrow> (u64 \<times> nat) option" where
  "owner b a = map_option (\<lambda>(r, d). (a - br_base r, d)) (List.find (\<lambda>(r, d). in_range r a) (devices b))"

lemma range_ok_base: "range_ok r \<Longrightarrow> unat (br_base r) < range_end r"
  by (simp add: range_ok_def range_end_def unat_gt_0)

lemma offset_in_range:
  assumes "br_base r \<le> a"
  shows "a - br_base r < br_len r \<longleftrightarrow> in_range r a"
proof -
  have "unat (a - br_base r) = unat a - unat (br_base r)"
    using assms by (simp add: unat_sub word_le_nat_alt)
  then show ?thesis
    using assms by (auto simp: in_range_def range_end_def word_less_nat_alt word_le_nat_alt)
qed

lemma find_append: "List.find P (xs @ ys) = (case List.find P xs of None \<Rightarrow> List.find P ys | Some x \<Rightarrow> Some x)"
  by (induction xs) auto

text \<open>The search from the top finds the entry that owns an address.\<close>

lemma get_device_owner:
  assumes "ranges_ok (devices b)"
  shows "get_device b a = owner b a"
proof -
  have "(case List.find (\<lambda>(r, d). br_base r \<le> a) (rev ds) of None \<Rightarrow> None
      | Some (r, d) \<Rightarrow> if a - br_base r < br_len r then Some (a - br_base r, d) else None)
    = map_option (\<lambda>(r, d). (a - br_base r, d)) (List.find (\<lambda>(r, d). in_range r a) ds)"
    if "ranges_ok ds" for ds
    using that
  proof (induction ds rule: rev_induct)
    case (snoc x ds)
    obtain r d where x: "x = (r, d)" by fastforce
    have before: "unat a < unat (br_base r)" if "(r', d') \<in> set ds" "in_range r' a" for r' d'
      using snoc.prems that by (auto simp: ranges_ok_def sorted_wrt_append in_range_def x)
    have ih: "ranges_ok ds" using snoc.prems by (auto simp: ranges_ok_def sorted_wrt_append)
    show ?case
    proof (cases "br_base r \<le> a")
      case True
      then have none: "List.find (\<lambda>(r, d). in_range r a) ds = None"
        using before by (auto simp: find_None_iff word_le_nat_alt dest: leD)
      show ?thesis
        using True none offset_in_range [OF True] by (simp add: x find_append)
    next
      case False
      then have "\<not> in_range r a" by (simp add: in_range_def word_le_nat_alt)
      then show ?thesis using False snoc.IH [OF ih] by (simp add: x find_append split: option.split)
    qed
  qed simp
  from this [OF assms] show ?thesis unfolding get_device_def first_before_def owner_def Let_def .
qed

lemma ranges_ok_Cons:
  "ranges_ok (x # ds) \<longleftrightarrow> range_ok (fst x) \<and> ranges_ok ds \<and>
     (\<forall>y\<in>set ds. range_end (fst x) \<le> unat (br_base (fst y)))"
  by (auto simp: ranges_ok_def)

lemma ranges_ok_mem: "ranges_ok ds \<Longrightarrow> (r, d) \<in> set ds \<Longrightarrow> range_ok r"
  by (auto simp: ranges_ok_def list_all_iff)

lemma find_owner:
  assumes "ranges_ok ds"
  shows "List.find (\<lambda>(r, d). in_range r a) ds = Some (r, d) \<longleftrightarrow> (r, d) \<in> set ds \<and> in_range r a"
  using assms
proof (induction ds)
  case (Cons x ds)
  then show ?case
    by (cases x) (force simp: ranges_ok_Cons in_range_def)
qed simp

lemma find_no_owner: "List.find (\<lambda>(r, d). in_range r a) ds = None \<longleftrightarrow> (\<forall>(r, d) \<in> set ds. \<not> in_range r a)"
  by (auto simp: find_None_iff)

definition overlap :: "BusRange \<Rightarrow> BusRange \<Rightarrow> bool" where
  "overlap r r' \<longleftrightarrow> unat (br_base r) < range_end r' \<and> unat (br_base r') < range_end r"

lemma first_before_max:
  assumes "ranges_ok (devices b)"
  shows "(case first_before b a of None \<Rightarrow> False | Some (r, _) \<Rightarrow> br_base r \<ge> base) \<longleftrightarrow>
    (\<exists>(r, d) \<in> set (devices b). base \<le> br_base r \<and> br_base r \<le> a)"
proof -
  have "(case List.find (\<lambda>(r, d). br_base r \<le> a) (rev ds) of None \<Rightarrow> False | Some (r, _) \<Rightarrow> br_base r \<ge> base) \<longleftrightarrow>
    (\<exists>(r, d) \<in> set ds. base \<le> br_base r \<and> br_base r \<le> a)" if "ranges_ok ds" for ds
    using that
  proof (induction ds rule: rev_induct)
    case (snoc x ds)
    obtain r d where x: "x = (r, d)" by fastforce
    have lt: "unat (br_base r') < unat (br_base r)" if "(r', d') \<in> set ds" for r' d'
      using snoc.prems that range_ok_base [of r'] by (fastforce simp: ranges_ok_def sorted_wrt_append x list_all_iff)
    have ih: "ranges_ok ds" using snoc.prems by (auto simp: ranges_ok_def sorted_wrt_append)
    show ?case
      using snoc.IH [OF ih] lt by (auto simp: x word_le_nat_alt dest: less_imp_le intro: order_trans)
  qed simp
  from this [OF assms] show ?thesis unfolding first_before_def .
qed

lemma btree_insert_ok:
  assumes "ranges_ok ds" "range_ok r" "\<forall>(r', d') \<in> set ds. \<not> overlap r r'"
  shows "\<exists>ds'. btree_insert r d ds = (None, ds') \<and> ranges_ok ds' \<and> set ds' = insert (r, d) (set ds)"
  using assms
proof (induction ds)
  case Nil
  then show ?case by (simp add: ranges_ok_def)
next
  case (Cons x ds)
  obtain r' d' where x: "x = (r', d')" by fastforce
  have ok: "range_ok r'" "ranges_ok ds" and next_: "\<forall>y\<in>set ds. range_end r' \<le> unat (br_base (fst y))"
    using Cons.prems(1) by (auto simp: ranges_ok_Cons x)
  have no: "\<not> overlap r r'" using Cons.prems(3) by (simp add: x)
  consider "range_end r \<le> unat (br_base r')" "br_base r < br_base r'" | "range_end r' \<le> unat (br_base r)" "br_base r' < br_base r"
    using no range_ok_base [OF ok(1)] range_ok_base [OF Cons.prems(2)]
    by (fastforce simp: overlap_def word_less_nat_alt not_less)
  then show ?case
  proof cases
    case 1
    have "range_end r \<le> unat (br_base (fst y))" if "y \<in> set ds" for y
      using 1 next_ that range_ok_base [OF ok(1)] by fastforce
    then show ?thesis using 1 Cons.prems ok next_ by (simp add: x ranges_ok_Cons)
  next
    case 2
    obtain ds' where "btree_insert r d ds = (None, ds')" "ranges_ok ds'" "set ds' = insert (r, d) (set ds)"
      using Cons.IH ok(2) Cons.prems by auto
    then show ?thesis using 2 ok next_ by (auto simp: x ranges_ok_Cons)
  qed
qed

lemma no_overlap_iff:
  assumes "ranges_ok (devices b)" "len \<noteq> 0" "unat base + unat len < 2 ^ 64"
  defines "r \<equiv> \<lparr> br_base = base, br_len = len \<rparr>"
  shows "owner b base = None \<and> \<not> (\<exists>(r', d) \<in> set (devices b). base \<le> br_base r' \<and> br_base r' \<le> base + len - 1) \<longleftrightarrow>
    (\<forall>(r', d) \<in> set (devices b). \<not> overlap r r')"
proof -
  have n: "0 < unat len" using assms(2) by (simp add: unat_gt_0)
  have "unat (base + len) = unat base + unat len" using assms(3) by (simp add: unat_word_ariths)
  moreover have "base + len \<noteq> 0" using calculation n by (metis add_is_0 less_numeral_extra(3) unat_0)
  ultimately have u: "unat (base + len - 1) = unat base + unat len - 1" by (simp add: unat_minus_one)
  have "overlap r r' \<longleftrightarrow> in_range r' base \<or> base \<le> br_base r' \<and> br_base r' \<le> base + len - 1" if "range_ok r'" for r'
    using n range_ok_base [OF that] u
    by (auto simp: overlap_def in_range_def r_def range_end_def word_le_nat_alt)
  then show ?thesis
    using ranges_ok_mem [OF assms(1)] by (fastforce simp: owner_def find_no_owner)
qed

lemma bus_insert_cases:
  fixes base len :: u64
  assumes ok: "ranges_ok (devices b)"
  defines "r \<equiv> \<lparr> br_base = base, br_len = len \<rparr>"
  shows "if len = 0 \<or> owner b base \<noteq> None then bus_insert dev base len b = Some (Inl Overlap, b)
    else if 2 ^ 64 \<le> unat base + unat len then bus_insert dev base len b = None
    else if \<exists>(r', d) \<in> set (devices b). overlap r r' then bus_insert dev base len b = Some (Inl Overlap, b)
    else \<exists>b'. bus_insert dev base len b = Some (Inr (), b') \<and> ranges_ok (devices b') \<and>
      set (devices b') = insert (r, dev) (set (devices b))"
proof (cases "len = 0 \<or> owner b base \<noteq> None")
  case True
  then show ?thesis by (auto simp: bus_insert_def get_device_owner [OF ok])
next
  case False
  show ?thesis
  proof (cases "2 ^ 64 \<le> unat base + unat len")
    case True
    then show ?thesis using False by (simp add: bus_insert_def get_device_owner [OF ok] add_c_def)
  next
    case fits: False
    have l: "len \<noteq> 0" "unat base + unat len < 2 ^ 64" using False fits by auto
    have "unat (base + len) = unat base + unat len" using l by (simp add: unat_word_ariths)
    then have e: "add_c base len = Some (base + len)" "sub_c (base + len) 1 = Some (base + len - 1)"
      using l unat_gt_0 [of len] by (auto simp: add_c_def sub_c_def word_le_nat_alt)
    have i: "bus_insert dev base len b =
        (if \<exists>(r', d) \<in> set (devices b). base \<le> br_base r' \<and> br_base r' \<le> base + len - 1
         then Some (Inl Overlap, b)
         else (let (old, ds) = btree_insert r dev (devices b)
               in Some (if old \<noteq> None then Inl Overlap else Inr (), \<lparr> devices = ds \<rparr>)))"
      using False e by (simp add: bus_insert_def get_device_owner [OF ok] first_before_max [OF ok] r_def)
    note n = no_overlap_iff [OF ok l, folded r_def]
    show ?thesis
    proof (cases "\<exists>(r', d) \<in> set (devices b). overlap r r'")
      case True
      then have "\<exists>(r', d) \<in> set (devices b). base \<le> br_base r' \<and> br_base r' \<le> base + len - 1"
        using n False by fastforce
      then show ?thesis using False fits True i by auto
    next
      case none: False
      have "range_ok r" using l by (simp add: r_def range_ok_def range_end_def)
      then obtain ds' where d: "btree_insert r dev (devices b) = (None, ds')" "ranges_ok ds'"
          "set ds' = insert (r, dev) (set (devices b))"
        using btree_insert_ok [OF ok, of r dev] none by fastforce
      have "\<not> (\<exists>(r', d) \<in> set (devices b). base \<le> br_base r' \<and> br_base r' \<le> base + len - 1)"
        using n none by blast
      then show ?thesis using False fits none i d by auto
    qed
  qed
qed

lemma get_device_Some:
  assumes "ranges_ok (devices b)"
  shows "get_device b a = Some (off, d) \<longleftrightarrow> (\<exists>r. (r, d) \<in> set (devices b) \<and> in_range r a \<and> off = a - br_base r)"
  using find_owner [OF assms] by (auto simp: get_device_owner [OF assms] owner_def)

lemma get_device_None:
  assumes "ranges_ok (devices b)"
  shows "get_device b a = None \<longleftrightarrow> (\<forall>(r, d) \<in> set (devices b). \<not> in_range r a)"
  by (auto simp: get_device_owner [OF assms] owner_def find_no_owner)

lemma get_device_inserted:
  assumes ok: "ranges_ok (devices b)" "ranges_ok (devices b')"
    and e: "set (devices b') = insert (r, dev) (set (devices b))"
  shows "get_device b' a = (if in_range r a then Some (a - br_base r, dev) else get_device b a)"
proof (cases "in_range r a")
  case True
  then show ?thesis using e by (auto simp: get_device_Some [OF ok(2)])
next
  case False
  show ?thesis
  proof (cases "get_device b a")
    case None
    then have "get_device b' a = None" using False e by (auto simp: get_device_None [OF ok(1)] get_device_None [OF ok(2)])
    then show ?thesis using None False by simp
  next
    case (Some x)
    obtain off d where x: "x = (off, d)" by fastforce
    then have "get_device b' a = Some (off, d)" using Some e by (auto simp: get_device_Some [OF ok(1)] get_device_Some [OF ok(2)])
    then show ?thesis using Some x False by simp
  qed
qed

section \<open>Properties\<close>

inductive bus_reach :: "Bus \<Rightarrow> bool" where
  create: "bus_reach Bus_new"
| insert: "bus_reach b \<Longrightarrow> bus_insert dev base len b = Some (r, b') \<Longrightarrow> bus_reach b'"

lemma bus_reach_ok: "bus_reach b \<Longrightarrow> ranges_ok (devices b)"
proof (induction rule: bus_reach.induct)
  case create
  then show ?case by (simp add: Bus_new_def ranges_ok_def)
next
  case (insert b dev base len r b')
  then show ?case
    using bus_insert_cases [OF insert.IH, of len base dev] by (auto split: if_split_asm)
qed

text \<open>
  C32. The bus implements an address space in which every address has at most one owner. In every
  bus that insertions build, an access reaches the device whose range has the address, with the
  offset into that range, and no device otherwise. An insertion succeeds exactly when the range
  is not empty and overlaps no other; it then gives the addresses of the range, and only those,
  to the new device. A refused insertion changes nothing. An insertion panics exactly when the
  base is free and the end of a range that is not empty does not fit 64 bits.
\<close>

theorem bus_routes_accesses:
  assumes "bus_reach b"
  shows "(get_device b a = Some (off, d) \<longleftrightarrow> (\<exists>r. (r, d) \<in> set (devices b) \<and> in_range r a \<and> off = a - br_base r)) \<and>
    (case bus_insert dev base len b of
       None \<Rightarrow> len \<noteq> 0 \<and> get_device b base = None \<and> 2 ^ 64 \<le> unat base + unat len
     | Some (res, b') \<Rightarrow>
         (len = 0 \<or> get_device b base \<noteq> None \<or> unat base + unat len < 2 ^ 64) \<and>
         (res = Inr () \<longleftrightarrow> len \<noteq> 0 \<and> (\<forall>(r, d) \<in> set (devices b). \<not> overlap \<lparr> br_base = base, br_len = len \<rparr> r)) \<and>
         get_device b' a = (if res = Inr () \<and> in_range \<lparr> br_base = base, br_len = len \<rparr> a
           then Some (a - base, dev) else get_device b a) \<and>
         (res = Inl Overlap \<longrightarrow> b' = b))"
proof -
  note ok = bus_reach_ok [OF assms]
  let ?r = "\<lparr> br_base = base, br_len = len \<rparr>"
  have "\<not> (\<forall>(r, d) \<in> set (devices b). \<not> overlap ?r r)" if o: "owner b base \<noteq> None" and n: "len \<noteq> 0"
  proof -
    obtain r d where "(r, d) \<in> set (devices b)" "in_range r base"
      using o get_device_None [OF ok, of base] by (auto simp: get_device_owner [OF ok])
    moreover have "overlap ?r r"
      using calculation(2) n unat_gt_0 [of len] by (auto simp: overlap_def in_range_def range_end_def)
    ultimately show ?thesis by blast
  qed
  then have "case bus_insert dev base len b of
       None \<Rightarrow> len \<noteq> 0 \<and> owner b base = None \<and> 2 ^ 64 \<le> unat base + unat len
     | Some (res, b') \<Rightarrow> (len = 0 \<or> owner b base \<noteq> None \<or> unat base + unat len < 2 ^ 64) \<and>
         (res = Inr () \<longleftrightarrow> len \<noteq> 0 \<and> (\<forall>(r, d) \<in> set (devices b). \<not> overlap ?r r)) \<and>
         get_device b' a = (if res = Inr () \<and> in_range ?r a then Some (a - base, dev) else get_device b a) \<and>
         (res = Inl Overlap \<longrightarrow> b' = b)"
    using bus_insert_cases [OF ok, of len base dev] get_device_inserted [OF ok, of _ ?r dev a]
    by (auto simp del: not_None_eq split: if_split_asm)
  then show ?thesis unfolding get_device_owner [OF ok, of base, symmetric] using get_device_Some [OF ok] by blast
qed

theorem bus_routes_accesses_witness:
  "bus_insert 0 0x1000 0x10 Bus_new = Some (Inr (), \<lparr> devices = [(\<lparr> br_base = 0x1000, br_len = 0x10 \<rparr>, 0)] \<rparr>) \<and>
   get_device \<lparr> devices = [(\<lparr> br_base = 0x1000, br_len = 0x10 \<rparr>, 0)] \<rparr> 0x100f = Some (0xf, 0)"
proof -
  let ?b = "\<lparr> devices = [(\<lparr> br_base = 0x1000, br_len = 0x10 \<rparr>, 0)] \<rparr>"
  have i: "bus_insert 0 0x1000 0x10 Bus_new = Some (Inr (), ?b)"
    by (simp add: bus_insert_def Bus_new_def get_device_def first_before_def add_c_def sub_c_def)
  have "bus_reach ?b" by (rule bus_reach.insert [OF bus_reach.create i])
  from conjunct1 [OF bus_routes_accesses [OF this, of "0x100f" "0xf" 0]] i show ?thesis
    by (simp add: in_range_def range_end_def)
qed

end
