(* ===== verification/Dumbo_Bytes.thy ===== *)
theory Dumbo_Bytes
  imports Prelude
begin

text \<open>
  Network byte order access to slices (\<open>src/firecracker/src/dumbo/src/pdu/bytes.rs\<close> over
  \<open>src/firecracker/src/utils/src/byte_order.rs\<close>), MAC addresses
  (\<open>src/firecracker/src/utils/src/net/mac.rs\<close>), link-local IPv4 addresses
  (\<open>src/firecracker/src/utils/src/net/ipv4addr.rs\<close>) and the Internet checksum of
  \<open>src/firecracker/src/dumbo/src/pdu/mod.rs\<close>. A slice is a list of bytes; a write through a
  mutable slice gives the new list.

  The byte order functions copy byte by byte with \<^verbatim>\<open>zip\<close>: a slice that is too short is read as if
  it ended in zeros and written as far as it goes. Only an offset beyond the end of the slice panics.
\<close>

section \<open>Byte order\<close>

definition read_be_u16 :: "bytes \<Rightarrow> u16" where
  "read_be_u16 input = of_nat (be_nat (take 2 (input @ [0, 0])))"

definition read_be_u32 :: "bytes \<Rightarrow> u32" where
  "read_be_u32 input = of_nat (be_nat (take 4 (input @ [0, 0, 0, 0])))"

definition write_be_u16 :: "bytes \<Rightarrow> u16 \<Rightarrow> bytes" where
  "write_be_u16 buf n = take (length buf) (be_bytes 2 (unat n)) @ drop 2 buf"

definition write_be_u32 :: "bytes \<Rightarrow> u32 \<Rightarrow> bytes" where
  "write_be_u32 buf n = take (length buf) (be_bytes 4 (unat n)) @ drop 4 buf"

definition ntohs_unchecked :: "bytes \<Rightarrow> nat \<Rightarrow> u16 option" where
  "ntohs_unchecked bs offset = (if offset \<le> length bs then Some (read_be_u16 (drop offset bs)) else None)"

definition ntohl_unchecked :: "bytes \<Rightarrow> nat \<Rightarrow> u32 option" where
  "ntohl_unchecked bs offset = (if offset \<le> length bs then Some (read_be_u32 (drop offset bs)) else None)"

definition htons_unchecked :: "bytes \<Rightarrow> nat \<Rightarrow> u16 \<Rightarrow> bytes option" where
  "htons_unchecked bs offset v =
     (if offset \<le> length bs then Some (take offset bs @ write_be_u16 (drop offset bs) v) else None)"

definition htonl_unchecked :: "bytes \<Rightarrow> nat \<Rightarrow> u32 \<Rightarrow> bytes option" where
  "htonl_unchecked bs offset v =
     (if offset \<le> length bs then Some (take offset bs @ write_be_u32 (drop offset bs) v) else None)"

definition shrink_unchecked :: "bytes \<Rightarrow> nat \<Rightarrow> bytes option" where
  "shrink_unchecked bs len = (if len \<le> length bs then Some (take len bs) else None)"

text \<open>\<^verbatim>\<open>bytes[i] = v\<close> and \<^verbatim>\<open>bytes.split_at(mid).1\<close>.\<close>

definition set_idx :: "bytes \<Rightarrow> nat \<Rightarrow> u8 \<Rightarrow> bytes option" where
  "set_idx bs i v = (if i < length bs then Some (bs[i := v]) else None)"

definition split_at_snd :: "bytes \<Rightarrow> nat \<Rightarrow> bytes option" where
  "split_at_snd bs mid = (if mid \<le> length bs then Some (drop mid bs) else None)"

section \<open>Addresses\<close>

type_synonym Ipv4Addr = u32

datatype MacAddr = MacAddr u8 u8 u8 u8 u8 u8

fun mac_get_bytes :: "MacAddr \<Rightarrow> bytes" where
  "mac_get_bytes (MacAddr a b c d e f) = [a, b, c, d, e, f]"

definition mac_from_bytes_unchecked :: "bytes \<Rightarrow> MacAddr option" where
  "mac_from_bytes_unchecked src = (case src of [a, b, c, d, e, f] \<Rightarrow> Some (MacAddr a b c d e f) | _ \<Rightarrow> None)"

definition mac_from_bytes :: "bytes \<Rightarrow> MacAddr option option" where
  "mac_from_bytes src =
     (if length src \<noteq> 6 then Some None else map_option Some (mac_from_bytes_unchecked src))"

text \<open>\<^verbatim>\<open>char::to_digit(16)\<close> and \<^verbatim>\<open>u8::from_str_radix(s, 16)\<close>, which takes a leading plus sign.\<close>

definition hex_digit :: "char \<Rightarrow> nat option" where
  "hex_digit c = (let n = of_char c :: nat in
     if 48 \<le> n \<and> n \<le> 57 then Some (n - 48)
     else if 97 \<le> n \<and> n \<le> 102 then Some (n - 87)
     else if 65 \<le> n \<and> n \<le> 70 then Some (n - 55) else None)"

fun radix16 :: "string \<Rightarrow> nat \<Rightarrow> nat option" where
  "radix16 [] acc = Some acc"
| "radix16 (c # cs) acc = do {
     d \<leftarrow> hex_digit c;
     if acc * 16 + d < 256 then radix16 cs (acc * 16 + d) else None }"

definition u8_from_hex :: "string \<Rightarrow> u8 option" where
  "u8_from_hex s = (case s of [] \<Rightarrow> None
     | c # cs \<Rightarrow> map_option of_nat (radix16 (if c = CHR ''+'' \<and> cs \<noteq> [] then cs else s) 0))"

text \<open>\<^verbatim>\<open>str::split(':')\<close>.\<close>

fun split_colon :: "string \<Rightarrow> string \<Rightarrow> string list" where
  "split_colon cur [] = [rev cur]"
| "split_colon cur (c # cs) = (if c = CHR '':'' then rev cur # split_colon [] cs else split_colon (c # cur) cs)"

fun parse_parts :: "string list \<Rightarrow> bytes option" where
  "parse_parts [] = Some []"
| "parse_parts (p # ps) = (if length p \<noteq> 2 then None else do {
     b \<leftarrow> u8_from_hex p;
     bs \<leftarrow> parse_parts ps;
     Some (b # bs) })"

definition mac_parse_str :: "string \<Rightarrow> string + MacAddr" where
  "mac_parse_str s = (let v = split_colon [] s in
     if length v \<noteq> 6 then Inl s
     else case Option.bind (parse_parts v) mac_from_bytes_unchecked of
       None \<Rightarrow> Inl s | Some m \<Rightarrow> Inr m)"

definition hex_char :: "nat \<Rightarrow> char" where
  "hex_char d = (if d < 10 then char_of (48 + d) else char_of (87 + d))"

definition hex2 :: "u8 \<Rightarrow> string" where
  "hex2 b = [hex_char (unat b div 16), hex_char (unat b mod 16)]"

fun mac_to_string :: "MacAddr \<Rightarrow> string" where
  "mac_to_string (MacAddr a b c d e f) =
     hex2 a @ '':'' @ hex2 b @ '':'' @ hex2 c @ '':'' @ hex2 d @ '':'' @ hex2 e @ '':'' @ hex2 f"

definition is_link_local_valid :: "Ipv4Addr \<Rightarrow> bool" where
  "is_link_local_valid a = (case be_bytes 4 (unat a) of [w, x, y, z] \<Rightarrow>
     if w = 169 \<and> x = 254 \<and> y = 0 then False
     else if w = 169 \<and> x = 254 \<and> y = 255 then False
     else w = 169 \<and> x = 254
   | _ \<Rightarrow> False)"

section \<open>The Internet checksum\<close>

fun sum_words :: "bytes \<Rightarrow> nat list \<Rightarrow> u32 \<Rightarrow> u32 option" where
  "sum_words bs [] s = Some s"
| "sum_words bs (i # is) s = do {
     w \<leftarrow> ntohs_unchecked bs (i * 2);
     s' \<leftarrow> add_c s (ucast w);
     sum_words bs is s' }"

lemma unat_low16: "unat (s AND 0xffff) = unat s mod 65536" for s :: u32
proof -
  have "s AND 0xffff = take_bit 16 s" by (simp add: take_bit_eq_mask mask_eq_exp_minus_1)
  then have "unat (s AND 0xffff) = unat (take_bit 16 s)" by simp
  also have "\<dots> = take_bit 16 (unat s)" by (rule unsigned_take_bit_eq)
  also have "\<dots> = unat s mod 65536" by (simp add: take_bit_eq_mod)
  finally show ?thesis .
qed

lemma unat_high16: "unat (drop_bit 16 s) = unat s div 65536" for s :: u32
proof -
  have "unat (drop_bit 16 s) = drop_bit 16 (unat s)" by (rule unat_drop_bit_eq)
  also have "\<dots> = unat s div 65536" by (simp add: drop_bit_eq_div)
  finally show ?thesis .
qed

lemma unat_fold_step:
  "unat ((s AND 0xffff) + drop_bit 16 s) = unat s mod 65536 + unat s div 65536" for s :: u32
proof -
  have "unat s < 65536 * 65536" using unsigned_less [of s] by simp
  then have "unat s div 65536 < 65536" by (simp add: less_mult_imp_div_less)
  moreover have "unat s mod 65536 < 65536" by simp
  ultimately have "unat s mod 65536 + unat s div 65536 < 2 ^ 32" by simp
  then show ?thesis by (simp add: unat_word_ariths unat_low16 unat_high16)
qed

text \<open>\<^verbatim>\<open>while sum >> 16 != 0\<close>: the addition cannot overflow (lemma \<open>unat_fold_step\<close>).\<close>

function fold_carries :: "u32 \<Rightarrow> u32" where
  "fold_carries s = (if drop_bit 16 s \<noteq> 0 then fold_carries ((s AND 0xffff) + drop_bit 16 s) else s)"
  by auto
termination
proof (relation "measure unat")
  fix s :: u32
  assume "drop_bit 16 s \<noteq> 0"
  then have "unat s div 65536 \<noteq> 0" by (metis unat_eq_0 unat_high16)
  moreover have "unat s = unat s div 65536 * 65536 + unat s mod 65536" by simp
  ultimately have "unat s mod 65536 + unat s div 65536 < unat s" by linarith
  then show "((s AND 0xffff) + drop_bit 16 s, s) \<in> measure unat"
    by (simp only: in_measure unat_fold_step)
qed simp

declare fold_carries.simps [simp del]

datatype ChecksumProto = Tcp | Udp

fun proto_num :: "ChecksumProto \<Rightarrow> u8" where
  "proto_num Tcp = 0x06"
| "proto_num Udp = 0x11"

definition compute_checksum :: "bytes \<Rightarrow> Ipv4Addr \<Rightarrow> Ipv4Addr \<Rightarrow> ChecksumProto \<Rightarrow> u16 option" where
  "compute_checksum bs src dst proto = do {
     s \<leftarrow> add_c 0 (src AND 0xffff);
     s \<leftarrow> add_c s (drop_bit 16 src);
     s \<leftarrow> add_c s (dst AND 0xffff);
     s \<leftarrow> add_c s (drop_bit 16 dst);
     let len = length bs;
     s \<leftarrow> add_c s (ucast (proto_num proto));
     s \<leftarrow> add_c s (of_nat len);
     s \<leftarrow> sum_words bs [0..<len div 2] s;
     s \<leftarrow> (if len mod 2 \<noteq> 0 then do { b \<leftarrow> idx bs (len - 1); add_c s (push_bit 8 (ucast b)) } else Some s);
     let csum = NOT (ucast (fold_carries s));
     Some (if proto = Udp \<and> csum = 0 then NOT csum else csum) }"

section \<open>Reading what was written\<close>

definition upd :: "bytes \<Rightarrow> nat \<Rightarrow> bytes \<Rightarrow> bytes" where
  "upd bs i ys = take i bs @ ys @ drop (i + length ys) bs"

definition be16 :: "u16 \<Rightarrow> bytes" where
  "be16 v = be_bytes 2 (unat v)"

definition be32 :: "u32 \<Rightarrow> bytes" where
  "be32 v = be_bytes 4 (unat v)"

lemma be_length [simp]: "length (be16 v) = 2" "length (be32 w) = 4"
  by (simp_all add: be16_def be32_def)

named_theorems net_simps \<open>reads and writes of fields in network byte order\<close>

lemma upd_length [simp]: "i + length ys \<le> length bs \<Longrightarrow> length (upd bs i ys) = length bs"
  by (simp add: upd_def)

lemma upd_nth:
  "i + length ys \<le> length bs \<Longrightarrow> j < length bs \<Longrightarrow>
   upd bs i ys ! j = (if i \<le> j \<and> j < i + length ys then ys ! (j - i) else bs ! j)"
  by (auto simp: upd_def nth_append)

lemma write_ok [net_simps]:
  "o' + 2 \<le> length bs \<Longrightarrow> htons_unchecked bs o' v = Some (upd bs o' (be16 v))"
  "o' + 4 \<le> length bs \<Longrightarrow> htonl_unchecked bs o' w = Some (upd bs o' (be32 w))"
  "o' + 1 \<le> length bs \<Longrightarrow> set_idx bs o' b = Some (upd bs o' [b])"
  "o' + length ys \<le> length bs \<Longrightarrow> copy_to bs o' ys = Some (upd bs o' ys)"
  by (simp_all add: htons_unchecked_def htonl_unchecked_def set_idx_def copy_to_def upd_def write_be_u16_def
      write_be_u32_def be16_def be32_def upd_conv_take_nth_drop add.commute)

lemma read_def:
  "o' + 2 \<le> length bs \<Longrightarrow> ntohs_unchecked bs o' = Some (of_nat (be_nat (take 2 (drop o' bs))))"
  "o' + 4 \<le> length bs \<Longrightarrow> ntohl_unchecked bs o' = Some (of_nat (be_nat (take 4 (drop o' bs))))"
  by (simp_all add: ntohs_unchecked_def ntohl_unchecked_def read_be_u16_def read_be_u32_def)

lemma drop_upd_same: "i + length ys \<le> length bs \<Longrightarrow> take (length ys) (drop i (upd bs i ys)) = ys"
  by (simp add: upd_def)

lemma take_drop_upd:
  "i + length ys \<le> length bs \<Longrightarrow> j + n \<le> i \<or> i + length ys \<le> j \<Longrightarrow> j + n \<le> length bs \<Longrightarrow>
   take n (drop j (upd bs i ys)) = take n (drop j bs)"
  by (rule nth_equalityI) (auto simp: upd_nth)

lemma be_nat_word [simp]:
  "of_nat (be_nat (be16 a)) = (a :: u16)"
  "of_nat (be_nat (be32 b)) = (b :: u32)"
proof -
  have "unat a < 256 ^ 2" "unat b < 256 ^ 4"
    by (rule order_less_le_trans [OF unsigned_less], simp)+
  then show "of_nat (be_nat (be16 a)) = a" "of_nat (be_nat (be32 b)) = b"
    by (simp_all add: be16_def be32_def be_nat_be_bytes)
qed

lemma read_same [net_simps]:
  "o' + 2 \<le> length bs \<Longrightarrow> ntohs_unchecked (upd bs o' (be16 v)) o' = Some v"
  "o' + 4 \<le> length bs \<Longrightarrow> ntohl_unchecked (upd bs o' (be32 w)) o' = Some w"
  "o' + 1 \<le> length bs \<Longrightarrow> idx (upd bs o' [b]) o' = Some b"
  "o' + length ys \<le> length bs \<Longrightarrow> j = o' + length ys \<Longrightarrow> subslice (upd bs o' ys) o' j = Some ys"
  using drop_upd_same [of o' "be16 v" bs] drop_upd_same [of o' "be32 w" bs]
    drop_upd_same [of o' ys bs]
  by (simp_all add: read_def idx_def upd_nth subslice_def)

lemma read_other [net_simps]:
  "o' + length ys \<le> length bs \<Longrightarrow> i + 2 \<le> o' \<or> o' + length ys \<le> i \<Longrightarrow> i + 2 \<le> length bs \<Longrightarrow>
     ntohs_unchecked (upd bs o' ys) i = ntohs_unchecked bs i"
  "o' + length ys \<le> length bs \<Longrightarrow> i + 4 \<le> o' \<or> o' + length ys \<le> i \<Longrightarrow> i + 4 \<le> length bs \<Longrightarrow>
     ntohl_unchecked (upd bs o' ys) i = ntohl_unchecked bs i"
  "o' + length ys \<le> length bs \<Longrightarrow> i < o' \<or> o' + length ys \<le> i \<Longrightarrow> i + 1 \<le> length bs \<Longrightarrow>
     idx (upd bs o' ys) i = idx bs i"
  "o' + length ys \<le> length bs \<Longrightarrow> j \<le> o' \<or> o' + length ys \<le> i \<Longrightarrow> i \<le> j \<Longrightarrow> j \<le> length bs \<Longrightarrow>
     subslice (upd bs o' ys) i j = subslice bs i j"
  using take_drop_upd [of o' ys bs i 2] take_drop_upd [of o' ys bs i 4] take_drop_upd [of o' ys bs i "j - i"]
  by (auto simp add: read_def idx_def upd_nth subslice_def)

lemma drop_upd [net_simps]:
  "i + length ys \<le> length bs \<Longrightarrow> i + length ys \<le> j \<Longrightarrow> drop j (upd bs i ys) = drop j bs"
  by (rule nth_equalityI) (auto simp: upd_nth)

lemma take_upd [net_simps]:
  "i + length ys \<le> n \<Longrightarrow> n \<le> length bs \<Longrightarrow> take n (upd bs i ys) = upd (take n bs) i ys"
  by (rule nth_equalityI) (auto simp: upd_nth)

lemma read_take [net_simps]:
  "i + 2 \<le> n \<Longrightarrow> n \<le> length bs \<Longrightarrow> ntohs_unchecked (take n bs) i = ntohs_unchecked bs i"
  "i + 4 \<le> n \<Longrightarrow> n \<le> length bs \<Longrightarrow> ntohl_unchecked (take n bs) i = ntohl_unchecked bs i"
  "i + 1 \<le> n \<Longrightarrow> n \<le> length bs \<Longrightarrow> idx (take n bs) i = idx bs i"
  by (simp_all add: read_def idx_def drop_take min_def)

lemma read_append [net_simps]:
  "i + 2 \<le> length xs \<Longrightarrow> ntohs_unchecked (xs @ ys) i = ntohs_unchecked xs i"
  "i + 4 \<le> length xs \<Longrightarrow> ntohl_unchecked (xs @ ys) i = ntohl_unchecked xs i"
  "j \<le> length xs \<Longrightarrow> subslice (xs @ ys) i j = subslice xs i j"
  by (simp_all add: read_def subslice_def)

lemma drop_upd_tail [net_simps]: "length bs = i + length ys \<Longrightarrow> drop i (upd bs i ys) = ys"
  by (simp add: upd_def)

lemma take_upd_end: "n = i + length ys \<Longrightarrow> n \<le> length bs \<Longrightarrow> take n (upd bs i ys) = take i bs @ ys"
  by (simp add: upd_def)

lemma upd_adjacent: "i + length xs + length ys \<le> length bs \<Longrightarrow> j = i + length xs \<Longrightarrow>
  upd (upd bs i xs) j ys = upd bs i (xs @ ys)"
  by (rule nth_equalityI) (auto simp: upd_nth nth_append)

section \<open>The checksum in closed form\<close>

fun wsum :: "bytes \<Rightarrow> nat" where
  "wsum [] = 0"
| "wsum [b] = 256 * unat b"
| "wsum (a # b # bs) = 256 * unat a + unat b + wsum bs"

definition fold_nat :: "nat \<Rightarrow> nat" where
  "fold_nat s = (if s = 0 then 0 else (s - 1) mod 65535 + 1)"

lemma fold_nat_step: "65536 \<le> s \<Longrightarrow> fold_nat (s mod 65536 + s div 65536) = fold_nat s"
proof -
  assume a: "65536 \<le> s"
  define q r where "q = s div 65536" and "r = s mod 65536"
  have s: "s = 65536 * q + r" by (simp add: q_def r_def)
  have q: "0 < q" using a by (simp add: q_def div_greater_zero_iff)
  then have "s - 1 = 65535 * q + (r + q - 1)" using s by simp
  then have "(s - 1) mod 65535 = (r + q - 1) mod 65535" by simp
  then show ?thesis using q a by (simp add: fold_nat_def q_def [symmetric] r_def [symmetric])
qed

lemma unat_fold_carries: "unat (fold_carries s) = fold_nat (unat s)"
proof (induction s rule: fold_carries.induct)
  case (1 s)
  show ?case
  proof (cases "drop_bit 16 s = 0")
    case True
    then have "unat s div 65536 = 0" by (metis unat_0 unat_high16)
    then have "unat s < 65536" by (simp add: div_eq_0_iff)
    then show ?thesis using True by (subst fold_carries.simps) (auto simp: fold_nat_def)
  next
    case False
    then have "unat s div 65536 \<noteq> 0" by (metis unat_eq_0 unat_high16)
    then have "65536 \<le> unat s" by (simp add: div_eq_0_iff)
    then show ?thesis using False 1 by (subst fold_carries.simps) (simp add: unat_fold_step fold_nat_step)
  qed
qed

lemma fold_nat_le: "fold_nat s \<le> 65535"
  using pos_mod_bound [of 65535 "int (s - 1)"] by (simp add: fold_nat_def Suc_le_eq)

lemma wsum_append: "even (length xs) \<Longrightarrow> wsum (xs @ ys) = wsum xs + wsum ys"
  by (induction xs rule: wsum.induct) auto

lemma wsum_bound: "wsum bs \<le> 65535 * ((length bs + 1) div 2)"
proof (induction bs rule: wsum.induct)
  case (2 b)
  have "unat b < 256" using unsigned_less [of b] by simp
  then show ?case by simp
next
  case (3 a b bs)
  have "unat a < 256" "unat b < 256" using unsigned_less [of a] unsigned_less [of b] by simp_all
  then show ?case using 3 by simp
qed simp

lemma wsum_be_bytes: "wsum (be16 c) = unat (c :: u16)"
proof -
  have "unat c < 65536" by (rule order_less_le_trans [OF unsigned_less]) simp
  then show ?thesis by (simp add: be16_def be_bytes_def le_bytes_numeral numeral_2_eq_2)
qed

lemma wsum_upd:
  assumes "even i" "i + 2 \<le> length bs" "ntohs_unchecked bs i = Some 0"
  shows "wsum (upd bs i (be16 c)) = wsum bs + unat (c :: u16)"
proof -
  have z: "be_nat (take 2 (drop i bs)) = 0"
  proof -
    have "be_nat (take 2 (drop i bs)) < 2 ^ 16"
      using be_nat_bound [of "take 2 (drop i bs)"] assms(2) by simp
    then have "unat (of_nat (be_nat (take 2 (drop i bs))) :: u16) = be_nat (take 2 (drop i bs))" by simp
    then show ?thesis using assms by (simp add: read_def)
  qed
  obtain x y where xy: "take 2 (drop i bs) = [x, y]"
    using assms(2) by (metis length_2_conv length_take length_drop min.absorb2 add_le_imp_le_diff add.commute)
  have bs: "bs = take i bs @ [x, y] @ drop (i + 2) bs"
    by (metis xy append_take_drop_id drop_drop add.commute)
  have "unat x = 0" "unat y = 0" using z xy by (simp_all add: be_nat_def)
  moreover have "even (length (take i bs))" using assms by simp
  ultimately have "wsum bs = wsum (take i bs) + wsum (drop (i + 2) bs)"
    by (subst bs) (simp only: wsum_append, simp)
  moreover have "wsum (upd bs i (be16 c)) =
      wsum (take i bs) + (unat c + wsum (drop (i + 2) bs))"
    using assms by (simp add: upd_def wsum_append wsum_be_bytes)
  ultimately show ?thesis by simp
qed

lemma read_words: "2 * i + 2 \<le> length bs \<Longrightarrow> ntohs_unchecked bs (i * 2) = Some (of_nat (wsum (take 2 (drop (2 * i) bs))))"
proof -
  assume a: "2 * i + 2 \<le> length bs"
  obtain x y where xy: "take 2 (drop (2 * i) bs) = [x, y]"
    using a by (metis length_2_conv length_take length_drop min.absorb2 add_le_imp_le_diff add.commute)
  show ?thesis using a xy by (simp add: read_def mult.commute be_nat_def)
qed

lemma sum_words_from:
  assumes "k \<le> n" "2 * n \<le> length bs" "unat s + wsum (take (2 * (n - k)) (drop (2 * k) bs)) < 2 ^ 32"
  shows "\<exists>s'. sum_words bs [k..<n] s = Some s' \<and> unat s' = unat s + wsum (take (2 * (n - k)) (drop (2 * k) bs))"
  using assms
proof (induction "n - k" arbitrary: k s)
  case 0
  then show ?case by simp
next
  case (Suc m)
  then have k: "k < n" "n - k = Suc m" "m = n - Suc k" by simp_all
  obtain x y where xy: "take 2 (drop (2 * k) bs) = [x, y]"
    using Suc.prems(2) k by (metis length_2_conv length_take length_drop min.absorb2 Suc_leI mult_Suc_right
        add_le_imp_le_diff add.commute mult_le_mono2 order_trans)
  have d: "drop (2 * k) bs = x # y # drop (2 * Suc k) bs"
    using xy append_take_drop_id [of 2 "drop (2 * k) bs"] by (simp add: add.commute)
  define w where "w = 256 * unat x + unat y"
  let ?t = "wsum (take (2 * (n - Suc k)) (drop (2 * Suc k) bs))"
  have wt: "wsum (take (2 * (n - k)) (drop (2 * k) bs)) = w + ?t" using k d by (simp add: w_def)
  have "unat x < 256" "unat y < 256" using unsigned_less [of x] unsigned_less [of y] by simp_all
  then have wl: "w < 2 ^ 16" by (simp add: w_def)
  then have u: "unat (ucast (of_nat w :: u16) :: u32) = w" by (simp add: unat_ucast_up)
  have r: "ntohs_unchecked bs (k * 2) = Some (of_nat w)"
    using read_words [of k bs] Suc.prems(2) k xy by (simp add: w_def)
  have "unat s + w < 2 ^ 32" using Suc.prems(3) wt by simp
  then have a: "add_c s (ucast (of_nat w :: u16)) = Some (s + ucast (of_nat w :: u16))"
    using u by (simp add: add_c_def)
  note ua = unat_add_c [OF a, unfolded u]
  have "unat (s + ucast (of_nat w :: u16)) + ?t < 2 ^ 32" using Suc.prems(3) wt ua by simp
  from Suc.hyps(1) [OF k(3) _ Suc.prems(2) this] k(1)
  obtain s' where s': "sum_words bs [Suc k..<n] (s + ucast (of_nat w :: u16)) = Some s'"
      "unat s' = unat (s + ucast (of_nat w :: u16)) + ?t" by auto
  have "sum_words bs [k..<n] s = Some s'"
    using k(1) by (simp add: upt_rec [of k] r a s'(1))
  then show ?case using s'(2) ua wt by simp
qed

lemma sum_words_eq:
  assumes "2 * n \<le> length bs" "unat s + wsum (take (2 * n) bs) < 2 ^ 32"
  shows "\<exists>s'. sum_words bs [0..<n] s = Some s' \<and> unat s' = unat s + wsum (take (2 * n) bs)"
  using sum_words_from [of 0 n bs s] assms by simp

text \<open>The sum that \<^const>\<open>compute_checksum\<close> folds, with the pseudo header of RFC 793 and RFC 768.\<close>

definition pseudo_sum :: "bytes \<Rightarrow> Ipv4Addr \<Rightarrow> Ipv4Addr \<Rightarrow> ChecksumProto \<Rightarrow> nat" where
  "pseudo_sum bs src dst proto = unat src mod 65536 + unat src div 65536 + unat dst mod 65536 + unat dst div 65536 +
     unat (proto_num proto) + length bs + wsum bs"

definition csum_of :: "nat \<Rightarrow> u16" where
  "csum_of s = of_nat (65535 - fold_nat s)"

lemma unat_csum_of: "unat (csum_of s) = 65535 - fold_nat s"
  by (simp add: csum_of_def)

lemma not_fold_carries: "NOT (ucast (fold_carries s)) = csum_of (unat s)"
proof -
  have f: "unat (ucast (fold_carries s) :: u16) = fold_nat (unat s)"
    using fold_nat_le [of "unat s"]
    by (simp add: unsigned_ucast_eq take_bit_nat_eq_self unat_fold_carries)
  have n: "NOT w = of_nat (65535 - unat w)" for w :: u16
  proof -
    have "unat w < 65536" by (rule order_less_le_trans [OF unsigned_less]) simp
    then have "of_nat (65535 - unat w) = (65535 :: u16) - w" by (simp add: of_nat_diff)
    then show ?thesis by (simp add: not_eq_complement)
  qed
  show ?thesis by (simp add: csum_of_def n f)
qed

text \<open>Filling a zero checksum field makes the sum fold to all ones, so the check gives zero.\<close>

lemma csum_fills: "csum_of (s + unat (csum_of s)) = 0"
proof -
  show "csum_of (s + unat (csum_of s)) = 0"
  proof (cases "s = 0")
    case True
    then show ?thesis by (simp add: csum_of_def fold_nat_def)
  next
    case False
    define r where "r = (s - 1) mod 65535"
    have r: "r \<le> 65534" using pos_mod_bound [of 65535 "int (s - 1)"] by (simp add: r_def Suc_le_eq)
    have u: "unat (csum_of s) = 65534 - r" using False by (simp add: unat_csum_of fold_nat_def r_def)
    obtain q where q: "s - 1 = 65535 * q + r" by (metis r_def mult_div_mod_eq)
    then have "s + (65534 - r) - 1 = 65535 * q + 65534" using r False by simp
    then have "(s + (65534 - r) - 1) mod 65535 = 65534" by simp
    then show ?thesis using False u by (simp add: csum_of_def [of "s + _"] fold_nat_def)
  qed
qed

lemma csum_fills_ones: "csum_of s = 0 \<Longrightarrow> csum_of (s + 65535) = 0"
proof -
  assume "csum_of s = 0"
  then have "fold_nat s = 65535" using unat_csum_of [of s] fold_nat_le [of s] by simp
  then have s: "s \<noteq> 0" "(s - 1) mod 65535 = 65534" by (auto simp: fold_nat_def split: if_split_asm)
  obtain q where "s - 1 = 65535 * q + 65534" using s(2) by (metis mult_div_mod_eq)
  then have "65534 + s = 65535 * (q + 1) + 65534" using s(1) by simp
  then have "(65534 + s) mod 65535 = 65534" by (simp only: mod_mult_self4) simp
  then show ?thesis by (simp add: csum_of_def fold_nat_def)
qed

lemma odd_last: "odd (length bs) \<Longrightarrow>
  wsum bs = wsum (take (2 * (length bs div 2)) bs) + 256 * unat (bs ! (length bs - 1))"
proof (induction bs rule: wsum.induct)
  case (3 a b bs)
  then show ?case by (cases bs) (auto simp: nth_Cons split: nat.split)
qed auto

lemma add_c_step:
  "unat a = m \<Longrightarrow> unat b = n \<Longrightarrow> m + n < 2 ^ 32 \<Longrightarrow> \<exists>c. add_c a b = Some c \<and> unat c = m + n" for a b :: u32
proof -
  assume "unat a = m" "unat b = n" "m + n < 2 ^ 32"
  then have "add_c a b = Some (a + b)" by (simp add: add_c_def)
  with unat_add_c [OF this] show ?thesis using \<open>unat a = m\<close> \<open>unat b = n\<close> by blast
qed

lemma compute_checksum_eq:
  assumes "length bs \<le> 100000"
  shows "compute_checksum bs src dst proto = Some (let c = csum_of (pseudo_sum bs src dst proto) in
    if proto = Udp \<and> c = 0 then - 1 else c)"
proof -
  let ?s = "unat src" and ?d = "unat dst" and ?p = "unat (proto_num proto)" and ?n = "length bs"
  have b: "?s div 65536 < 65536" "?d div 65536 < 65536"
    by (simp_all add: less_mult_imp_div_less order_less_le_trans [OF unsigned_less])
  have m: "?s mod 65536 < 65536" "?d mod 65536 < 65536" "?p < 256"
    by (simp_all add: order_less_le_trans [OF unsigned_less])
  have w: "wsum bs \<le> 65535 * 50000"
    using order_trans [OF wsum_bound, of bs "65535 * 50000"] assms by simp
  obtain s1 where s1: "add_c 0 (src AND 0xffff) = Some s1" "unat s1 = ?s mod 65536"
    using add_c_step [of 0 0, OF _ unat_low16 [of src]] m by auto
  obtain s2 where s2: "add_c s1 (drop_bit 16 src) = Some s2" "unat s2 = ?s mod 65536 + ?s div 65536"
    using add_c_step [OF s1(2) unat_high16 [of src]] m b by auto
  obtain s3 where s3: "add_c s2 (dst AND 0xffff) = Some s3" "unat s3 = ?s mod 65536 + ?s div 65536 + ?d mod 65536"
    using add_c_step [OF s2(2) unat_low16 [of dst]] m b by auto
  obtain s4 where s4: "add_c s3 (drop_bit 16 dst) = Some s4"
      "unat s4 = ?s mod 65536 + ?s div 65536 + ?d mod 65536 + ?d div 65536"
    using add_c_step [OF s3(2) unat_high16 [of dst]] m b by auto
  obtain s5 where s5: "add_c s4 (ucast (proto_num proto)) = Some s5" "unat s5 = unat s4 + ?p"
    using add_c_step [OF refl unat_ucast_up [of "proto_num proto"], of s4] s4 m b by auto
  obtain s6 where s6: "add_c s5 (of_nat ?n) = Some s6" "unat s6 = unat s5 + ?n"
    using add_c_step [OF refl unat_of_nat_small [of ?n], of s5] s4 s5 m b assms by auto
  have u6: "unat s6 + wsum bs = pseudo_sum bs src dst proto" using s4 s5 s6 by (simp add: pseudo_sum_def)
  have "unat s6 + wsum bs < 4294967296" using s4(2) s5(2) s6(2) m b w assms by linarith
  then have lt: "unat s6 + wsum bs < 2 ^ 32" by simp
  have half: "2 * (?n div 2) \<le> ?n" by simp
  obtain s8 where s8: "Option.bind (sum_words bs [0..<?n div 2] s6) (\<lambda>s. if ?n mod 2 \<noteq> 0
      then Option.bind (idx bs (?n - 1)) (\<lambda>b. add_c s (push_bit 8 (ucast b))) else Some s) = Some s8"
      "unat s8 = unat s6 + wsum bs"
  proof (cases "even ?n")
    case True
    then show ?thesis using sum_words_eq [OF half, of s6] lt that by (auto simp: even_iff_mod_2_eq_zero)
  next
    case False
    note o = odd_last [OF False]
    obtain s7 where s7: "sum_words bs [0..<?n div 2] s6 = Some s7"
        "unat s7 = unat s6 + wsum (take (2 * (?n div 2)) bs)"
      using sum_words_eq [OF half, of s6] lt o by auto
    have i: "idx bs (?n - 1) = Some (bs ! (?n - 1))" using False by (cases bs) (simp_all add: idx_def)
    have "unat (push_bit 8 (ucast (bs ! (?n - 1))) :: u32) = unat (bs ! (?n - 1)) * 2 ^ 8"
      by (rule unat_push_bit_byte) simp
    from add_c_step [OF s7(2) this] o lt obtain s8 where
      "add_c s7 (push_bit 8 (ucast (bs ! (?n - 1)))) = Some s8" "unat s8 = unat s6 + wsum bs" by auto
    then show ?thesis using that False s7 i by (auto simp: odd_iff_mod_2_eq_one)
  qed
  have "compute_checksum bs src dst proto = Option.bind (Option.bind (sum_words bs [0..<?n div 2] s6) (\<lambda>s. if ?n mod 2 \<noteq> 0
      then Option.bind (idx bs (?n - 1)) (\<lambda>b. add_c s (push_bit 8 (ucast b))) else Some s))
      (\<lambda>s. let csum = NOT (ucast (fold_carries s)) in Some (if proto = Udp \<and> csum = 0 then NOT csum else csum))"
    using s1(1) s2(1) s3(1) s4(1) s5(1) s6(1) by (simp add: compute_checksum_def Let_def)
  then have "compute_checksum bs src dst proto = (let csum = NOT (ucast (fold_carries s8)) in
      Some (if proto = Udp \<and> csum = 0 then NOT csum else csum))"
    unfolding s8(1) by (simp only: Option.bind.simps)
  then show ?thesis using s8(2) u6 by (auto simp: Let_def not_fold_carries)
qed

section \<open>Addresses as text\<close>

lemma hex_char_digit: "d < 16 \<Longrightarrow> hex_digit (hex_char d) = Some d \<and> hex_char d \<noteq> CHR '':'' \<and> hex_char d \<noteq> CHR ''+''"
proof -
  assume d: "d < 16"
  have n: "(of_char (char_of n) :: nat) = n" if "n < 256" for n :: nat using that by (simp add: of_char_of)
  have "hex_digit (hex_char d) = Some d"
    using d by (cases "d < 10") (simp_all add: hex_digit_def hex_char_def n)
  moreover have "hex_digit CHR '':'' = None" "hex_digit CHR ''+'' = None" by (simp_all add: hex_digit_def)
  ultimately show ?thesis by auto
qed

lemma hex2_parse: "u8_from_hex (hex2 b) = Some b" "length (hex2 b) = 2"
  "split_colon [] (hex2 b @ CHR '':'' # r) = hex2 b # split_colon [] r" "split_colon [] (hex2 b) = [hex2 b]"
proof -
  have b: "unat b < 256" using unsigned_less [of b] by simp
  then have d: "unat b div 16 < 16" "unat b mod 16 < 16" by simp_all
  note h = hex_char_digit [OF d(1)] hex_char_digit [OF d(2)]
  show "u8_from_hex (hex2 b) = Some b" using h b d by (simp add: u8_from_hex_def hex2_def)
  show "length (hex2 b) = 2" "split_colon [] (hex2 b @ CHR '':'' # r) = hex2 b # split_colon [] r"
    "split_colon [] (hex2 b) = [hex2 b]"
    using h by (simp_all add: hex2_def)
qed

lemma mac_parse_to_string: "mac_parse_str (mac_to_string m) = Inr m"
  by (cases m) (simp add: mac_parse_str_def Let_def hex2_parse mac_from_bytes_unchecked_def)

end
