(* ===== verification/Dumbo_Pdu.thy ===== *)
theory Dumbo_Pdu
  imports Dumbo_Bytes
begin

text \<open>
  Ethernet frames, ARP frames, IPv4 packets and UDP datagrams of
  \<open>src/firecracker/src/dumbo/src/pdu\<close> (\<open>ethernet.rs\<close>, \<open>arp.rs\<close>, \<open>ipv4.rs\<close>, \<open>udp.rs\<close>). A PDU is the list
  of its bytes. A function that writes a PDU takes the buffer and gives the slice of the buffer
  that holds the PDU; the bytes of the buffer after that slice keep their value.
\<close>

named_theorems pdu_defs \<open>accessors and setters of header fields\<close>

section \<open>Ethernet\<close>

abbreviation (input) ETH_PAYLOAD_OFFSET :: nat where "ETH_PAYLOAD_OFFSET \<equiv> 14"
abbreviation (input) ETHERTYPE_ARP :: u16 where "ETHERTYPE_ARP \<equiv> 0x0806"
abbreviation (input) ETHERTYPE_IPV4 :: u16 where "ETHERTYPE_IPV4 \<equiv> 0x0800"

datatype eth_error = EthSliceTooShort

definition eth_from_bytes :: "bytes \<Rightarrow> eth_error + bytes" where
  "eth_from_bytes bs = (if length bs < ETH_PAYLOAD_OFFSET then Inl EthSliceTooShort else Inr bs)"

definition eth_dst_mac :: "bytes \<Rightarrow> MacAddr option" where
  [pdu_defs]: "eth_dst_mac bs = do { s \<leftarrow> subslice bs 0 6; mac_from_bytes_unchecked s }"

definition eth_src_mac :: "bytes \<Rightarrow> MacAddr option" where
  [pdu_defs]: "eth_src_mac bs = do { s \<leftarrow> subslice bs 6 12; mac_from_bytes_unchecked s }"

definition eth_ethertype :: "bytes \<Rightarrow> u16 option" where
  [pdu_defs]: "eth_ethertype bs = ntohs_unchecked bs 12"

definition eth_payload :: "bytes \<Rightarrow> bytes option" where
  "eth_payload bs = split_at_snd bs ETH_PAYLOAD_OFFSET"

definition eth_set_dst_mac :: "MacAddr \<Rightarrow> bytes \<Rightarrow> bytes option" where
  [pdu_defs]: "eth_set_dst_mac addr bs = copy_to bs 0 (mac_get_bytes addr)"

definition eth_set_src_mac :: "MacAddr \<Rightarrow> bytes \<Rightarrow> bytes option" where
  [pdu_defs]: "eth_set_src_mac addr bs = copy_to bs 6 (mac_get_bytes addr)"

definition eth_set_ethertype :: "u16 \<Rightarrow> bytes \<Rightarrow> bytes option" where
  [pdu_defs]: "eth_set_ethertype v bs = htons_unchecked bs 12 v"

definition eth_new_with_header :: "bytes \<Rightarrow> MacAddr \<Rightarrow> MacAddr \<Rightarrow> u16 \<Rightarrow> (eth_error + bytes) option" where
  "eth_new_with_header buf dst_mac src_mac ethertype =
     (if length buf < ETH_PAYLOAD_OFFSET then Some (Inl EthSliceTooShort)
      else do {
        f \<leftarrow> eth_set_dst_mac dst_mac buf;
        f \<leftarrow> eth_set_src_mac src_mac f;
        f \<leftarrow> eth_set_ethertype ethertype f;
        Some (Inr f) })"

definition eth_write_incomplete :: "bytes \<Rightarrow> MacAddr \<Rightarrow> MacAddr \<Rightarrow> u16 \<Rightarrow> (eth_error + bytes) option" where
  "eth_write_incomplete buf dst_mac src_mac ethertype = eth_new_with_header buf dst_mac src_mac ethertype"

text \<open>\<^verbatim>\<open>payload_mut\<close>: the payload of an incomplete frame, to be replaced by what is written to it.\<close>

definition eth_put_payload :: "bytes \<Rightarrow> bytes \<Rightarrow> bytes option" where
  "eth_put_payload f pl = copy_to f ETH_PAYLOAD_OFFSET pl"

definition eth_with_payload_len_unchecked :: "bytes \<Rightarrow> nat \<Rightarrow> bytes option" where
  "eth_with_payload_len_unchecked f payload_len = shrink_unchecked f (ETH_PAYLOAD_OFFSET + payload_len)"

section \<open>ARP\<close>

abbreviation (input) ETH_IPV4_FRAME_LEN :: nat where "ETH_IPV4_FRAME_LEN \<equiv> 28"
abbreviation (input) OPER_REQUEST :: u16 where "OPER_REQUEST \<equiv> 1"
abbreviation (input) OPER_REPLY :: u16 where "OPER_REPLY \<equiv> 2"
abbreviation (input) HTYPE_ETHERNET :: u16 where "HTYPE_ETHERNET \<equiv> 1"
abbreviation (input) MAC_ADDR_LEN :: u8 where "MAC_ADDR_LEN \<equiv> 6"
abbreviation (input) IPV4_ADDR_LEN :: u8 where "IPV4_ADDR_LEN \<equiv> 4"

datatype arp_error = HLen | HType | Operation | PLen | PType | SliceExactLen

definition arp_htype :: "bytes \<Rightarrow> u16 option" where
  [pdu_defs]: "arp_htype bs = ntohs_unchecked bs 0"

definition arp_ptype :: "bytes \<Rightarrow> u16 option" where
  [pdu_defs]: "arp_ptype bs = ntohs_unchecked bs 2"

definition arp_hlen :: "bytes \<Rightarrow> u8 option" where
  [pdu_defs]: "arp_hlen bs = idx bs 4"

definition arp_plen :: "bytes \<Rightarrow> u8 option" where
  [pdu_defs]: "arp_plen bs = idx bs 5"

definition arp_operation :: "bytes \<Rightarrow> u16 option" where
  [pdu_defs]: "arp_operation bs = ntohs_unchecked bs 6"

definition arp_sha :: "bytes \<Rightarrow> MacAddr option" where
  [pdu_defs]: "arp_sha bs = do { s \<leftarrow> subslice bs 8 14; mac_from_bytes_unchecked s }"

definition arp_spa :: "bytes \<Rightarrow> Ipv4Addr option" where
  [pdu_defs]: "arp_spa bs = ntohl_unchecked bs 14"

definition arp_tha :: "bytes \<Rightarrow> MacAddr option" where
  [pdu_defs]: "arp_tha bs = do { s \<leftarrow> subslice bs 18 24; mac_from_bytes_unchecked s }"

definition arp_tpa :: "bytes \<Rightarrow> Ipv4Addr option" where
  [pdu_defs]: "arp_tpa bs = ntohl_unchecked bs 24"

definition arp_request_from_bytes :: "bytes \<Rightarrow> (arp_error + bytes) option" where
  "arp_request_from_bytes bs =
     (if length bs \<noteq> ETH_IPV4_FRAME_LEN then Some (Inl SliceExactLen)
      else do {
        htype \<leftarrow> arp_htype bs;
        if htype \<noteq> HTYPE_ETHERNET then Some (Inl HType) else do {
        ptype \<leftarrow> arp_ptype bs;
        if ptype \<noteq> ETHERTYPE_IPV4 then Some (Inl PType) else do {
        hlen \<leftarrow> arp_hlen bs;
        if hlen \<noteq> MAC_ADDR_LEN then Some (Inl HLen) else do {
        plen \<leftarrow> arp_plen bs;
        if plen \<noteq> IPV4_ADDR_LEN then Some (Inl PLen) else do {
        oper \<leftarrow> arp_operation bs;
        if oper \<noteq> OPER_REQUEST then Some (Inl Operation) else Some (Inr bs) }}}}})"

definition arp_set_htype :: "u16 \<Rightarrow> bytes \<Rightarrow> bytes option" where
  [pdu_defs]: "arp_set_htype v bs = htons_unchecked bs 0 v"

definition arp_set_ptype :: "u16 \<Rightarrow> bytes \<Rightarrow> bytes option" where
  [pdu_defs]: "arp_set_ptype v bs = htons_unchecked bs 2 v"

definition arp_set_hlen :: "u8 \<Rightarrow> bytes \<Rightarrow> bytes option" where
  [pdu_defs]: "arp_set_hlen v bs = set_idx bs 4 v"

definition arp_set_plen :: "u8 \<Rightarrow> bytes \<Rightarrow> bytes option" where
  [pdu_defs]: "arp_set_plen v bs = set_idx bs 5 v"

definition arp_set_operation :: "u16 \<Rightarrow> bytes \<Rightarrow> bytes option" where
  [pdu_defs]: "arp_set_operation v bs = htons_unchecked bs 6 v"

definition arp_set_sha :: "MacAddr \<Rightarrow> bytes \<Rightarrow> bytes option" where
  [pdu_defs]: "arp_set_sha addr bs = copy_to bs 8 (mac_get_bytes addr)"

definition arp_set_spa :: "Ipv4Addr \<Rightarrow> bytes \<Rightarrow> bytes option" where
  [pdu_defs]: "arp_set_spa v bs = htonl_unchecked bs 14 v"

definition arp_set_tha :: "MacAddr \<Rightarrow> bytes \<Rightarrow> bytes option" where
  [pdu_defs]: "arp_set_tha addr bs = copy_to bs 18 (mac_get_bytes addr)"

definition arp_set_tpa :: "Ipv4Addr \<Rightarrow> bytes \<Rightarrow> bytes option" where
  [pdu_defs]: "arp_set_tpa v bs = htonl_unchecked bs 24 v"

definition arp_write_raw ::
    "bytes \<Rightarrow> u16 \<Rightarrow> u16 \<Rightarrow> u8 \<Rightarrow> u8 \<Rightarrow> u16 \<Rightarrow> MacAddr \<Rightarrow> Ipv4Addr \<Rightarrow> MacAddr \<Rightarrow> Ipv4Addr \<Rightarrow> (arp_error + bytes) option" where
  "arp_write_raw buf htype ptype hlen plen operation sha spa tha tpa =
     (if length buf \<noteq> ETH_IPV4_FRAME_LEN then Some (Inl SliceExactLen)
      else do {
        f \<leftarrow> arp_set_htype htype buf;
        f \<leftarrow> arp_set_ptype ptype f;
        f \<leftarrow> arp_set_hlen hlen f;
        f \<leftarrow> arp_set_plen plen f;
        f \<leftarrow> arp_set_operation operation f;
        f \<leftarrow> arp_set_sha sha f;
        f \<leftarrow> arp_set_spa spa f;
        f \<leftarrow> arp_set_tha tha f;
        f \<leftarrow> arp_set_tpa tpa f;
        Some (Inr f) })"

definition arp_write_request :: "bytes \<Rightarrow> MacAddr \<Rightarrow> Ipv4Addr \<Rightarrow> MacAddr \<Rightarrow> Ipv4Addr \<Rightarrow> (arp_error + bytes) option" where
  "arp_write_request buf sha spa tha tpa =
     arp_write_raw buf HTYPE_ETHERNET ETHERTYPE_IPV4 MAC_ADDR_LEN IPV4_ADDR_LEN OPER_REQUEST sha spa tha tpa"

definition arp_write_reply :: "bytes \<Rightarrow> MacAddr \<Rightarrow> Ipv4Addr \<Rightarrow> MacAddr \<Rightarrow> Ipv4Addr \<Rightarrow> (arp_error + bytes) option" where
  "arp_write_reply buf sha spa tha tpa =
     arp_write_raw buf HTYPE_ETHERNET ETHERTYPE_IPV4 MAC_ADDR_LEN IPV4_ADDR_LEN OPER_REPLY sha spa tha tpa"

definition arp_test_speculative_tpa :: "bytes \<Rightarrow> Ipv4Addr \<Rightarrow> bool option" where
  "arp_test_speculative_tpa buf addr =
     (if ETH_PAYLOAD_OFFSET + ETH_IPV4_FRAME_LEN \<le> length buf
      then do { a \<leftarrow> arp_tpa (drop ETH_PAYLOAD_OFFSET buf); Some (a = addr) }
      else Some False)"

section \<open>IPv4\<close>

abbreviation (input) IP4_OPTIONS_OFFSET :: nat where "IP4_OPTIONS_OFFSET \<equiv> 20"
abbreviation (input) IPV4_VERSION :: u8 where "IPV4_VERSION \<equiv> 4"
abbreviation (input) DEFAULT_TTL :: u8 where "DEFAULT_TTL \<equiv> 1"
abbreviation (input) PROTOCOL_TCP :: u8 where "PROTOCOL_TCP \<equiv> 0x06"
abbreviation (input) PROTOCOL_UDP :: u8 where "PROTOCOL_UDP \<equiv> 0x11"

datatype ip4_error = Ip4Checksum | Ip4HeaderLen | InvalidTotalLen | Ip4SliceExactLen | Ip4SliceTooShort | Version

definition ip4_version_and_header_len :: "bytes \<Rightarrow> (u8 \<times> nat) option" where
  "ip4_version_and_header_len bs = do {
     x \<leftarrow> idx bs 0;
     let ihl = x AND 0x0f;
     let header_len = unat (push_bit 2 ihl);
     Some (drop_bit 4 x, header_len) }"

definition ip4_header_len :: "bytes \<Rightarrow> nat option" where
  "ip4_header_len bs = map_option snd (ip4_version_and_header_len bs)"

definition ip4_dscp_and_ecn :: "bytes \<Rightarrow> (u8 \<times> u8) option" where
  "ip4_dscp_and_ecn bs = do { x \<leftarrow> idx bs 1; Some (drop_bit 2 x, x AND 0b11) }"

definition ip4_total_len :: "bytes \<Rightarrow> u16 option" where
  [pdu_defs]: "ip4_total_len bs = ntohs_unchecked bs 2"

definition ip4_identification :: "bytes \<Rightarrow> u16 option" where
  [pdu_defs]: "ip4_identification bs = ntohs_unchecked bs 4"

definition ip4_flags_and_fragment_offset :: "bytes \<Rightarrow> (u8 \<times> u16) option" where
  "ip4_flags_and_fragment_offset bs = do {
     x \<leftarrow> ntohs_unchecked bs 6;
     Some (ucast (drop_bit 13 x), x AND 0x1fff) }"

definition ip4_ttl :: "bytes \<Rightarrow> u8 option" where
  [pdu_defs]: "ip4_ttl bs = idx bs 8"

definition ip4_protocol :: "bytes \<Rightarrow> u8 option" where
  [pdu_defs]: "ip4_protocol bs = idx bs 9"

definition ip4_header_checksum :: "bytes \<Rightarrow> u16 option" where
  [pdu_defs]: "ip4_header_checksum bs = ntohs_unchecked bs 10"

definition ip4_source_address :: "bytes \<Rightarrow> Ipv4Addr option" where
  [pdu_defs]: "ip4_source_address bs = ntohl_unchecked bs 12"

definition ip4_destination_address :: "bytes \<Rightarrow> Ipv4Addr option" where
  [pdu_defs]: "ip4_destination_address bs = ntohl_unchecked bs 16"

definition ip4_payload_unchecked :: "bytes \<Rightarrow> nat \<Rightarrow> bytes option" where
  "ip4_payload_unchecked bs header_len = split_at_snd bs header_len"

definition ip4_payload :: "bytes \<Rightarrow> bytes option" where
  "ip4_payload bs = do { h \<leftarrow> ip4_header_len bs; ip4_payload_unchecked bs h }"

definition ip4_compute_checksum_unchecked :: "bytes \<Rightarrow> nat \<Rightarrow> u16 option" where
  "ip4_compute_checksum_unchecked bs header_len = do {
     sum \<leftarrow> sum_words bs [0..<header_len div 2] 0;
     Some (NOT (ucast (fold_carries sum))) }"

definition ip4_compute_checksum :: "bytes \<Rightarrow> u16 option" where
  "ip4_compute_checksum bs = do { h \<leftarrow> ip4_header_len bs; ip4_compute_checksum_unchecked bs h }"

definition ip4_from_bytes :: "bytes \<Rightarrow> bool \<Rightarrow> (ip4_error + bytes) option" where
  "ip4_from_bytes bs verify_checksum =
     (if length bs < IP4_OPTIONS_OFFSET then Some (Inl Ip4SliceTooShort)
      else do {
        (version, header_len) \<leftarrow> ip4_version_and_header_len bs;
        if version \<noteq> IPV4_VERSION then Some (Inl Version) else do {
        total_len \<leftarrow> map_option unat (ip4_total_len bs);
        if total_len < header_len then Some (Inl InvalidTotalLen)
        else if total_len \<noteq> length bs then Some (Inl Ip4SliceExactLen)
        else if header_len < IP4_OPTIONS_OFFSET then Some (Inl Ip4HeaderLen)
        else if verify_checksum then do {
          c \<leftarrow> ip4_compute_checksum_unchecked bs header_len;
          if c \<noteq> 0 then Some (Inl Ip4Checksum) else Some (Inr bs) }
        else Some (Inr bs) }})"

definition ip4_set_version_and_header_len :: "u8 \<Rightarrow> nat \<Rightarrow> bytes \<Rightarrow> bytes option" where
  "ip4_set_version_and_header_len version header_len bs = (
     let version = push_bit 4 version;
         ihl = drop_bit 2 (of_nat header_len) AND 0xf
     in set_idx bs 0 (version OR ihl))"

definition ip4_set_dscp_and_ecn :: "u8 \<Rightarrow> u8 \<Rightarrow> bytes \<Rightarrow> bytes option" where
  "ip4_set_dscp_and_ecn dscp ecn bs = set_idx bs 1 (push_bit 2 dscp OR ecn)"

definition ip4_set_total_len :: "u16 \<Rightarrow> bytes \<Rightarrow> bytes option" where
  [pdu_defs]: "ip4_set_total_len v bs = htons_unchecked bs 2 v"

definition ip4_set_identification :: "u16 \<Rightarrow> bytes \<Rightarrow> bytes option" where
  [pdu_defs]: "ip4_set_identification v bs = htons_unchecked bs 4 v"

definition ip4_set_flags_and_fragment_offset :: "u8 \<Rightarrow> u16 \<Rightarrow> bytes \<Rightarrow> bytes option" where
  "ip4_set_flags_and_fragment_offset flags fragment_offset bs =
     htons_unchecked bs 6 (push_bit 13 (ucast flags) OR fragment_offset)"

definition ip4_set_ttl :: "u8 \<Rightarrow> bytes \<Rightarrow> bytes option" where
  [pdu_defs]: "ip4_set_ttl v bs = set_idx bs 8 v"

definition ip4_set_protocol :: "u8 \<Rightarrow> bytes \<Rightarrow> bytes option" where
  [pdu_defs]: "ip4_set_protocol v bs = set_idx bs 9 v"

definition ip4_set_header_checksum :: "u16 \<Rightarrow> bytes \<Rightarrow> bytes option" where
  [pdu_defs]: "ip4_set_header_checksum v bs = htons_unchecked bs 10 v"

definition ip4_set_source_address :: "Ipv4Addr \<Rightarrow> bytes \<Rightarrow> bytes option" where
  [pdu_defs]: "ip4_set_source_address v bs = htonl_unchecked bs 12 v"

definition ip4_set_destination_address :: "Ipv4Addr \<Rightarrow> bytes \<Rightarrow> bytes option" where
  [pdu_defs]: "ip4_set_destination_address v bs = htonl_unchecked bs 16 v"

definition ip4_write_header :: "bytes \<Rightarrow> u8 \<Rightarrow> Ipv4Addr \<Rightarrow> Ipv4Addr \<Rightarrow> (ip4_error + bytes) option" where
  "ip4_write_header buf protocol src_addr dst_addr =
     (if length buf < IP4_OPTIONS_OFFSET then Some (Inl Ip4SliceTooShort)
      else do {
        p \<leftarrow> ip4_set_version_and_header_len IPV4_VERSION IP4_OPTIONS_OFFSET buf;
        p \<leftarrow> ip4_set_dscp_and_ecn 0 0 p;
        p \<leftarrow> ip4_set_identification 0 p;
        p \<leftarrow> ip4_set_flags_and_fragment_offset 0 0 p;
        p \<leftarrow> ip4_set_ttl DEFAULT_TTL p;
        p \<leftarrow> ip4_set_protocol protocol p;
        p \<leftarrow> ip4_set_source_address src_addr p;
        p \<leftarrow> ip4_set_destination_address dst_addr p;
        Some (Inr p) })"

text \<open>\<^verbatim>\<open>payload_mut\<close>: the payload of an incomplete packet, to be replaced by what is written to it.\<close>

definition ip4_put_payload :: "bytes \<Rightarrow> bytes \<Rightarrow> bytes option" where
  "ip4_put_payload p pl = do { h \<leftarrow> ip4_header_len p; copy_to p h pl }"

definition ip4_with_header_and_payload_len_unchecked :: "bytes \<Rightarrow> nat \<Rightarrow> nat \<Rightarrow> bool \<Rightarrow> bytes option" where
  "ip4_with_header_and_payload_len_unchecked p header_len payload_len csum = do {
     let total_len = header_len + payload_len;
     p \<leftarrow> shrink_unchecked p total_len;
     p \<leftarrow> ip4_set_total_len (of_nat total_len) p;
     if csum then do {
       p \<leftarrow> ip4_set_header_checksum 0 p;
       checksum \<leftarrow> ip4_compute_checksum_unchecked p header_len;
       ip4_set_header_checksum checksum p }
     else Some p }"

definition ip4_with_options_and_payload_len_unchecked :: "bytes \<Rightarrow> nat \<Rightarrow> nat \<Rightarrow> bool \<Rightarrow> bytes option" where
  "ip4_with_options_and_payload_len_unchecked p options_len payload_len csum =
     ip4_with_header_and_payload_len_unchecked p (IP4_OPTIONS_OFFSET + options_len) payload_len csum"

definition ip4_with_payload_len_unchecked :: "bytes \<Rightarrow> nat \<Rightarrow> bool \<Rightarrow> bytes option" where
  "ip4_with_payload_len_unchecked p payload_len csum = do {
     header_len \<leftarrow> ip4_header_len p;
     ip4_with_header_and_payload_len_unchecked p header_len payload_len csum }"

definition ip4_test_speculative_dst_addr :: "bytes \<Rightarrow> Ipv4Addr \<Rightarrow> bool option" where
  "ip4_test_speculative_dst_addr buf addr =
     (if ETH_PAYLOAD_OFFSET + IP4_OPTIONS_OFFSET \<le> length buf
      then do { a \<leftarrow> ip4_destination_address (drop ETH_PAYLOAD_OFFSET buf); Some (a = addr) }
      else Some False)"

section \<open>UDP\<close>

abbreviation (input) UDP_HEADER_SIZE :: nat where "UDP_HEADER_SIZE \<equiv> 8"
abbreviation (input) IPV4_MAX_UDP_PACKET_SIZE :: nat where "IPV4_MAX_UDP_PACKET_SIZE \<equiv> 65507"

datatype udp_error = UdpChecksum | DatagramTooShort | PayloadTooBig

definition udp_source_port :: "bytes \<Rightarrow> u16 option" where
  [pdu_defs]: "udp_source_port bs = ntohs_unchecked bs 0"

definition udp_destination_port :: "bytes \<Rightarrow> u16 option" where
  [pdu_defs]: "udp_destination_port bs = ntohs_unchecked bs 2"

definition udp_len :: "bytes \<Rightarrow> u16 option" where
  [pdu_defs]: "udp_len bs = ntohs_unchecked bs 4"

definition udp_checksum :: "bytes \<Rightarrow> u16 option" where
  [pdu_defs]: "udp_checksum bs = ntohs_unchecked bs 6"

definition udp_payload :: "bytes \<Rightarrow> bytes option" where
  "udp_payload bs = split_at_snd bs 8"

definition udp_compute_checksum :: "bytes \<Rightarrow> Ipv4Addr \<Rightarrow> Ipv4Addr \<Rightarrow> u16 option" where
  "udp_compute_checksum bs src_addr dst_addr = compute_checksum bs src_addr dst_addr Udp"

definition udp_from_bytes :: "bytes \<Rightarrow> (Ipv4Addr \<times> Ipv4Addr) option \<Rightarrow> (udp_error + bytes) option" where
  "udp_from_bytes bs verify_checksum =
     (if length bs < UDP_HEADER_SIZE then Some (Inl DatagramTooShort)
      else case verify_checksum of
        Some (src_addr, dst_addr) \<Rightarrow> do {
          c \<leftarrow> udp_checksum bs;
          if c \<noteq> 0 then do {
            s \<leftarrow> udp_compute_checksum bs src_addr dst_addr;
            if s \<noteq> 0xffff then Some (Inl UdpChecksum) else Some (Inr bs) }
          else Some (Inr bs) }
      | None \<Rightarrow> Some (Inr bs))"

definition udp_set_source_port :: "u16 \<Rightarrow> bytes \<Rightarrow> bytes option" where
  [pdu_defs]: "udp_set_source_port v bs = htons_unchecked bs 0 v"

definition udp_set_destination_port :: "u16 \<Rightarrow> bytes \<Rightarrow> bytes option" where
  [pdu_defs]: "udp_set_destination_port v bs = htons_unchecked bs 2 v"

definition udp_set_len :: "u16 \<Rightarrow> bytes \<Rightarrow> bytes option" where
  [pdu_defs]: "udp_set_len v bs = htons_unchecked bs 4 v"

definition udp_set_checksum :: "u16 \<Rightarrow> bytes \<Rightarrow> bytes option" where
  [pdu_defs]: "udp_set_checksum v bs = htons_unchecked bs 6 v"

text \<open>\<^verbatim>\<open>payload_mut().copy_from_slice(payload)\<close>, which panics unless the lengths agree.\<close>

definition udp_put_payload :: "bytes \<Rightarrow> bytes \<Rightarrow> bytes option" where
  "udp_put_payload p payload =
     (if length p = 8 + length payload then copy_to p 8 payload else None)"

definition udp_write_incomplete_datagram :: "bytes \<Rightarrow> bytes \<Rightarrow> (udp_error + bytes) option" where
  "udp_write_incomplete_datagram buf payload = do {
     r \<leftarrow> udp_from_bytes buf None;
     case r of Inl e \<Rightarrow> Some (Inl e)
     | Inr packet \<Rightarrow> do {
         let len = length payload + UDP_HEADER_SIZE;
         if len > IPV4_MAX_UDP_PACKET_SIZE then Some (Inl PayloadTooBig)
         else do {
           p \<leftarrow> shrink_unchecked packet len;
           p \<leftarrow> udp_put_payload p payload;
           p \<leftarrow> udp_set_len (of_nat len) p;
           Some (Inr p) } } }"

definition udp_finalize :: "bytes \<Rightarrow> u16 \<Rightarrow> u16 \<Rightarrow> (Ipv4Addr \<times> Ipv4Addr) option \<Rightarrow> bytes option" where
  "udp_finalize p src_port dst_port csum = do {
     p \<leftarrow> udp_set_source_port src_port p;
     p \<leftarrow> udp_set_destination_port dst_port p;
     p \<leftarrow> udp_set_checksum 0 p;
     case csum of
       Some (src_addr, dst_addr) \<Rightarrow> do {
         checksum \<leftarrow> udp_compute_checksum p src_addr dst_addr;
         udp_set_checksum checksum p }
     | None \<Rightarrow> Some p }"

section \<open>What is written is read back\<close>

lemma mac_length [simp]: "length (mac_get_bytes m) = 6"
  by (cases m) simp

lemma mac_read [simp]: "mac_from_bytes_unchecked (mac_get_bytes m) = Some m"
  by (cases m) (simp add: mac_from_bytes_unchecked_def)

lemma eth_written:
  assumes "14 + length pl \<le> length buf"
  shows "\<exists>h q f. eth_write_incomplete buf dst src ty = Some (Inr h) \<and> length h = length buf \<and> drop 14 h = drop 14 buf \<and>
    eth_put_payload h pl = Some q \<and> eth_with_payload_len_unchecked q (length pl) = Some f \<and>
    length f = 14 + length pl \<and> eth_from_bytes f = Inr f \<and>
    eth_dst_mac f = Some dst \<and> eth_src_mac f = Some src \<and> eth_ethertype f = Some ty \<and> eth_payload f = Some pl"
  using assms
  by (simp add: eth_write_incomplete_def eth_new_with_header_def eth_put_payload_def eth_with_payload_len_unchecked_def
      shrink_unchecked_def eth_from_bytes_def eth_payload_def split_at_snd_def pdu_defs net_simps)

lemma arp_written:
  assumes "length buf = 28"
  shows "\<exists>f. arp_write_request buf sha spa tha tpa = Some (Inr f) \<and> length f = 28 \<and> arp_request_from_bytes f = Some (Inr f) \<and>
      arp_sha f = Some sha \<and> arp_spa f = Some spa \<and> arp_tha f = Some tha \<and> arp_tpa f = Some tpa"
    and "\<exists>f. arp_write_reply buf sha spa tha tpa = Some (Inr f) \<and> length f = 28 \<and> arp_operation f = Some OPER_REPLY \<and>
      arp_request_from_bytes f = Some (Inl Operation) \<and>
      arp_sha f = Some sha \<and> arp_spa f = Some spa \<and> arp_tha f = Some tha \<and> arp_tpa f = Some tpa"
  using assms
  by (simp_all add: arp_write_request_def arp_write_reply_def arp_write_raw_def arp_request_from_bytes_def pdu_defs net_simps)

lemma ip4_checksum_eq:
  assumes "header_len \<le> length bs" "even header_len" "header_len \<le> 60"
  shows "ip4_compute_checksum_unchecked bs header_len = Some (csum_of (wsum (take header_len bs)))"
proof -
  have e: "2 * (header_len div 2) = header_len" using assms by simp
  have "wsum (take header_len bs) < 2 ^ 32"
    using order_trans [OF wsum_bound [of "take header_len bs"], of "65535 * 31"] assms
      div_le_mono [OF assms(3), of 2] by simp
  then show ?thesis using sum_words_eq [of "header_len div 2" bs 0] assms
    by (auto simp: ip4_compute_checksum_unchecked_def e not_fold_carries)
qed

lemma ip4_filled:
  assumes "20 \<le> length p" "p1 = upd p 10 (be16 0)" "c = csum_of (wsum (take 20 p1))"
  shows "ip4_compute_checksum_unchecked (upd p1 10 (be16 c)) 20 = Some 0"
proof -
  have l: "length p1 = length p" "ntohs_unchecked p1 10 = Some 0" using assms by (simp_all add: net_simps)
  then have z: "ntohs_unchecked (take 20 p1) 10 = Some 0"
    using assms(1) by (simp add: read_def drop_take min_def)
  have "wsum (take 20 (upd p1 10 (be16 c))) = wsum (take 20 p1) + unat c"
    using assms(1) l wsum_upd [OF _ _ z, of c] by (simp add: net_simps)
  then show ?thesis using assms(1,3) l csum_fills [of "wsum (take 20 p1)"] by (simp add: ip4_checksum_eq)
qed

lemma ip4_first_byte: "push_bit 4 4 OR (drop_bit 2 20 AND 0xf) = (0x45 :: u8)" "unat (push_bit 2 (0x45 AND 0x0f :: u8)) = 20"
  "drop_bit 4 (0x45 :: u8) = 4"
  by code_simp+

lemma ip4_written:
  assumes "20 + length pl \<le> length buf" "20 + length pl \<le> 65535"
  shows "\<exists>h q p. ip4_write_header buf proto src dst = Some (Inr h) \<and> length h = length buf \<and> drop 20 h = drop 20 buf \<and>
    ip4_header_len h = Some 20 \<and>
    ip4_put_payload h pl = Some q \<and> ip4_with_payload_len_unchecked q (length pl) True = Some p \<and>
    length p = 20 + length pl \<and> ip4_from_bytes p True = Some (Inr p) \<and> ip4_protocol p = Some proto \<and>
    ip4_source_address p = Some src \<and> ip4_destination_address p = Some dst \<and> ip4_payload p = Some pl"
proof -
  obtain h where h: "ip4_write_header buf proto src dst = Some (Inr h)" "length h = length buf" "drop 20 h = drop 20 buf"
      "idx h 0 = Some 0x45" "idx h 9 = Some proto" "ntohl_unchecked h 12 = Some src" "ntohl_unchecked h 16 = Some dst"
    using assms by (simp add: ip4_write_header_def ip4_set_version_and_header_len_def ip4_set_dscp_and_ecn_def
        ip4_set_flags_and_fragment_offset_def Let_def ip4_first_byte pdu_defs net_simps)
  then have hl: "ip4_header_len h = Some 20"
    by (simp add: ip4_header_len_def ip4_version_and_header_len_def Let_def ip4_first_byte)
  define q where "q = upd h 20 pl"
  have q: "ip4_put_payload h pl = Some q" "length q = length buf" "idx q 0 = Some 0x45"
    using assms h hl by (simp_all add: ip4_put_payload_def q_def net_simps)
  define r where "r = upd (take (20 + length pl) q) 2 (be16 (of_nat (20 + length pl)))"
  define p1 where "p1 = upd r 10 (be16 0)"
  define c where "c = csum_of (wsum (take 20 p1))"
  define p where "p = upd p1 10 (be16 c)"
  have r: "length r = 20 + length pl" "idx r 0 = Some 0x45" "ip4_total_len r = Some (of_nat (20 + length pl))"
      "idx r 9 = Some proto" "ntohl_unchecked r 12 = Some src" "ntohl_unchecked r 16 = Some dst" "drop 20 r = pl"
    using assms h q(2) by (simp_all add: r_def q_def pdu_defs net_simps)
  have hq: "ip4_header_len q = Some 20"
    using q by (simp add: ip4_header_len_def ip4_version_and_header_len_def Let_def ip4_first_byte)
  have "ip4_compute_checksum_unchecked p1 20 = Some c" "length p1 = 20 + length pl"
    using r by (simp_all add: p1_def c_def ip4_checksum_eq)
  then have w: "ip4_with_payload_len_unchecked q (length pl) True = Some p"
    using assms q r hq by (simp add: ip4_with_payload_len_unchecked_def ip4_with_header_and_payload_len_unchecked_def
        Let_def shrink_unchecked_def pdu_defs net_simps r_def p1_def p_def)
  have p: "length p = 20 + length pl" "idx p 0 = Some 0x45" "ip4_total_len p = Some (of_nat (20 + length pl))"
      "idx p 9 = Some proto" "ntohl_unchecked p 12 = Some src" "ntohl_unchecked p 16 = Some dst" "drop 20 p = pl"
    using r by (simp_all add: p_def p1_def pdu_defs net_simps)
  have "ip4_compute_checksum_unchecked p 20 = Some 0"
    unfolding p_def by (rule ip4_filled [OF _ p1_def c_def]) (simp add: r)
  moreover have "unat (of_nat (20 + length pl) :: u16) = 20 + length pl"
    using assms(2) by (intro unat_of_nat_small) simp
  ultimately have "ip4_from_bytes p True = Some (Inr p)"
    using p assms by (simp add: ip4_from_bytes_def ip4_version_and_header_len_def Let_def ip4_first_byte)
  then show ?thesis using h hl q w p
    by (simp add: ip4_payload_def ip4_payload_unchecked_def ip4_header_len_def ip4_version_and_header_len_def Let_def
        ip4_first_byte split_at_snd_def pdu_defs)
qed


lemma udp_written:
  assumes "8 + length pl \<le> length buf" "8 + length pl \<le> 65507"
  shows "\<exists>h p. udp_write_incomplete_datagram buf pl = Some (Inr h) \<and>
    udp_finalize h sp dp (Some (src, dst)) = Some p \<and> length p = 8 + length pl \<and>
    udp_from_bytes p (Some (src, dst)) = Some (Inr p) \<and> udp_checksum p \<noteq> Some 0 \<and>
    udp_source_port p = Some sp \<and> udp_destination_port p = Some dp \<and>
    udp_len p = Some (of_nat (8 + length pl)) \<and> udp_payload p = Some pl"
proof -
  define h where "h = upd (upd (take (8 + length pl) buf) 8 pl) 4 (be16 (of_nat (8 + length pl)))"
  have h: "udp_write_incomplete_datagram buf pl = Some (Inr h)" "length h = 8 + length pl"
    using assms by (simp_all add: udp_write_incomplete_datagram_def udp_from_bytes_def shrink_unchecked_def
        udp_put_payload_def h_def Let_def pdu_defs net_simps add.commute)
  define p1 where "p1 = upd (upd (upd h 0 (be16 sp)) 2 (be16 dp)) 6 (be16 0)"
  define c where "c = (let c = csum_of (pseudo_sum p1 src dst Udp) in if c = 0 then - 1 else c)"
  define p where "p = upd p1 6 (be16 c)"
  have l: "length p1 = 8 + length pl" "length p = 8 + length pl" using h by (simp_all add: p1_def p_def)
  then have "udp_compute_checksum p1 src dst = Some c" using assms
    by (simp add: udp_compute_checksum_def compute_checksum_eq c_def)
  then have f: "udp_finalize h sp dp (Some (src, dst)) = Some p"
    using h l by (simp add: udp_finalize_def p1_def p_def pdu_defs net_simps)
  have "pseudo_sum p src dst Udp = pseudo_sum p1 src dst Udp + unat c"
    using l wsum_upd [of 6 p1 c] h by (simp add: pseudo_sum_def p_def p1_def net_simps)
  moreover have "csum_of (pseudo_sum p1 src dst Udp + unat c) = 0"
    using csum_fills [of "pseudo_sum p1 src dst Udp"] csum_fills_ones [of "pseudo_sum p1 src dst Udp"]
    by (auto simp: c_def Let_def unsigned_minus_1_eq_mask mask_eq_exp_minus_1)
  ultimately have "udp_compute_checksum p src dst = Some 0xffff"
    using assms l by (simp add: udp_compute_checksum_def compute_checksum_eq)
  moreover have "udp_checksum p = Some c" using l by (simp add: p_def pdu_defs net_simps)
  moreover have "c \<noteq> 0" by (simp add: c_def Let_def)
  ultimately show ?thesis using f h l
    by (simp add: udp_from_bytes_def udp_payload_def split_at_snd_def)
       (simp add: p_def p1_def h_def pdu_defs net_simps assms)
qed

section \<open>Parsers on arbitrary bytes\<close>

lemma ip4_header_len_eq: "idx bs 0 = Some x \<Longrightarrow> ip4_version_and_header_len bs = Some (drop_bit 4 x, 4 * (unat x mod 16))"
proof -
  have "x AND 0x0f = take_bit 4 x" by (simp add: take_bit_eq_mask mask_eq_exp_minus_1)
  then have m: "unat (x AND 0x0f) = unat x mod 16"
    using unsigned_take_bit_eq [of 4 x, where ?'a = nat] by (simp add: take_bit_eq_mod [of 4 "unat x"])
  have "unat (push_bit 2 (x AND 0x0f)) = take_bit 8 (push_bit 2 (unat (x AND 0x0f)))"
    using unsigned_push_bit_eq [of 2 "x AND 0x0f", where ?'a = nat] by simp
  also have "\<dots> = 4 * (unat x mod 16)"
    unfolding m by (subst take_bit_nat_eq_self) (simp_all add: push_bit_eq_mult)
  finally show "idx bs 0 = Some x \<Longrightarrow> ip4_version_and_header_len bs = Some (drop_bit 4 x, 4 * (unat x mod 16))"
    by (simp add: ip4_version_and_header_len_def Let_def)
qed

lemma ip4_from_bytes_total: "ip4_from_bytes bs v \<noteq> None"
proof (cases "length bs < 20")
  case True
  then show ?thesis by (simp add: ip4_from_bytes_def)
next
  case False
  then have "idx bs 0 = Some (bs ! 0)" by (cases bs) (simp_all add: idx_def)
  note hl = ip4_header_len_eq [OF this]
  have "4 * (unat (bs ! 0) mod 16) \<le> 60" by (simp add: mult_le_mono2 [of _ 15 4, simplified] less_Suc_eq_le [symmetric])
  then show ?thesis using False
    by (auto simp: ip4_from_bytes_def hl ip4_total_len_def ntohs_unchecked_def ip4_checksum_eq)
qed

lemma ip4_accepted:
  assumes "ip4_from_bytes bs v = Some (Inr p)"
  obtains h where "p = bs" "ip4_header_len bs = Some h" "20 \<le> h" "h \<le> 60" "h \<le> length bs" "length bs \<le> 65535"
    "ip4_total_len bs = Some (of_nat (length bs))" "ip4_payload bs = Some (drop h bs)"
proof -
  have l: "20 \<le> length bs" using assms by (auto simp: ip4_from_bytes_def split: if_split_asm)
  then have "idx bs 0 = Some (bs ! 0)" by (cases bs) (simp_all add: idx_def)
  note hl = ip4_header_len_eq [OF this]
  define h where "h = 4 * (unat (bs ! 0) mod 16)"
  obtain t where t: "ip4_total_len bs = Some t" "unat t = length bs" "h \<le> unat t" "20 \<le> h" "p = bs"
    using assms l by (auto simp: ip4_from_bytes_def hl h_def elim!: bindE split: if_split_asm)
  have "unat t < 65536" by (rule order_less_le_trans [OF unsigned_less]) simp
  moreover have "h \<le> 60" by (simp add: h_def mult_le_mono2 [of _ 15 4, simplified] less_Suc_eq_le [symmetric])
  moreover have "t = of_nat (length bs)" using eq_of_nat_unat [OF t(2)] .
  moreover have "ip4_header_len bs = Some h" by (simp add: ip4_header_len_def hl h_def)
  moreover from this have "ip4_payload bs = Some (drop h bs)"
    using t by (simp add: ip4_payload_def ip4_payload_unchecked_def split_at_snd_def)
  ultimately show ?thesis using t by (intro that) auto
qed

lemma mac_from_slice: "length xs = 6 \<Longrightarrow> \<exists>m. mac_from_bytes_unchecked xs = Some m \<and> mac_get_bytes m = xs"
  by (auto simp: mac_from_bytes_unchecked_def length_Suc_conv numeral_eq_Suc)

lemma arp_from_bytes_total: "arp_request_from_bytes bs \<noteq> None"
  by (auto simp: arp_request_from_bytes_def pdu_defs ntohs_unchecked_def idx_def)

lemma arp_accepted:
  assumes "arp_request_from_bytes bs = Some (Inr f)"
  shows "f = bs \<and> length bs = 28 \<and> arp_operation bs = Some OPER_REQUEST \<and>
    (\<exists>sha spa tha tpa. arp_sha bs = Some sha \<and> arp_spa bs = Some spa \<and> arp_tha bs = Some tha \<and> arp_tpa bs = Some tpa)"
proof -
  have l: "length bs = 28" "f = bs" "arp_operation bs = Some OPER_REQUEST"
    using assms by (auto simp: arp_request_from_bytes_def elim!: bindE split: if_split_asm)
  then show ?thesis
    using mac_from_slice [of "take 6 (drop 8 bs)"] mac_from_slice [of "take 6 (drop 18 bs)"]
    by (auto simp: pdu_defs subslice_def ntohl_unchecked_def)
qed

lemma udp_from_bytes_total: "length bs \<le> 100000 \<Longrightarrow> udp_from_bytes bs v \<noteq> None"
  by (auto simp: udp_from_bytes_def pdu_defs ntohs_unchecked_def udp_compute_checksum_def compute_checksum_eq split: option.split)

lemma speculative_total: "arp_test_speculative_tpa f a \<noteq> None" "ip4_test_speculative_dst_addr f a \<noteq> None"
  by (auto simp: arp_test_speculative_tpa_def ip4_test_speculative_dst_addr_def pdu_defs ntohl_unchecked_def)

text \<open>The fields of what the parsers accept lie inside the packet.\<close>

lemma eth_accepted:
  assumes "eth_from_bytes f = Inr g"
  shows "g = f \<and> 14 \<le> length f \<and> eth_payload f = Some (drop 14 f) \<and>
    (\<exists>d s t. eth_dst_mac f = Some d \<and> eth_src_mac f = Some s \<and> eth_ethertype f = Some t)"
proof -
  have l: "g = f" "14 \<le> length f" using assms by (auto simp: eth_from_bytes_def split: if_split_asm)
  obtain d s where "mac_from_bytes_unchecked (take 6 f) = Some d" "mac_from_bytes_unchecked (take 6 (drop 6 f)) = Some s"
    using mac_from_slice [of "take 6 f"] mac_from_slice [of "take 6 (drop 6 f)"] l(2) by auto
  then show ?thesis using l by (simp add: pdu_defs eth_payload_def split_at_snd_def subslice_def ntohs_unchecked_def)
qed

lemma udp_accepted:
  assumes "udp_from_bytes bs v = Some (Inr u)"
  shows "u = bs \<and> 8 \<le> length bs \<and> udp_payload bs = Some (drop 8 bs) \<and>
    (\<exists>sp dp n c. udp_source_port bs = Some sp \<and> udp_destination_port bs = Some dp \<and> udp_len bs = Some n \<and>
      udp_checksum bs = Some c)"
proof -
  have "u = bs \<and> 8 \<le> length bs"
    using assms by (auto simp: udp_from_bytes_def elim!: bindE split: if_split_asm option.split_asm)
  then show ?thesis by (simp add: pdu_defs udp_payload_def split_at_snd_def ntohs_unchecked_def)
qed

lemma ip4_fields:
  assumes "20 \<le> length bs"
  shows "\<exists>src dst proto ttl. ip4_source_address bs = Some src \<and> ip4_destination_address bs = Some dst \<and>
    ip4_protocol bs = Some proto \<and> ip4_ttl bs = Some ttl"
  using assms by (simp add: pdu_defs ntohl_unchecked_def idx_def)

text \<open>The tests on the raw frame have no false negatives.\<close>

lemma arp_speculative:
  assumes "eth_payload f = Some a" "arp_request_from_bytes a = Some (Inr r)" "arp_tpa a = Some addr"
  shows "arp_test_speculative_tpa f addr = Some True"
  using assms arp_accepted [OF assms(2)]
  by (auto simp: arp_test_speculative_tpa_def eth_payload_def split_at_snd_def split: if_split_asm)

lemma ip4_speculative:
  assumes "eth_payload f = Some p" "ip4_from_bytes p v = Some (Inr r)" "ip4_destination_address p = Some addr"
  shows "ip4_test_speculative_dst_addr f addr = Some True"
proof -
  obtain h where "20 \<le> h" "h \<le> length p" by (rule ip4_accepted [OF assms(2)])
  then show ?thesis using assms
    by (auto simp: ip4_test_speculative_dst_addr_def eth_payload_def split_at_snd_def split: if_split_asm)
qed

end
