(* ===== verification/Dumbo_Segment.thy ===== *)
theory Dumbo_Segment
  imports Dumbo_Pdu
begin

text \<open>
  TCP segments, \<open>src/firecracker/src/dumbo/src/pdu/tcp.rs\<close>. The source buffer of a payload
  (\<^verbatim>\<open>ByteBuffer\<close>, implemented for byte slices in \<open>src/firecracker/src/dumbo/src/lib.rs\<close>) is a list of bytes.
  The parser of the options is a partial function: \<^const>\<open>None\<close> also stands for a run that does not end.
\<close>

abbreviation (input) TCP_OPTIONS_OFFSET :: nat where "TCP_OPTIONS_OFFSET \<equiv> 20"
abbreviation (input) MAX_HEADER_LEN :: nat where "MAX_HEADER_LEN \<equiv> 60"
abbreviation (input) OPTION_KIND_EOL :: u8 where "OPTION_KIND_EOL \<equiv> 0"
abbreviation (input) OPTION_KIND_NOP :: u8 where "OPTION_KIND_NOP \<equiv> 1"
abbreviation (input) OPTION_KIND_MSS :: u8 where "OPTION_KIND_MSS \<equiv> 2"
abbreviation (input) OPTION_LEN_MSS :: nat where "OPTION_LEN_MSS \<equiv> 4"
abbreviation (input) MSS_MIN :: u16 where "MSS_MIN \<equiv> 100"

text \<open>\<^verbatim>\<open>Flags\<close>: every bit of the byte is a flag, so \<^verbatim>\<open>from_bits_truncate\<close> is the identity.\<close>

abbreviation (input) FLAG_URG :: u8 where "FLAG_URG \<equiv> 0x20"
abbreviation (input) FLAG_ACK :: u8 where "FLAG_ACK \<equiv> 0x10"
abbreviation (input) FLAG_PSH :: u8 where "FLAG_PSH \<equiv> 0x08"
abbreviation (input) FLAG_RST :: u8 where "FLAG_RST \<equiv> 0x04"
abbreviation (input) FLAG_SYN :: u8 where "FLAG_SYN \<equiv> 0x02"
abbreviation (input) FLAG_FIN :: u8 where "FLAG_FIN \<equiv> 0x01"

datatype tcp_error = TcpChecksum | EmptyPayload | TcpHeaderLen | MssOption | MssRemaining | TcpSliceTooShort

definition tcp_source_port :: "bytes \<Rightarrow> u16 option" where
  [pdu_defs]: "tcp_source_port bs = ntohs_unchecked bs 0"

definition tcp_destination_port :: "bytes \<Rightarrow> u16 option" where
  [pdu_defs]: "tcp_destination_port bs = ntohs_unchecked bs 2"

definition tcp_sequence_number :: "bytes \<Rightarrow> u32 option" where
  [pdu_defs]: "tcp_sequence_number bs = ntohl_unchecked bs 4"

definition tcp_ack_number :: "bytes \<Rightarrow> u32 option" where
  [pdu_defs]: "tcp_ack_number bs = ntohl_unchecked bs 8"

definition tcp_header_len_rsvd_ns :: "bytes \<Rightarrow> (nat \<times> u8 \<times> bool) option" where
  "tcp_header_len_rsvd_ns bs = do {
     value \<leftarrow> idx bs 12;
     let data_offset = drop_bit 4 value;
     let header_len = unat data_offset * 4;
     let rsvd = value AND 0x0e;
     let ns = (value AND 1) \<noteq> 0;
     Some (header_len, rsvd, ns) }"

definition tcp_header_len :: "bytes \<Rightarrow> nat option" where
  "tcp_header_len bs = map_option fst (tcp_header_len_rsvd_ns bs)"

definition tcp_flags_after_ns :: "bytes \<Rightarrow> u8 option" where
  [pdu_defs]: "tcp_flags_after_ns bs = idx bs 13"

definition tcp_window_size :: "bytes \<Rightarrow> u16 option" where
  [pdu_defs]: "tcp_window_size bs = ntohs_unchecked bs 14"

definition tcp_checksum :: "bytes \<Rightarrow> u16 option" where
  [pdu_defs]: "tcp_checksum bs = ntohs_unchecked bs 16"

definition tcp_urgent_pointer :: "bytes \<Rightarrow> u16 option" where
  [pdu_defs]: "tcp_urgent_pointer bs = ntohs_unchecked bs 18"

definition tcp_options_unchecked :: "bytes \<Rightarrow> nat \<Rightarrow> bytes option" where
  "tcp_options_unchecked bs header_len = subslice bs TCP_OPTIONS_OFFSET header_len"

definition tcp_payload_unchecked :: "bytes \<Rightarrow> nat \<Rightarrow> bytes option" where
  "tcp_payload_unchecked bs header_len = split_at_snd bs header_len"

definition tcp_payload :: "bytes \<Rightarrow> bytes option" where
  "tcp_payload bs = do { h \<leftarrow> tcp_header_len bs; tcp_payload_unchecked bs h }"

definition tcp_payload_len :: "bytes \<Rightarrow> nat option" where
  "tcp_payload_len bs = do { h \<leftarrow> tcp_header_len bs; if h \<le> length bs then Some (length bs - h) else None }"

definition tcp_compute_checksum :: "bytes \<Rightarrow> Ipv4Addr \<Rightarrow> Ipv4Addr \<Rightarrow> u16 option" where
  "tcp_compute_checksum bs src_addr dst_addr = compute_checksum bs src_addr dst_addr Tcp"

partial_function (option) mss_loop :: "bytes \<Rightarrow> nat \<Rightarrow> (tcp_error + u16 option) option" where
  "mss_loop b i =
     (if i + 3 < length b then
        if b ! i = OPTION_KIND_EOL then Some (Inr None)
        else if b ! i = OPTION_KIND_NOP then mss_loop b (i + 1)
        else if b ! i = OPTION_KIND_MSS then do {
          mss \<leftarrow> ntohs_unchecked b (i + 2);
          if mss < MSS_MIN then Some (Inl MssOption) else Some (Inr (Some mss)) }
        else mss_loop b (i + unat (b ! (i + 1)))
      else Some (Inr None))"

definition tcp_parse_mss_option_unchecked :: "bytes \<Rightarrow> nat \<Rightarrow> (tcp_error + u16 option) option" where
  "tcp_parse_mss_option_unchecked bs header_len = do {
     b \<leftarrow> tcp_options_unchecked bs header_len;
     mss_loop b 0 }"

definition tcp_from_bytes :: "bytes \<Rightarrow> (Ipv4Addr \<times> Ipv4Addr) option \<Rightarrow> (tcp_error + bytes) option" where
  "tcp_from_bytes bs verify_checksum =
     (if length bs < TCP_OPTIONS_OFFSET then Some (Inl TcpSliceTooShort)
      else do {
        header_len \<leftarrow> tcp_header_len bs;
        if header_len < TCP_OPTIONS_OFFSET \<or> header_len > min MAX_HEADER_LEN (length bs)
        then Some (Inl TcpHeaderLen)
        else case verify_checksum of
          Some (src_addr, dst_addr) \<Rightarrow> do {
            c \<leftarrow> tcp_compute_checksum bs src_addr dst_addr;
            if c \<noteq> 0 then Some (Inl TcpChecksum) else Some (Inr bs) }
        | None \<Rightarrow> Some (Inr bs) })"

definition tcp_set_source_port :: "u16 \<Rightarrow> bytes \<Rightarrow> bytes option" where
  [pdu_defs]: "tcp_set_source_port v bs = htons_unchecked bs 0 v"

definition tcp_set_destination_port :: "u16 \<Rightarrow> bytes \<Rightarrow> bytes option" where
  [pdu_defs]: "tcp_set_destination_port v bs = htons_unchecked bs 2 v"

definition tcp_set_sequence_number :: "u32 \<Rightarrow> bytes \<Rightarrow> bytes option" where
  [pdu_defs]: "tcp_set_sequence_number v bs = htonl_unchecked bs 4 v"

definition tcp_set_ack_number :: "u32 \<Rightarrow> bytes \<Rightarrow> bytes option" where
  [pdu_defs]: "tcp_set_ack_number v bs = htonl_unchecked bs 8 v"

definition tcp_set_header_len_rsvd_ns :: "nat \<Rightarrow> bool \<Rightarrow> bytes \<Rightarrow> bytes option" where
  "tcp_set_header_len_rsvd_ns header_len ns bs = (
     let value = push_bit 2 (of_nat header_len) :: u8;
         value = (if ns then value OR 1 else value)
     in set_idx bs 12 value)"

definition tcp_set_flags_after_ns :: "u8 \<Rightarrow> bytes \<Rightarrow> bytes option" where
  [pdu_defs]: "tcp_set_flags_after_ns v bs = set_idx bs 13 v"

definition tcp_set_window_size :: "u16 \<Rightarrow> bytes \<Rightarrow> bytes option" where
  [pdu_defs]: "tcp_set_window_size v bs = htons_unchecked bs 14 v"

definition tcp_set_checksum :: "u16 \<Rightarrow> bytes \<Rightarrow> bytes option" where
  [pdu_defs]: "tcp_set_checksum v bs = htons_unchecked bs 16 v"

definition tcp_set_urgent_pointer :: "u16 \<Rightarrow> bytes \<Rightarrow> bytes option" where
  [pdu_defs]: "tcp_set_urgent_pointer v bs = htons_unchecked bs 18 v"

definition byte_buffer_read_to_slice :: "bytes \<Rightarrow> nat \<Rightarrow> nat \<Rightarrow> bytes option" where
  "byte_buffer_read_to_slice src offset buf_len = subslice src offset (offset + buf_len)"

definition tcp_write_mss_option :: "u16 option \<Rightarrow> bytes \<Rightarrow> bytes option" where
  "tcp_write_mss_option mss_option s = (case mss_option of
     Some value \<Rightarrow> do {
       s \<leftarrow> set_idx s TCP_OPTIONS_OFFSET OPTION_KIND_MSS;
       s \<leftarrow> set_idx s (TCP_OPTIONS_OFFSET + 1) (of_nat OPTION_LEN_MSS);
       htons_unchecked s (TCP_OPTIONS_OFFSET + 2) value }
   | None \<Rightarrow> Some s)"

definition tcp_write_payload :: "(bytes \<times> nat) option \<Rightarrow> nat \<Rightarrow> nat \<Rightarrow> bytes \<Rightarrow> (tcp_error + bytes) option" where
  "tcp_write_payload payload segment_len mss_left s = (case payload of
     Some (payload_buf, max_payload_bytes) \<Rightarrow> do {
       let left_to_read = min (length payload_buf) max_payload_bytes;
       let room_for_payload = min (min (length s - segment_len) mss_left) left_to_read;
       if room_for_payload = 0 then Some (Inl EmptyPayload) else do {
       d \<leftarrow> byte_buffer_read_to_slice payload_buf 0 room_for_payload;
       s \<leftarrow> copy_to s segment_len d;
       s \<leftarrow> shrink_unchecked s (segment_len + room_for_payload);
       Some (Inr s) }}
   | None \<Rightarrow> do {
       s \<leftarrow> shrink_unchecked s segment_len;
       Some (Inr s) })"

definition tcp_write_incomplete_segment ::
    "bytes \<Rightarrow> u32 \<Rightarrow> u32 \<Rightarrow> u8 \<Rightarrow> u16 \<Rightarrow> u16 option \<Rightarrow> u16 \<Rightarrow> (bytes \<times> nat) option \<Rightarrow> (tcp_error + bytes) option" where
  "tcp_write_incomplete_segment buf seq_number ack_number flags_after_ns window_size mss_option mss_remaining payload =
     (if mss_option \<noteq> None \<and> unat mss_remaining < OPTION_LEN_MSS then Some (Inl MssRemaining)
      else do {
        let options_len = (if mss_option \<noteq> None then OPTION_LEN_MSS else 0);
        let mss_left = unat mss_remaining - options_len;
        let segment_len = TCP_OPTIONS_OFFSET + options_len;
        if length buf < segment_len then Some (Inl TcpSliceTooShort) else do {
        s \<leftarrow> tcp_set_sequence_number seq_number buf;
        s \<leftarrow> tcp_set_ack_number ack_number s;
        s \<leftarrow> tcp_set_header_len_rsvd_ns (TCP_OPTIONS_OFFSET + options_len) False s;
        s \<leftarrow> tcp_set_flags_after_ns flags_after_ns s;
        s \<leftarrow> tcp_set_window_size window_size s;
        s \<leftarrow> tcp_set_urgent_pointer 0 s;
        s \<leftarrow> tcp_write_mss_option mss_option s;
        tcp_write_payload payload segment_len mss_left s }})"

definition tcp_finalize :: "bytes \<Rightarrow> u16 \<Rightarrow> u16 \<Rightarrow> (Ipv4Addr \<times> Ipv4Addr) option \<Rightarrow> bytes option" where
  "tcp_finalize s src_port dst_port csum = do {
     s \<leftarrow> tcp_set_source_port src_port s;
     s \<leftarrow> tcp_set_destination_port dst_port s;
     case csum of
       Some (src_addr, dst_addr) \<Rightarrow> do {
         s \<leftarrow> tcp_set_checksum 0 s;
         checksum \<leftarrow> tcp_compute_checksum s src_addr dst_addr;
         tcp_set_checksum checksum s }
     | None \<Rightarrow> Some s }"

definition tcp_write_segment ::
    "bytes \<Rightarrow> u16 \<Rightarrow> u16 \<Rightarrow> u32 \<Rightarrow> u32 \<Rightarrow> u8 \<Rightarrow> u16 \<Rightarrow> u16 option \<Rightarrow> u16 \<Rightarrow> (bytes \<times> nat) option \<Rightarrow>
     (Ipv4Addr \<times> Ipv4Addr) option \<Rightarrow> (tcp_error + bytes) option" where
  "tcp_write_segment buf src_port dst_port seq_number ack_number flags_after_ns window_size mss_option mss_remaining
     payload csum = do {
     r \<leftarrow> tcp_write_incomplete_segment buf seq_number ack_number flags_after_ns window_size mss_option mss_remaining payload;
     case r of Inl e \<Rightarrow> Some (Inl e)
     | Inr s \<Rightarrow> map_option Inr (tcp_finalize s src_port dst_port csum) }"

section \<open>What is written is read back\<close>

definition seg_header_len :: "u16 option \<Rightarrow> nat" where
  "seg_header_len mss_option = TCP_OPTIONS_OFFSET + (if mss_option \<noteq> None then OPTION_LEN_MSS else 0)"

text \<open>The payload that a segment carries: what the source has, up to the limits.\<close>

definition payload_part :: "nat \<Rightarrow> nat \<Rightarrow> (bytes \<times> nat) option \<Rightarrow> bytes" where
  "payload_part room left payload = (case payload of None \<Rightarrow> [] | Some (p, m) \<Rightarrow> take (min (min room left) m) p)"

definition seg_payload :: "nat \<Rightarrow> u16 option \<Rightarrow> u16 \<Rightarrow> (bytes \<times> nat) option \<Rightarrow> bytes" where
  "seg_payload room mss_option mss_remaining payload = payload_part (room - seg_header_len mss_option)
     (unat mss_remaining - (if mss_option \<noteq> None then OPTION_LEN_MSS else 0)) payload"

definition mss_bytes :: "u16 option \<Rightarrow> bytes" where
  "mss_bytes mss_option = (case mss_option of None \<Rightarrow> [] | Some v \<Rightarrow> [OPTION_KIND_MSS, 4] @ be16 v)"

lemma seg_lens: "length (mss_bytes m) + 20 = seg_header_len m" "20 \<le> seg_header_len m" "seg_header_len m \<le> 24"
  "length (seg_payload n m r p) \<le> 65535" "length (seg_payload n m r p) \<le> n - seg_header_len m"
proof -
  have "unat r < 65536" by (rule order_less_le_trans [OF unsigned_less]) simp
  then show "length (seg_payload n m r p) \<le> 65535" by (auto simp: seg_payload_def payload_part_def split: option.split)
qed (auto simp: seg_header_len_def mss_bytes_def seg_payload_def payload_part_def split: option.split)

lemma tcp_options_written:
  "seg_header_len mss_option \<le> length s \<Longrightarrow> tcp_write_mss_option mss_option s = Some (upd s 20 (mss_bytes mss_option))"
  by (cases mss_option) (simp_all add: tcp_write_mss_option_def seg_header_len_def mss_bytes_def upd_adjacent net_simps, simp add: upd_def)

lemma tcp_payload_written:
  assumes "h \<le> length s"
  shows "tcp_write_payload payload h left s =
    (if payload \<noteq> None \<and> payload_part (length s - h) left payload = [] then Some (Inl EmptyPayload)
     else Some (Inr (take h s @ payload_part (length s - h) left payload)))"
proof (cases payload)
  case None
  then show ?thesis using assms by (simp add: tcp_write_payload_def shrink_unchecked_def payload_part_def)
next
  case (Some a)
  obtain p mx where a: "a = (p, mx)" by (cases a)
  define n where "n = min (min (length s - h) left) mx"
  have sp: "payload_part (length s - h) left payload = take n p" using Some a by (simp add: payload_part_def n_def)
  have k: "min (min (length s - h) left) (min (length p) mx) = min n (length p)"
    by (simp add: n_def min.assoc min.commute min.left_commute)
  have n: "h + min n (length p) \<le> length s" using assms by (simp add: n_def)
  have r: "byte_buffer_read_to_slice p 0 (min n (length p)) = Some (take n p)"
    by (simp add: byte_buffer_read_to_slice_def subslice_def min_def)
  have c: "copy_to s h (take n p) = Some (upd s h (take n p))"
    using n by (intro write_ok) (simp add: min.commute)
  have sh: "shrink_unchecked (upd s h (take n p)) (h + min n (length p)) = Some (take h s @ take n p)"
    using n take_upd_end [of _ h "take n p" s] by (simp add: shrink_unchecked_def min.commute)
  have e: "take n p = [] \<longleftrightarrow> min n (length p) = 0" by (cases "n \<le> length p") auto
  have "tcp_write_payload payload h left s = (if min n (length p) = 0 then Some (Inl EmptyPayload)
      else Some (Inr (take h s @ take n p)))"
    unfolding tcp_write_payload_def Some a option.case prod.case Let_def k by (simp only: r c sh Option.bind.simps)
  then show ?thesis unfolding sp e using Some by simp
qed

definition seg_header :: "bytes \<Rightarrow> u32 \<Rightarrow> u32 \<Rightarrow> u8 \<Rightarrow> u16 \<Rightarrow> u16 option \<Rightarrow> bytes" where
  "seg_header buf sq ack fl win mss_option =
     upd (upd (upd (upd (upd (upd (upd buf 4 (be32 sq)) 8 (be32 ack)) 12 [of_nat (4 * seg_header_len mss_option)])
         13 [fl]) 14 (be16 win)) 18 (be16 0)) 20 (mss_bytes mss_option)"

text \<open>The segment before the ports and the checksum are filled in.\<close>

lemma tcp_incomplete_written:
  assumes "mss_option \<noteq> None \<longrightarrow> 4 \<le> unat mss_remaining" "seg_header_len mss_option \<le> length buf"
  shows "tcp_write_incomplete_segment buf sq ack fl win mss_option mss_remaining payload =
    (if payload \<noteq> None \<and> seg_payload (length buf) mss_option mss_remaining payload = [] then Some (Inl EmptyPayload)
     else Some (Inr (take (seg_header_len mss_option) (seg_header buf sq ack fl win mss_option)
       @ seg_payload (length buf) mss_option mss_remaining payload)))"
proof -
  have l: "20 \<le> length buf" using assms(2) seg_lens(2) [of mss_option] by linarith
  let ?s = "upd (upd (upd (upd (upd (upd buf 4 (be32 sq)) 8 (be32 ack)) 12 [of_nat (4 * seg_header_len mss_option)])
         13 [fl]) 14 (be16 win)) 18 (be16 0)"
  have ls: "length ?s = length buf" using l by simp
  have lh: "length (seg_header buf sq ack fl win mss_option) = length buf"
    using assms(2) ls seg_lens(1) [of mss_option] by (simp add: seg_header_def)
  have "tcp_write_incomplete_segment buf sq ack fl win mss_option mss_remaining payload =
      Option.bind (tcp_write_mss_option mss_option ?s)
       (tcp_write_payload payload (seg_header_len mss_option) (unat mss_remaining - (if mss_option \<noteq> None then OPTION_LEN_MSS else 0)))"
    using assms l by (cases mss_option) (simp_all add: tcp_write_incomplete_segment_def seg_header_len_def
        tcp_set_header_len_rsvd_ns_def Let_def pdu_defs net_simps push_bit_eq_mult)
  also have "\<dots> = tcp_write_payload payload (seg_header_len mss_option)
      (unat mss_remaining - (if mss_option \<noteq> None then OPTION_LEN_MSS else 0)) (seg_header buf sq ack fl win mss_option)"
    using tcp_options_written [of mss_option ?s] assms(2) ls by (simp add: seg_header_def)
  finally show ?thesis using tcp_payload_written [of "seg_header_len mss_option" "seg_header buf sq ack fl win mss_option" payload] assms(2) lh
    by (simp add: seg_payload_def)
qed

lemma tcp_header_byte:
  "unat (drop_bit 4 (of_nat (4 * seg_header_len m) :: u8)) * 4 = seg_header_len m"
proof -
  have "unat (drop_bit 4 (80 :: u8)) * 4 = 20" "unat (drop_bit 4 (96 :: u8)) * 4 = 24" by code_simp+
  then show ?thesis by (cases m) (simp_all add: seg_header_len_def)
qed

lemma tcp_finalized:
  assumes "20 \<le> length s0" "length s0 \<le> 100000"
  shows "\<exists>c s. tcp_finalize s0 sp dp (Some (src, dst)) = Some s \<and>
    s = upd (upd (upd (upd s0 0 (be16 sp)) 2 (be16 dp)) 16 (be16 0)) 16 (be16 c) \<and>
    tcp_compute_checksum s src dst = Some 0"
proof -
  define s1 where "s1 = upd (upd (upd s0 0 (be16 sp)) 2 (be16 dp)) 16 (be16 0)"
  define c where "c = csum_of (pseudo_sum s1 src dst Tcp)"
  have l: "length s1 = length s0" using assms by (simp add: s1_def)
  have "tcp_compute_checksum s1 src dst = Some c"
    using assms l by (simp add: tcp_compute_checksum_def compute_checksum_eq c_def)
  then have "tcp_finalize s0 sp dp (Some (src, dst)) = Some (upd s1 16 (be16 c))"
    using assms l by (simp add: tcp_finalize_def s1_def pdu_defs net_simps)
  moreover have "pseudo_sum (upd s1 16 (be16 c)) src dst Tcp = pseudo_sum s1 src dst Tcp + unat c"
    using assms l wsum_upd [of 16 s1 c] by (simp add: pseudo_sum_def s1_def net_simps)
  then have "tcp_compute_checksum (upd s1 16 (be16 c)) src dst = Some 0"
    using assms l csum_fills [of "pseudo_sum s1 src dst Tcp"]
    by (simp add: tcp_compute_checksum_def compute_checksum_eq c_def)
  ultimately show ?thesis unfolding s1_def by blast
qed

text \<open>The option that \<^const>\<open>tcp_write_mss_option\<close> wrote is the one the parser finds.\<close>

lemma mss_loop_written:
  "mss_loop (mss_bytes m) 0 = Some (case m of None \<Rightarrow> Inr None
     | Some v \<Rightarrow> if v < MSS_MIN then Inl MssOption else Inr (Some v))"
proof (cases m)
  case None
  then show ?thesis by (subst mss_loop.simps) (simp add: mss_bytes_def)
next
  case (Some v)
  have "ntohs_unchecked ([2, 4] @ be16 v) 2 = Some v"
    using read_same(1) [of 2 "[2, 4, 0, 0]" v] by (simp add: upd_def)
  then show ?thesis using Some by (subst mss_loop.simps) (simp add: mss_bytes_def numeral_2_eq_2)
qed

lemma tcp_written:
  assumes "mss_option \<noteq> None \<longrightarrow> 4 \<le> unat mss_remaining" "seg_header_len mss_option \<le> length buf"
    "pl = seg_payload (length buf) mss_option mss_remaining payload" "payload = None \<or> pl \<noteq> []"
  shows "\<exists>s. tcp_write_segment buf sp dp sq ack fl win mss_option mss_remaining payload (Some (src, dst)) = Some (Inr s) \<and>
    length s = seg_header_len mss_option + length pl \<and> tcp_from_bytes s (Some (src, dst)) = Some (Inr s) \<and>
    tcp_source_port s = Some sp \<and> tcp_destination_port s = Some dp \<and> tcp_sequence_number s = Some sq \<and>
    tcp_ack_number s = Some ack \<and> tcp_flags_after_ns s = Some fl \<and> tcp_window_size s = Some win \<and>
    tcp_urgent_pointer s = Some 0 \<and> tcp_header_len s = Some (seg_header_len mss_option) \<and> tcp_payload s = Some pl \<and>
    tcp_parse_mss_option_unchecked s (seg_header_len mss_option) = Some (case mss_option of None \<Rightarrow> Inr None
      | Some v \<Rightarrow> if v < MSS_MIN then Inl MssOption else Inr (Some v))"
proof -
  define h where "h = seg_header_len mss_option"
  have h: "20 \<le> h" "h \<le> 24" "h \<le> length buf" "length (mss_bytes mss_option) = h - 20"
    using assms(2) seg_lens(1-3) [of mss_option] by (auto simp: h_def)
  define H where "H = seg_header buf sq ack fl win mss_option"
  define s0 where "s0 = take h H @ pl"
  have lH: "length H = length buf" using h by (simp add: H_def seg_header_def)
  have H: "ntohl_unchecked H 4 = Some sq" "ntohl_unchecked H 8 = Some ack"
    "idx H 12 = Some (of_nat (4 * h))" "idx H 13 = Some fl" "ntohs_unchecked H 14 = Some win" "ntohs_unchecked H 18 = Some 0"
    "subslice H 20 h = Some (mss_bytes mss_option)"
    using h unfolding H_def seg_header_def h_def [symmetric] by (simp_all add: net_simps del: of_nat_mult)
  have l0: "length s0 = h + length pl" using h lH by (simp add: s0_def)
  have s0: "ntohl_unchecked s0 4 = Some sq" "ntohl_unchecked s0 8 = Some ack"
    "idx s0 12 = Some (of_nat (4 * h))" "idx s0 13 = Some fl" "ntohs_unchecked s0 14 = Some win" "ntohs_unchecked s0 18 = Some 0"
    "subslice s0 20 h = Some (mss_bytes mss_option)" "drop h s0 = pl"
    using h lH H by (simp_all add: s0_def net_simps del: of_nat_mult) (simp add: subslice_def drop_take)
  have w: "tcp_write_incomplete_segment buf sq ack fl win mss_option mss_remaining payload = Some (Inr s0)"
    using tcp_incomplete_written [OF assms(1,2), of sq ack fl win payload] assms(3,4) by (auto simp: s0_def h_def H_def)
  have "length s0 \<le> 100000" using l0 h seg_lens(4) [of "length buf" mss_option mss_remaining payload] assms(3) by simp
  then obtain c s where s: "tcp_finalize s0 sp dp (Some (src, dst)) = Some s"
      "s = upd (upd (upd (upd s0 0 (be16 sp)) 2 (be16 dp)) 16 (be16 0)) 16 (be16 c)"
      "tcp_compute_checksum s src dst = Some 0"
    using tcp_finalized [of s0 sp dp src dst] l0 h by auto
  have ls: "length s = h + length pl" using s(2) l0 h by simp
  have f: "ntohs_unchecked s 0 = Some sp" "ntohs_unchecked s 2 = Some dp" "ntohl_unchecked s 4 = Some sq"
    "ntohl_unchecked s 8 = Some ack" "idx s 12 = Some (of_nat (4 * h))" "idx s 13 = Some fl"
    "ntohs_unchecked s 14 = Some win" "ntohs_unchecked s 18 = Some 0"
    "subslice s 20 h = Some (mss_bytes mss_option)" "drop h s = pl"
    unfolding s(2) using l0 h s0 by (simp_all add: net_simps del: of_nat_mult)
  have hl: "tcp_header_len s = Some h"
    using f(5) tcp_header_byte [of mss_option]
    by (simp add: tcp_header_len_def tcp_header_len_rsvd_ns_def Let_def h_def del: of_nat_mult)
  have "tcp_from_bytes s (Some (src, dst)) = Some (Inr s)"
    using hl h ls s(3) by (simp add: tcp_from_bytes_def)
  moreover have "tcp_payload s = Some pl"
    using hl ls f(10) by (simp add: tcp_payload_def tcp_payload_unchecked_def split_at_snd_def)
  moreover have "tcp_parse_mss_option_unchecked s h = Some (case mss_option of None \<Rightarrow> Inr None
      | Some v \<Rightarrow> if v < MSS_MIN then Inl MssOption else Inr (Some v))"
    using f(9) by (simp add: tcp_parse_mss_option_unchecked_def tcp_options_unchecked_def mss_loop_written)
  ultimately show ?thesis
    using w s(1) ls hl f by (simp add: tcp_write_segment_def h_def pdu_defs)
qed

section \<open>The option parser\<close>

text \<open>One turn of the loop over the options that goes on, from position to position.\<close>

inductive opt_step :: "bytes \<Rightarrow> nat \<Rightarrow> nat \<Rightarrow> bool" for b where
  nop: "i + 3 < length b \<Longrightarrow> b ! i = OPTION_KIND_NOP \<Longrightarrow> opt_step b i (i + 1)"
| skip: "i + 3 < length b \<Longrightarrow> b ! i \<notin> {OPTION_KIND_EOL, OPTION_KIND_NOP, OPTION_KIND_MSS} \<Longrightarrow>
    opt_step b i (i + unat (b ! (i + 1)))"

inductive_cases opt_stepE: "opt_step b i j"

text \<open>What the parser answers at a position where it stops.\<close>

definition option_at :: "bytes \<Rightarrow> nat \<Rightarrow> tcp_error + u16 option" where
  "option_at b i =
     (if i + 3 < length b \<and> b ! i = OPTION_KIND_MSS
      then let mss = read_be_u16 (drop (i + 2) b) in if mss < MSS_MIN then Inl MssOption else Inr (Some mss)
      else Inr None)"

lemma opt_step_loop: "opt_step b i j \<Longrightarrow> mss_loop b i = mss_loop b j"
  by (erule opt_stepE; subst mss_loop.simps; simp)

lemma opt_steps_loop: "(opt_step b)\<^sup>*\<^sup>* i j \<Longrightarrow> mss_loop b i = mss_loop b j"
  by (induction rule: rtranclp_induct) (simp_all add: opt_step_loop)

lemma opt_step_le: "opt_step b i j \<Longrightarrow> i \<le> j \<and> i < length b"
  by (erule opt_stepE) auto

lemma opt_stop: "\<nexists>j. opt_step b i j \<Longrightarrow> mss_loop b i = Some (option_at b i)"
  using opt_step.intros [of i b]
  by (subst mss_loop.simps) (auto simp: option_at_def ntohs_unchecked_def Let_def)

text \<open>An option that claims length zero is skipped by zero bytes, for ever.\<close>

lemma opt_stuck: "opt_step b i i \<Longrightarrow> mss_loop b i = None"
proof (rule ccontr)
  assume st: "opt_step b i i" and "mss_loop b i \<noteq> None"
  then obtain r where ret: "mss_loop b i = Some r" by auto
  have "\<not> opt_step b i i"
  proof (rule mss_loop.raw_induct [where P = "\<lambda>b i r. \<not> opt_step b i i", OF _ ret])
    fix f b i r
    assume IH: "\<And>b i r. f b i = Some r \<Longrightarrow> \<not> opt_step b i i"
      and eq: "(if i + 3 < length b then
        if b ! i = OPTION_KIND_EOL then Some (Inr None)
        else if b ! i = OPTION_KIND_NOP then f b (i + 1)
        else if b ! i = OPTION_KIND_MSS then do {
          mss \<leftarrow> ntohs_unchecked b (i + 2);
          if mss < MSS_MIN then Some (Inl MssOption) else Some (Inr (Some mss)) }
        else f b (i + unat (b ! (i + 1)))
      else Some (Inr None)) = Some r"
    show "\<not> opt_step b i i"
    proof
      assume st: "opt_step b i i"
      then have "f b i = Some r" using eq by (elim opt_stepE) auto
      with IH st show False by blast
    qed
  qed
  with st show False by simp
qed

lemma opt_progress:
  assumes "\<nexists>k. (opt_step b)\<^sup>*\<^sup>* i k \<and> opt_step b k k"
  shows "\<exists>k. (opt_step b)\<^sup>*\<^sup>* i k \<and> (\<nexists>j. opt_step b k j)"
  using assms
proof (induction "length b - i" arbitrary: i rule: less_induct)
  case less
  show ?case
  proof (cases "\<exists>j. opt_step b i j")
    case True
    then obtain j where j: "opt_step b i j" by blast
    have "i \<noteq> j" using j less.prems by blast
    then have "i < j" using opt_step_le [OF j] by simp
    then have "length b - j < length b - i" using opt_step_le [OF j] by (intro diff_less_mono2) simp_all
    moreover have "\<nexists>k. (opt_step b)\<^sup>*\<^sup>* j k \<and> opt_step b k k"
      using less.prems j converse_rtranclp_into_rtranclp [of "opt_step b" i j] by blast
    ultimately have "\<exists>k. (opt_step b)\<^sup>*\<^sup>* j k \<and> (\<nexists>j. opt_step b k j)" by (rule less.hyps)
    then show ?thesis using converse_rtranclp_into_rtranclp [of "opt_step b" i j] j by blast
  qed blast
qed

lemma opt_loop_None: "mss_loop b i = None \<longleftrightarrow> (\<exists>k. (opt_step b)\<^sup>*\<^sup>* i k \<and> opt_step b k k)"
proof
  assume n: "mss_loop b i = None"
  show "\<exists>k. (opt_step b)\<^sup>*\<^sup>* i k \<and> opt_step b k k"
  proof (rule ccontr)
    assume "\<not> ?thesis"
    then obtain k where "(opt_step b)\<^sup>*\<^sup>* i k" "\<nexists>j. opt_step b k j" using opt_progress by blast
    then have "mss_loop b i = Some (option_at b k)" by (simp add: opt_steps_loop opt_stop)
    then show False using n by simp
  qed
next
  assume "\<exists>k. (opt_step b)\<^sup>*\<^sup>* i k \<and> opt_step b k k"
  then show "mss_loop b i = None" using opt_steps_loop opt_stuck by fastforce
qed

section \<open>Parsers on arbitrary bytes\<close>

lemma tcp_accepted:
  assumes "tcp_from_bytes bs v = Some (Inr s)"
  obtains h where "s = bs" "tcp_header_len bs = Some h" "20 \<le> h" "h \<le> 60" "h \<le> length bs"
    "tcp_payload bs = Some (drop h bs)" "tcp_options_unchecked bs h = Some (take (h - 20) (drop 20 bs))"
proof -
  have l: "\<not> length bs < 20" using assms by (auto simp: tcp_from_bytes_def)
  then obtain h where hl: "tcp_header_len bs = Some h"
    using assms by (cases "tcp_header_len bs") (simp_all add: tcp_from_bytes_def)
  have "\<not> (h < 20 \<or> h > min 60 (length bs))" using assms l hl by (auto simp: tcp_from_bytes_def)
  moreover from this have "s = bs"
    using assms l hl by (cases v) (auto simp: tcp_from_bytes_def elim!: bindE split: if_split_asm)
  ultimately have h: "tcp_header_len bs = Some h" "20 \<le> h" "h \<le> 60" "h \<le> length bs" "s = bs" using hl by auto
  then show ?thesis
    by (intro that) (simp_all add: tcp_payload_def tcp_payload_unchecked_def split_at_snd_def
        tcp_options_unchecked_def subslice_def)
qed

lemma tcp_fields:
  assumes "20 \<le> length bs"
  shows "\<exists>sp dp sq ack fl win. tcp_source_port bs = Some sp \<and> tcp_destination_port bs = Some dp \<and>
    tcp_sequence_number bs = Some sq \<and> tcp_ack_number bs = Some ack \<and> tcp_flags_after_ns bs = Some fl \<and>
    tcp_window_size bs = Some win"
  using assms by (simp add: pdu_defs ntohs_unchecked_def ntohl_unchecked_def idx_def)

lemma tcp_from_bytes_total: "length bs \<le> 100000 \<Longrightarrow> tcp_from_bytes bs v \<noteq> None"
  by (auto simp: tcp_from_bytes_def tcp_header_len_def tcp_header_len_rsvd_ns_def idx_def Let_def
      tcp_compute_checksum_def compute_checksum_eq split: option.split)

section \<open>Examples\<close>

text \<open>A SYN segment whose only option has the kind of window scaling and claims length zero.\<close>

definition syn_zero_option :: bytes where
  "syn_zero_option = [0, 80, 0, 80, 0, 0, 0, 1, 0, 0, 0, 0, 0x60, 2, 0, 0, 0, 0, 0, 0, 3, 0, 0, 0]"

definition arp_request_example :: bytes where
  "arp_request_example = [0, 1, 8, 0, 6, 4, 0, 1, 2, 0, 0, 0, 0, 1, 10, 0, 0, 1, 0, 0, 0, 0, 0, 0, 169, 254, 169, 254]"

definition ip4_example :: bytes where
  "ip4_example = [0x45, 0, 0, 20, 0, 0, 0, 0, 1, 6, 0, 0, 10, 0, 0, 1, 169, 254, 169, 254]"

lemma syn_zero_option_accepted:
  "tcp_from_bytes syn_zero_option None = Some (Inr syn_zero_option)" "tcp_header_len syn_zero_option = Some 24"
  "tcp_options_unchecked syn_zero_option 24 = Some [3, 0, 0, 0]"
proof -
  have "unat (drop_bit 4 (0x60 :: u8)) = 6" by code_simp
  then show h: "tcp_header_len syn_zero_option = Some 24"
    by (simp add: tcp_header_len_def tcp_header_len_rsvd_ns_def syn_zero_option_def idx_def Let_def)
  show "tcp_from_bytes syn_zero_option None = Some (Inr syn_zero_option)"
    by (simp add: tcp_from_bytes_def h) (simp add: syn_zero_option_def)
  show "tcp_options_unchecked syn_zero_option 24 = Some [3, 0, 0, 0]"
    by (simp add: tcp_options_unchecked_def subslice_def syn_zero_option_def)
qed

lemma arp_request_accepted:
  "arp_request_from_bytes arp_request_example = Some (Inr arp_request_example)" "arp_tpa arp_request_example = Some 0xA9FEA9FE"
  by (simp_all add: arp_request_from_bytes_def arp_request_example_def pdu_defs ntohs_unchecked_def ntohl_unchecked_def
      read_be_u16_def read_be_u32_def be_nat_def idx_def)

lemma ip4_example_accepted:
  "ip4_from_bytes ip4_example False = Some (Inr ip4_example)" "ip4_destination_address ip4_example = Some 0xA9FEA9FE"
proof -
  have "idx ip4_example 0 = Some 0x45" by (simp add: ip4_example_def idx_def)
  then show "ip4_from_bytes ip4_example False = Some (Inr ip4_example)"
    by (simp add: ip4_from_bytes_def ip4_header_len_eq ip4_first_byte)
       (simp add: ip4_example_def pdu_defs ntohs_unchecked_def read_be_u16_def be_nat_def)
  show "ip4_destination_address ip4_example = Some 0xA9FEA9FE"
    by (simp add: ip4_example_def pdu_defs ntohl_unchecked_def read_be_u32_def be_nat_def)
qed

section \<open>Properties\<close>

text \<open>
  C36. The frames that the stack sends over TCP are read back. Writing an Ethernet header, an IPv4
  header and a TCP segment into a buffer, in the order of the code, never panics when the buffer
  holds the headers, the limit on the segment leaves room for the MSS option, there is a byte of payload
  to write if there is a payload at all, and the IPv4 packet has at most 65535 bytes (the code truncates the total
  length of a longer one to 16 bits). The result is a frame from which the parsers of the stack, checksums
  included, give back the addresses, ports, sequence numbers, window, all the flags that were given (URG
  too, which the documentation says is always 0) and a payload that is the longest prefix of the source within the
  limits. The MSS option is given back if it is at least 100; the parser reports a smaller one as an error. In
  particular the 32-bit sum of the checksum does not overflow, and the checksums written verify.\<close>

theorem tcp_frame_roundtrip:
  assumes "mss_option \<noteq> None \<longrightarrow> 4 \<le> unat mss_remaining"
    and "34 + seg_header_len mss_option \<le> length buf"
    and "pl = seg_payload (length buf - 34) mss_option mss_remaining payload"
    and "payload = None \<or> pl \<noteq> []"
    and "20 + seg_header_len mss_option + length pl \<le> 65535"
  shows "\<exists>e h s i p q f.
    eth_write_incomplete buf dmac smac ETHERTYPE_IPV4 = Some (Inr e) \<and>
    ip4_write_header (drop 14 e) PROTOCOL_TCP src dst = Some (Inr h) \<and>
    tcp_write_segment (drop 20 h) sp dp sq ack fl win mss_option mss_remaining payload (Some (src, dst)) = Some (Inr s) \<and>
    ip4_put_payload h s = Some i \<and> ip4_with_payload_len_unchecked i (length s) True = Some p \<and>
    eth_put_payload e p = Some q \<and> eth_with_payload_len_unchecked q (length p) = Some f \<and>
    eth_from_bytes f = Inr f \<and> eth_dst_mac f = Some dmac \<and> eth_src_mac f = Some smac \<and>
    eth_ethertype f = Some ETHERTYPE_IPV4 \<and> eth_payload f = Some p \<and>
    ip4_from_bytes p True = Some (Inr p) \<and> ip4_protocol p = Some PROTOCOL_TCP \<and>
    ip4_source_address p = Some src \<and> ip4_destination_address p = Some dst \<and> ip4_payload p = Some s \<and>
    tcp_from_bytes s (Some (src, dst)) = Some (Inr s) \<and>
    tcp_source_port s = Some sp \<and> tcp_destination_port s = Some dp \<and> tcp_sequence_number s = Some sq \<and>
    tcp_ack_number s = Some ack \<and> tcp_flags_after_ns s = Some fl \<and> tcp_window_size s = Some win \<and>
    tcp_payload s = Some pl \<and>
    tcp_parse_mss_option_unchecked s (seg_header_len mss_option) = Some (case mss_option of None \<Rightarrow> Inr None
      | Some v \<Rightarrow> if v < MSS_MIN then Inl MssOption else Inr (Some v))"
proof -
  let ?n = "seg_header_len mss_option"
  have r: "?n \<le> length (drop 34 buf)" "pl = seg_payload (length (drop 34 buf)) mss_option mss_remaining payload"
    using assms(2,3) by simp_all
  obtain s where s: "tcp_write_segment (drop 34 buf) sp dp sq ack fl win mss_option mss_remaining payload (Some (src, dst)) = Some (Inr s)"
      "length s = ?n + length pl" "tcp_from_bytes s (Some (src, dst)) = Some (Inr s)"
      "tcp_source_port s = Some sp" "tcp_destination_port s = Some dp" "tcp_sequence_number s = Some sq"
      "tcp_ack_number s = Some ack" "tcp_flags_after_ns s = Some fl" "tcp_window_size s = Some win" "tcp_payload s = Some pl"
      "tcp_parse_mss_option_unchecked s ?n = Some (case mss_option of None \<Rightarrow> Inr None
        | Some v \<Rightarrow> if v < MSS_MIN then Inl MssOption else Inr (Some v))"
    using tcp_written [OF assms(1) r assms(4), of sp dp sq ack fl win src dst] by blast
  have "length pl \<le> length buf - 34 - ?n"
    using seg_lens(5) [of "length buf - 34" mss_option mss_remaining payload] assms(3) by simp
  then have ls: "length s + 34 \<le> length buf" "20 + length s \<le> 65535" using assms(2,5) s(2) by simp_all
  then have l: "20 + length s \<le> length (drop 14 buf)" by simp
  obtain h i p where p: "ip4_write_header (drop 14 buf) PROTOCOL_TCP src dst = Some (Inr h)" "drop 20 h = drop 34 buf"
      "ip4_put_payload h s = Some i" "ip4_with_payload_len_unchecked i (length s) True = Some p"
      "length p = 20 + length s" "ip4_from_bytes p True = Some (Inr p)" "ip4_protocol p = Some PROTOCOL_TCP"
      "ip4_source_address p = Some src" "ip4_destination_address p = Some dst" "ip4_payload p = Some s"
    using ip4_written [OF l ls(2), of PROTOCOL_TCP src dst] by (simp only: drop_drop) auto
  have lp: "14 + length p \<le> length buf" using ls p(5) by simp
  obtain e q f where f: "eth_write_incomplete buf dmac smac ETHERTYPE_IPV4 = Some (Inr e)" "drop 14 e = drop 14 buf"
      "eth_put_payload e p = Some q" "eth_with_payload_len_unchecked q (length p) = Some f"
      "eth_from_bytes f = Inr f" "eth_dst_mac f = Some dmac" "eth_src_mac f = Some smac"
      "eth_ethertype f = Some ETHERTYPE_IPV4" "eth_payload f = Some p"
    using eth_written [OF lp, of dmac smac ETHERTYPE_IPV4] by blast
  show ?thesis
    by (intro exI conjI; rule f p [folded f(2)] s [folded p(2)])
qed

theorem tcp_frame_roundtrip_witness:
  "seg_payload (length (replicate 100 0 :: bytes) - 34) None 1000 (Some ([1, 2, 3], 10)) = [1, 2, 3] \<and>
   (\<exists>f p s. eth_payload f = Some p \<and> ip4_from_bytes p True = Some (Inr p) \<and> ip4_payload p = Some s \<and>
     tcp_from_bytes s (Some (1, 2)) = Some (Inr s) \<and> tcp_payload s = Some [1, 2, 3])"
proof -
  have pl: "seg_payload (length (replicate 100 0 :: bytes) - 34) None 1000 (Some ([1, 2, 3], 10)) = [1, 2, 3]"
    by (simp add: seg_payload_def payload_part_def seg_header_len_def)
  show ?thesis
    using tcp_frame_roundtrip [where buf = "replicate 100 0" and mss_option = None and mss_remaining = 1000 and
        payload = "Some ([1, 2, 3], 10)" and pl = "[1, 2, 3]" and src = 1 and dst = 2 and dmac = "MacAddr 0 0 0 0 0 1" and
        smac = "MacAddr 0 0 0 0 0 2" and sp = 80 and dp = 1000 and sq = 1 and ack = 2 and fl = 16 and win = 100,
        OF _ _ pl [symmetric]] pl
    by (simp add: seg_header_len_def) blast
qed

text \<open>
  C37. The option parser, on the options of a segment that \<^const>\<open>tcp_from_bytes\<close> accepted: from every
  position it reaches and stops at it returns the MSS found there (an error below 100), or none; and it
  runs for ever exactly when it reaches an option, other than EOL, NOP and MSS, whose length byte is zero.\<close>

theorem mss_option_parsing:
  assumes "tcp_from_bytes bs v = Some (Inr s)"
  shows "\<exists>h b. tcp_header_len s = Some h \<and> tcp_options_unchecked s h = Some b \<and> length b = h - 20 \<and> h \<le> 60 \<and>
    (\<forall>i. (opt_step b)\<^sup>*\<^sup>* 0 i \<and> (\<nexists>j. opt_step b i j) \<longrightarrow> tcp_parse_mss_option_unchecked s h = Some (option_at b i)) \<and>
    (tcp_parse_mss_option_unchecked s h = None \<longleftrightarrow> (\<exists>i. (opt_step b)\<^sup>*\<^sup>* 0 i \<and> opt_step b i i))"
proof -
  obtain h where h: "s = bs" "tcp_header_len bs = Some h" "h \<le> 60" "h \<le> length bs"
      "tcp_options_unchecked bs h = Some (take (h - 20) (drop 20 bs))"
    by (rule tcp_accepted [OF assms])
  define b where "b = take (h - 20) (drop 20 bs)"
  have p: "tcp_parse_mss_option_unchecked s h = mss_loop b 0"
    using h by (simp add: tcp_parse_mss_option_unchecked_def b_def)
  have f1: "tcp_header_len s = Some h" "tcp_options_unchecked s h = Some b" "length b = h - 20" "h \<le> 60"
    using h by (simp_all add: b_def)
  have f2: "tcp_parse_mss_option_unchecked s h = Some (option_at b i)"
    if "(opt_step b)\<^sup>*\<^sup>* 0 i \<and> (\<nexists>j. opt_step b i j)" for i
    using that p opt_steps_loop [of b 0 i] opt_stop [of b i] by simp
  have f3: "tcp_parse_mss_option_unchecked s h = None \<longleftrightarrow> (\<exists>i. (opt_step b)\<^sup>*\<^sup>* 0 i \<and> opt_step b i i)"
    unfolding p by (rule opt_loop_None)
  show ?thesis by (intro exI [of _ h] exI [of _ b] conjI allI impI; (rule f1 f3 | erule f2))
qed

theorem mss_option_parsing_witness:
  "tcp_from_bytes syn_zero_option None = Some (Inr syn_zero_option) \<and> tcp_header_len syn_zero_option = Some 24 \<and>
   tcp_parse_mss_option_unchecked syn_zero_option 24 = None"
proof -
  have "opt_step [3, 0, 0, 0] 0 0" using opt_step.skip [of 0 "[3, 0, 0, 0]"] by simp
  then show ?thesis
    using mss_option_parsing [OF syn_zero_option_accepted(1)] syn_zero_option_accepted by auto
qed

text \<open>
  C38. ARP frames and UDP datagrams are read back: a written ARP request is accepted with its addresses, a
  written reply carries the reply operation and is not taken for a request, and a finished UDP datagram has a
  checksum that is never zero, verifies, and comes with the ports, length and payload that were written.\<close>

theorem arp_udp_roundtrip:
  assumes "length buf = 28" "8 + length pl \<le> length ubuf" "8 + length pl \<le> 65507"
  shows "\<exists>f g h p. arp_write_request buf sha spa tha tpa = Some (Inr f) \<and> arp_request_from_bytes f = Some (Inr f) \<and>
    arp_sha f = Some sha \<and> arp_spa f = Some spa \<and> arp_tha f = Some tha \<and> arp_tpa f = Some tpa \<and>
    arp_write_reply buf sha spa tha tpa = Some (Inr g) \<and> arp_operation g = Some OPER_REPLY \<and>
    arp_request_from_bytes g = Some (Inl Operation) \<and>
    arp_sha g = Some sha \<and> arp_spa g = Some spa \<and> arp_tha g = Some tha \<and> arp_tpa g = Some tpa \<and>
    udp_write_incomplete_datagram ubuf pl = Some (Inr h) \<and> udp_finalize h sp dp (Some (src, dst)) = Some p \<and>
    udp_from_bytes p (Some (src, dst)) = Some (Inr p) \<and> udp_checksum p \<noteq> Some 0 \<and>
    udp_source_port p = Some sp \<and> udp_destination_port p = Some dp \<and>
    udp_len p = Some (of_nat (8 + length pl)) \<and> udp_payload p = Some pl"
  using arp_written [OF assms(1), of sha spa tha tpa] udp_written [OF assms(2,3), of sp dp src dst] by blast

theorem arp_udp_roundtrip_witness:
  "length (replicate 28 0 :: bytes) = 28 \<and> (\<exists>f p. arp_request_from_bytes f = Some (Inr f) \<and> arp_tpa f = Some 7 \<and>
     udp_from_bytes p (Some (1, 2)) = Some (Inr p) \<and> udp_payload p = Some [1, 2])"
  using arp_udp_roundtrip [where buf = "replicate 28 0" and ubuf = "replicate 10 0" and pl = "[1, 2]" and
      sha = "MacAddr 0 0 0 0 0 1" and spa = 5 and tha = "MacAddr 0 0 0 0 0 0" and tpa = 7 and src = 1 and dst = 2 and
      sp = 53 and dp = 1000]
  by simp blast

text \<open>
  C39. The parsers are safe on whatever bytes a guest sends: they return for every input (TCP and UDP for
  inputs of at most 100000 bytes, more than an IPv4 packet holds). What they accept has its header inside the packet:
  the addresses, ports and other fields of Ethernet frames, ARP requests, IPv4 packets, TCP segments and UDP
  datagrams can be read without a panic, and the payload is everything behind the header. The quick tests on a
  raw frame never panic and never miss a request or packet for the address.\<close>

theorem pdu_parsers_safe:
  "arp_request_from_bytes bs \<noteq> None \<and> ip4_from_bytes bs v \<noteq> None \<and>
   (length bs \<le> 100000 \<longrightarrow> tcp_from_bytes bs w \<noteq> None \<and> udp_from_bytes bs w \<noteq> None) \<and>
   arp_test_speculative_tpa bs addr \<noteq> None \<and> ip4_test_speculative_dst_addr bs addr \<noteq> None \<and>
   (eth_from_bytes f = Inr g \<longrightarrow> g = f \<and> 14 \<le> length f \<and> eth_payload f = Some (drop 14 f) \<and>
     (\<exists>d s t. eth_dst_mac f = Some d \<and> eth_src_mac f = Some s \<and> eth_ethertype f = Some t)) \<and>
   (arp_request_from_bytes bs = Some (Inr a) \<longrightarrow> a = bs \<and> length bs = 28 \<and>
     (\<exists>sha spa tha tpa. arp_sha bs = Some sha \<and> arp_spa bs = Some spa \<and> arp_tha bs = Some tha \<and> arp_tpa bs = Some tpa)) \<and>
   (ip4_from_bytes bs v = Some (Inr p) \<longrightarrow> (\<exists>h. p = bs \<and> ip4_header_len bs = Some h \<and> 20 \<le> h \<and> h \<le> 60 \<and> h \<le> length bs \<and>
     length bs \<le> 65535 \<and> ip4_total_len bs = Some (of_nat (length bs)) \<and> ip4_payload bs = Some (drop h bs)) \<and>
     (\<exists>src dst proto ttl. ip4_source_address bs = Some src \<and> ip4_destination_address bs = Some dst \<and>
       ip4_protocol bs = Some proto \<and> ip4_ttl bs = Some ttl)) \<and>
   (tcp_from_bytes bs w = Some (Inr s) \<longrightarrow> (\<exists>h. s = bs \<and> tcp_header_len bs = Some h \<and> 20 \<le> h \<and> h \<le> 60 \<and> h \<le> length bs \<and>
     tcp_payload bs = Some (drop h bs) \<and> tcp_options_unchecked bs h = Some (take (h - 20) (drop 20 bs))) \<and>
     (\<exists>sp dp sq ack fl win. tcp_source_port bs = Some sp \<and> tcp_destination_port bs = Some dp \<and>
       tcp_sequence_number bs = Some sq \<and> tcp_ack_number bs = Some ack \<and> tcp_flags_after_ns bs = Some fl \<and>
       tcp_window_size bs = Some win)) \<and>
   (udp_from_bytes bs w = Some (Inr u) \<longrightarrow> u = bs \<and> 8 \<le> length bs \<and> udp_payload bs = Some (drop 8 bs) \<and>
     (\<exists>sp dp n c. udp_source_port bs = Some sp \<and> udp_destination_port bs = Some dp \<and> udp_len bs = Some n \<and>
       udp_checksum bs = Some c)) \<and>
   (eth_payload f = Some bs \<and> arp_request_from_bytes bs = Some (Inr a) \<and> arp_tpa bs = Some addr \<longrightarrow>
     arp_test_speculative_tpa f addr = Some True) \<and>
   (eth_payload f = Some bs \<and> ip4_from_bytes bs v = Some (Inr p) \<and> ip4_destination_address bs = Some addr \<longrightarrow>
     ip4_test_speculative_dst_addr f addr = Some True)"
proof (intro conjI [of "X \<noteq> None" for X] conjI [of "X \<longrightarrow> Y" for X Y] impI)
  assume a: "ip4_from_bytes bs v = Some (Inr p)"
  obtain h where h: "p = bs" "ip4_header_len bs = Some h" "20 \<le> h" "h \<le> 60" "h \<le> length bs" "length bs \<le> 65535"
    "ip4_total_len bs = Some (of_nat (length bs))" "ip4_payload bs = Some (drop h bs)" by (rule ip4_accepted [OF a])
  show "(\<exists>h. p = bs \<and> ip4_header_len bs = Some h \<and> 20 \<le> h \<and> h \<le> 60 \<and> h \<le> length bs \<and>
     length bs \<le> 65535 \<and> ip4_total_len bs = Some (of_nat (length bs)) \<and> ip4_payload bs = Some (drop h bs)) \<and>
     (\<exists>src dst proto ttl. ip4_source_address bs = Some src \<and> ip4_destination_address bs = Some dst \<and>
       ip4_protocol bs = Some proto \<and> ip4_ttl bs = Some ttl)"
    using h ip4_fields [of bs] by auto
next
  assume a: "tcp_from_bytes bs w = Some (Inr s)"
  obtain h where h: "s = bs" "tcp_header_len bs = Some h" "20 \<le> h" "h \<le> 60" "h \<le> length bs"
    "tcp_payload bs = Some (drop h bs)" "tcp_options_unchecked bs h = Some (take (h - 20) (drop 20 bs))"
    by (rule tcp_accepted [OF a])
  show "(\<exists>h. s = bs \<and> tcp_header_len bs = Some h \<and> 20 \<le> h \<and> h \<le> 60 \<and> h \<le> length bs \<and>
     tcp_payload bs = Some (drop h bs) \<and> tcp_options_unchecked bs h = Some (take (h - 20) (drop 20 bs))) \<and>
     (\<exists>sp dp sq ack fl win. tcp_source_port bs = Some sp \<and> tcp_destination_port bs = Some dp \<and>
       tcp_sequence_number bs = Some sq \<and> tcp_ack_number bs = Some ack \<and> tcp_flags_after_ns bs = Some fl \<and>
       tcp_window_size bs = Some win)"
    using h tcp_fields [of bs] by auto
qed (rule arp_from_bytes_total ip4_from_bytes_total speculative_total
    | erule tcp_from_bytes_total udp_from_bytes_total eth_accepted udp_accepted
    | (drule arp_accepted, simp)
    | (elim conjE, rule arp_speculative, assumption+)
    | (elim conjE, rule ip4_speculative, assumption+))+

theorem pdu_parsers_safe_witness:
  "tcp_from_bytes arp_request_example None \<noteq> None \<and>
   arp_test_speculative_tpa (replicate 14 0 @ arp_request_example) 0xA9FEA9FE = Some True \<and>
   ip4_test_speculative_dst_addr (replicate 14 0 @ ip4_example) 0xA9FEA9FE = Some True \<and>
   eth_payload (replicate 14 0 @ arp_request_example) = Some (drop 14 (replicate 14 0 @ arp_request_example)) \<and>
   (\<exists>h. ip4_payload ip4_example = Some (drop h ip4_example)) \<and> (\<exists>h. tcp_payload syn_zero_option = Some (drop h syn_zero_option)) \<and>
   udp_payload (replicate 9 0) = Some (drop 8 (replicate 9 0)) \<and> udp_source_port (replicate 9 0) \<noteq> None"
proof -
  have e: "eth_payload (replicate 14 0 @ x) = Some x" "eth_from_bytes (replicate 14 0 @ x) = Inr (replicate 14 0 @ x)" for x
    by (simp_all add: eth_payload_def split_at_snd_def eth_from_bytes_def)
  have l: "length arp_request_example \<le> 100000" by (simp add: arp_request_example_def)
  have u: "udp_from_bytes (replicate 9 0) None = Some (Inr (replicate 9 0))" by (simp add: udp_from_bytes_def)
  note p = pdu_parsers_safe [where bs = arp_request_example and a = arp_request_example and v = False and w = None and
      f = "replicate 14 0 @ arp_request_example" and g = "replicate 14 0 @ arp_request_example" and addr = "0xA9FEA9FE"]
    pdu_parsers_safe [where bs = ip4_example and p = ip4_example and v = False and w = None and
      f = "replicate 14 0 @ ip4_example" and addr = "0xA9FEA9FE"]
    pdu_parsers_safe [where bs = syn_zero_option and s = syn_zero_option and w = None]
    pdu_parsers_safe [where bs = "replicate 9 0" and u = "replicate 9 0" and w = None]
  show ?thesis
    using p(1) p(2) p(3) p(4) l u e arp_request_accepted ip4_example_accepted syn_zero_option_accepted(1)
    by (metis option.distinct(1))
qed

end
