(* ===== verification/Spec2Isabelle.thy ===== *)
theory Spec2Isabelle
  imports Uk_Loader Rate_Limiter Syscall_Table Mmio_Transport Bus Dumbo_Segment
begin

text \<open>
  \<^bold>\<open>Spacer-SLT\<close>: load-time sharing of unikernel code pages, as a fork of the Firecracker virtual
  machine monitor. This development models the shared-section loader and the parts of the monitor
  that a guest reaches most directly, and proves the properties C1 to C39 stated in the theories.

  \<^bold>\<open>The program and how its parts interact.\<close> The aligner (\<^verbatim>\<open>src/aligner\<close>) places the libraries of
  several unikernels at the same addresses and writes, per unikernel, a description file that lists
  the sections. The monitor (\<^verbatim>\<open>src/firecracker\<close>) reserves the guest memory between guard pages, reads
  the description and maps every section from an object in shared memory, so that unikernels with
  the same section share its pages. The running guest then talks to its devices: an access to an
  MMIO address goes through the device bus to the MMIO transport of a virtio device, which sets up
  the queues and activates the device; the device takes descriptor chains from its queues in guest
  memory. The vsock device turns them into packets for a multiplexer of connections over Unix
  sockets. The network device hands frames meant for the metadata service to a small network stack
  (\<^verbatim>\<open>dumbo\<close>), of which the packet layer is modelled. Rate limiters throttle the I/O of devices, and the whole process runs under seccomp filters that
  a compiler produces from JSON.

  \<^bold>\<open>Conventions.\<close> Paths below are relative to \<^verbatim>\<open>src/firecracker/src\<close>. Machine integers are words of
  their width. The model is that of a build with overflow checks: a panic (overflow, index or slice out of
  range, failed assertion, \<^verbatim>\<open>unwrap\<close> of \<^verbatim>\<open>None\<close> or \<^verbatim>\<open>Err\<close>) is the value \<open>None\<close> of an option, a \<^verbatim>\<open>Result\<close> is
  a sum with the error on the left, and operations that change state return the new state. Log and
  metric calls have no effect on the modelled state and are left out. Code outside the sources (the
  host kernel, the \<^verbatim>\<open>vm-memory\<close> crate, event and timer descriptors, sockets) is a record of operations
  passed as a parameter; what the code relies on is a locale over that record, and every such
  locale has an interpretation on a concrete reference implementation, which shows that its laws can
  hold and which the witnesses of the properties evaluate.

  \<^bold>\<open>Theories.\<close>
  \<^item> \<open>Prelude\<close>: checked arithmetic, slices, byte order, list and word lemmas shared by all components.
  \<^item> \<open>Uk_Binary\<close> (\<^verbatim>\<open>loader/src/binary.rs\<close>, and the writer \<^verbatim>\<open>process_file_aslr\<close> of
    \<^verbatim>\<open>src/aligner/helpers/elf_minimizer.py\<close>): the description file. Written files are read back
    when the section names are ASCII (C1; the writer gets the length of other names wrong), and whatever a file holds the sections read from it are well formed (C2).
  \<^item> \<open>Host_Memory\<close>: the mapping calls of the host kernel as a parameter, with their laws.
  \<^item> \<open>Uk_Loader\<close> (\<^verbatim>\<open>loader/src/uk_loader.rs\<close>, \<^verbatim>\<open>vm-memory/src/lib.rs\<close>, \<^verbatim>\<open>arch/src/x86_64/mod.rs\<close>,
    \<^verbatim>\<open>create_guest_memory\<close> of \<^verbatim>\<open>vmm/src/builder.rs\<close>): which addresses around a region stay guard pages (C3: all, unless
    a section or the data reaches past the end, which the code does not check), where two unikernels share the same object
    (C4), which byte the copying loader puts at which address (C5), and the guest memory
    layout is as requested (C6, C7).
  \<^item> \<open>Guest_Memory\<close>: access to guest memory as a parameter, with its laws.
  \<^item> \<open>Virtio_Queue\<close> (\<^verbatim>\<open>devices/src/virtio/queue.rs\<close>, \<^verbatim>\<open>persist.rs\<close>): a validated queue never panics (C8),
    is a FIFO in both directions (C9, C10), kicks and re-enables notifications without losing one
    (C11, C12), and walks of descriptor chains end even on cycles (C13).
  \<^item> \<open>Rate_Limiter\<close> (\<^verbatim>\<open>rate_limiter/src\<close>): token buckets keep their rate (C14, C15), a blocked limiter
    unblocks through its timer (C16), and the saved state restores (C17).
  \<^item> \<open>Seccomp\<close>, \<open>Syscall_Table\<close> (\<^verbatim>\<open>seccompiler/src\<close>): the generated BPF programs, run on a model of the
    kernel's machine, decide every system call as the filter says (C18, C19); the compiler is total (C20).
  \<^item> \<open>Vsock_Txbuf\<close>, \<open>Vsock_Packet\<close>, \<open>Vsock_Connection\<close>, \<open>Vsock_Muxer\<close>, \<open>Vsock_Muxer_Safety\<close>
    (\<^verbatim>\<open>devices/src/virtio/vsock\<close>): the transmit buffer is a lossless FIFO (C21), packets are checked against guest
    memory (C22) and headers are written faithfully (C23); a connection loses, repeats and reorders no byte and
    obeys the credit rules (C24 to C27); the multiplexer keeps its queues and maps consistent and bounded, and
    all its loops end (C28 to C31). That a local port is fresh (C31) is relative to the set of allocated ports, from
    which the code can drop a port that is still used.
  \<^item> \<open>Bus\<close> (\<^verbatim>\<open>devices/src/bus.rs\<close>): an access reaches exactly the device whose range holds the address (C32).
  \<^item> \<open>Virtio_Device\<close>, \<open>Queue_Service\<close>, \<open>Vsock_Device\<close>, \<open>Vsock_Device_Safety\<close>
    (\<^verbatim>\<open>devices/src/virtio/device.rs\<close>, \<^verbatim>\<open>vsock/device.rs\<close>, \<^verbatim>\<open>vsock/event_handler.rs\<close>, and the activation of
    \<^verbatim>\<open>net/device.rs\<close> and \<^verbatim>\<open>block/device.rs\<close>): with a conforming driver (\<open>vsock_ready\<close>) the vsock device serves its queues in
    order and completes each chain once (C33), and its event handler returns and interrupts the guest when it completed something (C34).
    \<open>Queue_Service\<close> holds the facts on serving a queue that do not depend on the device.
  \<^item> \<open>Mmio_Transport\<close> (\<^verbatim>\<open>devices/src/virtio/mmio.rs\<close>): whatever the driver writes, in guest memory without holes a device is only active with
    queues inside guest memory and acknowledged features within the offered ones (C35).
  \<^item> \<open>Dumbo_Bytes\<close>, \<open>Dumbo_Pdu\<close>, \<open>Dumbo_Segment\<close> (\<^verbatim>\<open>dumbo/src/pdu\<close>, \<^verbatim>\<open>utils/src/byte_order.rs\<close>, \<^verbatim>\<open>utils/src/net\<close>): fields in
    network byte order, MAC addresses, the Internet checksum, Ethernet, ARP, IPv4, UDP and TCP. What the stack writes it reads back,
    checksums included (C36, C38); the parser of TCP options is characterised, with the input on which it does not end
    (C37); the parsers are safe on arbitrary bytes, TCP and UDP up to 100000 of them (C39).

  \<^bold>\<open>Loops, bounds and fuel.\<close> No definition uses fuel. Loops over data are structural recursion or
  recursion with a termination proof; loops whose end depends on the environment or on guest data (\<^verbatim>\<open>TxBuf::flush_to\<close>,
  the port allocation, the kill-queue sweep, the receive loop of the multiplexer, the two queue loops of the vsock device, the TCP option parser)
  are partial functions into option, so that not returning is the value \<open>None\<close>; that they return is proved
  (C21, C30, C31, C33), except for the TCP option parser, where C37 says exactly when it does not. Sizes are those of the source; no bound was made smaller for the proofs.

  \<^bold>\<open>Abstractions.\<close> A handler runs against the guest memory it finds: the vCPUs of the guest are
  modelled as steps between handler runs, or between queue operations where a property says so
  (C8 to C13), not as writes in the middle of one. Byte strings that the code holds in slices of shared memory are
  lists; the addresses they came from are kept where a property depends on them.

  \<^bold>\<open>Not modelled.\<close> Code that only calls the host kernel, KVM or third-party crates: the API server and the jailer, vCPU and VM state,
  the device managers, snapshots (their format is that of the \<^verbatim>\<open>versionize\<close> crate), the logger, generated bindings, and io_uring.
  The network, block and balloon devices, the metadata service with its TCP connections, HTTP endpoint and JSON store are not modelled beyond the activation of the first two; the queue, transport, rate limiter and bus they are built
  from are. The aligner proper works through \<^verbatim>\<open>lief\<close>, \<^verbatim>\<open>elftools\<close> and the system linker; of it only the description file
  writer is modelled. The Linux patches of \<^verbatim>\<open>src/DKSM\<close>, the user-space loaders of \<^verbatim>\<open>src/unikraft_dynamic\<close>
  and the scripts are not modelled.
\<close>

end
